(* ===== verification/P2P_Prelude.thy ===== *)
theory P2P_Prelude
  imports Main "HOL-Library.Word" "HOL-Library.Monad_Syntax" "HOL-Library.List_Lexorder"
    "HOL-Library.Multiset"
begin

text \<open>
  Shared vocabulary of the development: the machine integer types of the C code, the
  option monad in which every operation is written, the memory allocator's answers,
  \<open>memcmp\<close> on byte strings and the Ethernet address \<open>ether_addr_t\<close> (src/util.h) with the
  linear order that \<open>memcmp\<close> induces on it, and monadic iteration.

  Conventions. An operation of the C program is a HOL function that takes the state and
  returns an \<open>option\<close>: \<open>Some (ret, s')\<close> is a call that returned the C value \<open>ret\<close>;
  \<open>None\<close> is a run that does not continue, because it read freed or unset memory, indexed
  outside of an array, released a lock that was not held, or never returns.  The error codes
  of the C code are ordinary values of \<open>ret\<close>.
\<close>

section \<open>Integer types\<close>

type_synonym u8 = "8 word"
type_synonym u16 = "16 word"
type_synonym u32 = "32 word"
type_synonym u64 = "64 word"

text \<open>\<open>size_t\<close> values are \<open>nat\<close>; \<open>SIZE_MAX\<close> is the one extreme value the code uses.\<close>

definition SIZE_MAX :: nat where
  "SIZE_MAX = 2 ^ 64 - 1"

section \<open>Collections of simplification rules\<close>

named_theorems da_simps "dynamic arrays seen as lists"
named_theorems mem_simps "reads and writes of the modelled heap"

section \<open>The option monad\<close>

lemma bind_Some_iff: "(Option.bind m f = Some y) \<longleftrightarrow> (\<exists>x. m = Some x \<and> f x = Some y)"
  by (cases m) auto

lemma bind_None_iff: "(Option.bind m f = None) \<longleftrightarrow> (m = None \<or> (\<exists>x. m = Some x \<and> f x = None))"
  by (cases m) auto

lemma bind_SomeE:
  assumes "Option.bind m f = Some y"
  obtains x where "m = Some x" and "f x = Some y"
  using assms by (auto simp: bind_Some_iff)

lemma bind_cong_Some:
  assumes "m = Some x"
  shows "Option.bind m f = f x"
  using assms by simp

text \<open>A \<open>for\<close> loop whose body threads a state: the body is run on the elements in order.\<close>

fun foldM :: "('a \<Rightarrow> 's \<Rightarrow> 's option) \<Rightarrow> 'a list \<Rightarrow> 's \<Rightarrow> 's option" where
  "foldM f [] s = Some s"
| "foldM f (x # xs) s = do { s' \<leftarrow> f x s; foldM f xs s' }"

lemma foldM_append: "foldM f (xs @ ys) s = do { s' \<leftarrow> foldM f xs s; foldM f ys s' }"
proof (induction xs arbitrary: s)
  case (Cons x xs)
  then show ?case by (cases "f x s") auto
qed simp

lemma foldM_invariant:
  assumes "foldM f xs s = Some t" and "P s"
    and "\<And>x s s'. x \<in> set xs \<Longrightarrow> P s \<Longrightarrow> f x s = Some s' \<Longrightarrow> P s'"
  shows "P t"
  using assms
proof (induction xs arbitrary: s)
  case (Cons x xs)
  from Cons.prems(1) obtain s' where s': "f x s = Some s'" "foldM f xs s' = Some t"
    by (auto simp: bind_Some_iff)
  with Cons.prems(2,3) have "P s'" by (meson list.set_intros(1))
  with Cons.IH s'(2) Cons.prems(3) show ?case by (meson list.set_intros(2))
qed simp

lemma foldM_total:
  assumes "P s"
    and "\<And>x s. x \<in> set xs \<Longrightarrow> P s \<Longrightarrow> \<exists>s'. f x s = Some s' \<and> P s'"
  shows "\<exists>t. foldM f xs s = Some t \<and> P t"
  using assms
proof (induction xs arbitrary: s)
  case (Cons x xs)
  then obtain s' where s': "f x s = Some s'" "P s'" by (meson list.set_intros(1))
  with Cons.IH Cons.prems(2) have "\<exists>t. foldM f xs s' = Some t \<and> P t"
    by (meson list.set_intros(2))
  with s' show ?case by simp
qed auto

text \<open>A loop that keeps \<open>P\<close> and fails on one of its elements whenever \<open>P\<close> holds.\<close>

lemma foldM_None:
  assumes "x \<in> set xs" and "P s" and "\<And>s. P s \<Longrightarrow> f x s = None"
    and "\<And>y s s'. y \<in> set xs \<Longrightarrow> P s \<Longrightarrow> f y s = Some s' \<Longrightarrow> P s'"
  shows "foldM f xs s = None"
  using assms(1,2,4)
proof (induction xs arbitrary: s)
  case (Cons y ys)
  show ?case
  proof (cases "f y s")
    case (Some s')
    with Cons.prems(2,3) have "P s'" by (meson list.set_intros(1))
    moreover have "x \<in> set ys" using Cons.prems(1,2) assms(3) Some by auto
    ultimately have "foldM f ys s' = None" using Cons.IH Cons.prems(3) by (meson list.set_intros(2))
    with Some show ?thesis by simp
  qed simp
qed simp

text \<open>A loop none of whose iterations changes the state.\<close>

lemma foldM_idle: "\<forall>x\<in>set xs. f x s = Some s \<Longrightarrow> foldM f xs s = Some s"
  by (induction xs) auto

text \<open>The same rule for loops that cannot fail, written with \<open>fold\<close>.\<close>

lemma fold_invariant_set:
  assumes "P s" and "\<And>x s. x \<in> set xs \<Longrightarrow> P s \<Longrightarrow> P (f x s)"
  shows "P (fold f xs s)"
  using assms by (induction xs arbitrary: s) auto

section \<open>Taking one element out of a list\<close>

definition remove_nth :: "nat \<Rightarrow> 'a list \<Rightarrow> 'a list" where
  "remove_nth i xs = take i xs @ drop (Suc i) xs"

lemma map_remove_nth: "map f (remove_nth i xs) = remove_nth i (map f xs)"
  by (simp add: remove_nth_def take_map drop_map)

lemma set_remove_nth: "set (remove_nth i xs) \<subseteq> set xs"
  by (auto simp: remove_nth_def dest: in_set_takeD in_set_dropD)

lemma set_remove_nth_back: "i < length xs \<Longrightarrow> set xs \<subseteq> insert (xs ! i) (set (remove_nth i xs))"
  by (metis Cons_nth_drop_Suc append_take_drop_id insert_is_Un order_refl remove_nth_def set_append list.simps(15) sup_left_commute)

lemma length_remove_nth: "i < length xs \<Longrightarrow> length (remove_nth i xs) = length xs - 1"
  by (simp add: remove_nth_def)

lemma set_drop_Suc: "set (drop (Suc i) xs) \<subseteq> set (drop i xs)"
  by (rule set_drop_subset_set_drop) simp

lemma remove_nth_sorted:
  assumes "sorted xs"
  shows "sorted (remove_nth i xs)"
proof -
  have "sorted (take i xs @ drop i xs)" using assms by simp
  then have "\<forall>x\<in>set (take i xs). \<forall>y\<in>set (drop i xs). x \<le> y"
    unfolding sorted_append by blast
  with set_drop_Suc[of i xs] assms show ?thesis
    by (auto simp: remove_nth_def sorted_append sorted_wrt_take sorted_wrt_drop)
qed

lemma remove_nth_distinct:
  assumes "distinct xs"
  shows "distinct (remove_nth i xs)"
proof -
  have "distinct (take i xs @ drop i xs)" using assms by simp
  then have "set (take i xs) \<inter> set (drop i xs) = {}"
    unfolding distinct_append by blast
  with set_drop_Suc[of i xs] assms show ?thesis by (auto simp: remove_nth_def)
qed

lemma remove_nth_mset: "i < length xs \<Longrightarrow> mset xs = add_mset (xs ! i) (mset (remove_nth i xs))"
  by (subst id_take_nth_drop) (auto simp: remove_nth_def)

lemma set_remove_nth_distinct:
  assumes "distinct xs" and "i < length xs"
  shows "set (remove_nth i xs) = set xs - {xs ! i}"
proof -
  have "xs = take i xs @ xs ! i # drop (Suc i) xs"
    using assms(2) by (rule id_take_nth_drop)
  with assms(1) have "distinct (take i xs @ xs ! i # drop (Suc i) xs)"
    and s: "set xs = set (take i xs @ xs ! i # drop (Suc i) xs)" by simp_all
  then show ?thesis by (auto simp: remove_nth_def s)
qed

text \<open>A rearranged list with one more element.\<close>

lemma distinct_map_add:
  assumes "mset ys = add_mset x (mset xs)"
  shows "distinct (map f ys) \<longleftrightarrow> f x \<notin> f ` set xs \<and> distinct (map f xs)"
proof -
  have "mset (map f ys) = mset (map f (x # xs))" using assms by simp
  then have "distinct (map f ys) = distinct (map f (x # xs))" by (rule mset_eq_imp_distinct_iff)
  then show ?thesis by simp
qed

lemma set_add: "mset ys = add_mset x (mset xs) \<Longrightarrow> set ys = insert x (set xs)"
  by (metis set_mset_add_mset_insert set_mset_mset)

section \<open>The allocator\<close>

text \<open>
  Each \<open>malloc\<close> or \<open>realloc\<close> asks for the next answer of the allocator.  The answers are
  a list of booleans that is part of the state; an exhausted list answers \<open>True\<close>, so the
  empty list stands for a machine that never runs out of memory.
\<close>

type_synonym allocs = "bool list"

fun alloc :: "allocs \<Rightarrow> bool \<times> allocs" where
  "alloc [] = (True, [])"
| "alloc (b # bs) = (b, bs)"

section \<open>Byte strings and \<open>memcmp\<close>\<close>

text \<open>\<open>memcmp\<close> on two byte blocks of the same length: the sign of the first difference.\<close>

fun memcmp :: "u8 list \<Rightarrow> u8 list \<Rightarrow> int" where
  "memcmp (a # as) (b # bs) = (if a = b then memcmp as bs else uint a - uint b)"
| "memcmp _ _ = 0"

lemma memcmp_less: "length as = length bs \<Longrightarrow> memcmp as bs < 0 \<longleftrightarrow> as < bs"
  by (induction as bs rule: list_induct2) (auto simp: word_less_def)

lemma memcmp_eq: "length as = length bs \<Longrightarrow> memcmp as bs = 0 \<longleftrightarrow> as = bs"
  by (induction as bs rule: list_induct2) (auto simp: word_uint_eq_iff)

section \<open>Ethernet addresses\<close>

text \<open>\<open>ether_addr_t\<close>: an array of \<open>ETH_ALEN = 6\<close> bytes.\<close>

datatype ether_addr = Ether_Addr u8 u8 u8 u8 u8 u8

fun mac_bytes :: "ether_addr \<Rightarrow> u8 list" where
  "mac_bytes (Ether_Addr a b c d e f) = [a, b, c, d, e, f]"

definition ETH_ALEN :: nat where
  "ETH_ALEN = 6"

lemma length_mac_bytes [simp]: "length (mac_bytes m) = ETH_ALEN"
  by (cases m) (simp add: ETH_ALEN_def)

lemma mac_bytes_inject [simp]: "mac_bytes m = mac_bytes n \<longleftrightarrow> m = n"
  by (cases m; cases n) simp

text \<open>The order in which the program sorts its tables: byte-wise from the first byte.\<close>

instantiation ether_addr :: linorder
begin

definition less_eq_ether_addr :: "ether_addr \<Rightarrow> ether_addr \<Rightarrow> bool" where
  "m \<le> n \<longleftrightarrow> mac_bytes m \<le> mac_bytes n"

definition less_ether_addr :: "ether_addr \<Rightarrow> ether_addr \<Rightarrow> bool" where
  "m < n \<longleftrightarrow> mac_bytes m < mac_bytes n"

instance
  by standard (auto simp: less_eq_ether_addr_def less_ether_addr_def order.strict_iff_order)

end

text \<open>\<open>memcmp (a1, a2, ETH_ALEN)\<close> on two addresses, as all the comparison functions do.\<close>

definition mac_cmp :: "ether_addr \<Rightarrow> ether_addr \<Rightarrow> int" where
  "mac_cmp m n = memcmp (mac_bytes m) (mac_bytes n)"

lemma mac_cmp_less: "mac_cmp m n < 0 \<longleftrightarrow> m < n"
  by (simp add: mac_cmp_def less_ether_addr_def memcmp_less)

lemma mac_cmp_eq: "mac_cmp m n = 0 \<longleftrightarrow> m = n"
  by (simp add: mac_cmp_def memcmp_eq)

text \<open>\<open>ether_addr_is_mcast\<close>: the low bit of the first byte.\<close>

fun ether_addr_is_mcast :: "ether_addr \<Rightarrow> bool" where
  "ether_addr_is_mcast (Ether_Addr a _ _ _ _ _) = bit a 0"

end
