(* ===== verification/Darray.thy ===== *)
theory Darray
  imports P2P_Prelude
begin

text \<open>
  The growable array of src/darray.h: its record, the macros \<open>DA_INIT\<close>, \<open>DA_DESTROY\<close>,
  \<open>DA_CHECK_AND_REALLOC\<close>, \<open>DA_ADD_TO_END\<close> and \<open>DA_REMOVE\<close>, the list a dynamic array stands
  for, and the interface locale \<open>list_array\<close> that the routing tables, the peer group and
  the connection limiter rely on, interpreted on the macros.
\<close>

section \<open>The record and the macros\<close>

text \<open>
  \<open>da_ct\<close> elements are in use, the block has room for \<open>da_mem\<close>, and \<open>da_items\<close> are the slots
  of the block written so far: slots at or above \<open>da_ct\<close> hold what was last stored there,
  which \<open>DA_REMOVE\<close> leaves behind and \<open>trim_host\<close> in src/routing.c reads.
\<close>

record 'a da =
  da_ct :: nat
  da_mem :: nat
  da_items :: "'a list"

definition DA_INIT_MEM :: nat where
  "DA_INIT_MEM = 8"

text \<open>The macros evaluate to \<open>fail\<close>: true when the allocation failed.\<close>

definition DA_INIT :: "nat \<Rightarrow> allocs \<Rightarrow> bool \<times> 'a da \<times> allocs" where
  "DA_INIT init_sz al =
     (let (ok, al') = alloc al
      in (\<not> ok, \<lparr>da_ct = 0, da_mem = init_sz, da_items = []\<rparr>, al'))"

definition DA_DESTROY :: "'a da \<Rightarrow> 'a da" where
  "DA_DESTROY d = \<lparr>da_ct = 0, da_mem = 0, da_items = []\<rparr>"

text \<open>
  Sizes are natural numbers: \<open>2 * mem + 8\<close> would wrap in \<open>size_t\<close> only for a block that fills the
  address space, which no allocator grants.
\<close>

definition DA_CHECK_AND_REALLOC :: "'a da \<Rightarrow> nat \<Rightarrow> allocs \<Rightarrow> bool \<times> 'a da \<times> allocs" where
  "DA_CHECK_AND_REALLOC d new_elem_ct al =
     (if da_mem d < new_elem_ct
      then let attempt_sz = 2 * da_mem d + 8; (ok, al') = alloc al
           in if ok then (False, d\<lparr>da_mem := attempt_sz\<rparr>, al') else (True, d, al')
      else (False, d, al))"

text \<open>A store into the first slot that is not in use.\<close>

definition da_store :: "'a da \<Rightarrow> 'a \<Rightarrow> 'a da" where
  "da_store d x =
     d\<lparr>da_items := (if da_ct d < length (da_items d) then (da_items d)[da_ct d := x]
                    else da_items d @ [x])\<rparr>"

definition DA_ADD_TO_END :: "'a da \<Rightarrow> 'a \<Rightarrow> allocs \<Rightarrow> bool \<times> 'a da \<times> allocs" where
  "DA_ADD_TO_END d item al =
     (case DA_CHECK_AND_REALLOC d (da_ct d + 1) al of
        (fail, d', al') \<Rightarrow>
          if fail then (True, d', al')
          else (False, (da_store d' item)\<lparr>da_ct := da_ct d' + 1\<rparr>, al'))"

text \<open>
  \<open>DA_REMOVE (base_p, ct, rem_p)\<close> with \<open>i = rem_p - base_p\<close>: the count is decremented and
  the \<open>ct - i\<close> slots above \<open>i\<close> are moved one down; the last slot keeps its content.
\<close>

definition DA_REMOVE :: "'a da \<Rightarrow> nat \<Rightarrow> 'a da" where
  "DA_REMOVE d i =
     (let ct = da_ct d - 1; ct_ahead = i; ct_to_end = ct - ct_ahead
      in d\<lparr>da_ct := ct,
           da_items := take i (da_items d) @ take ct_to_end (drop (i + 1) (da_items d)) @
                       drop (i + ct_to_end) (da_items d)\<rparr>)"

section \<open>The list a dynamic array stands for\<close>

definition da_wf :: "'a da \<Rightarrow> bool" where
  "da_wf d \<longleftrightarrow> da_ct d \<le> length (da_items d) \<and> length (da_items d) \<le> da_mem d"

definition da_list :: "'a da \<Rightarrow> 'a list" where
  "da_list d = take (da_ct d) (da_items d)"

lemma length_da_list [da_simps]: "da_wf d \<Longrightarrow> length (da_list d) = da_ct d"
  by (simp add: da_wf_def da_list_def)

lemma da_list_nth [da_simps]: "i < da_ct d \<Longrightarrow> da_list d ! i = da_items d ! i"
  by (simp add: da_list_def)

lemma DA_INIT_list:
  "DA_INIT n al = (fail, d, al') \<Longrightarrow> da_wf d \<and> da_list d = []"
  by (auto simp: DA_INIT_def da_wf_def da_list_def split: prod.splits)

lemma DA_DESTROY_list: "da_wf (DA_DESTROY d) \<and> da_list (DA_DESTROY d) = []"
  by (simp add: DA_DESTROY_def da_wf_def da_list_def)

lemma da_store_list:
  assumes "da_ct d \<le> length (da_items d)"
  shows "take (da_ct d + 1) (da_items (da_store d x)) = da_list d @ [x]"
    and "length (da_items (da_store d x)) = max (length (da_items d)) (da_ct d + 1)"
  using assms by (auto simp: da_store_def da_list_def take_Suc_conv_app_nth)

lemma da_store_sel [simp]: "da_ct (da_store d x) = da_ct d" "da_mem (da_store d x) = da_mem d"
  by (simp_all add: da_store_def)

lemma DA_ADD_TO_END_cases:
  assumes "DA_ADD_TO_END d x al = (fail, d', al')" and "da_wf d"
  obtains (fail) "fail" "d' = d"
  | (ok) "\<not> fail" "da_wf d'" "da_list d' = da_list d @ [x]" "da_ct d' = da_ct d + 1"
      "da_mem d' = (if da_mem d < da_ct d + 1 then 2 * da_mem d + 8 else da_mem d)"
proof (cases fail)
  case True
  with assms show thesis
    by (auto simp: DA_ADD_TO_END_def DA_CHECK_AND_REALLOC_def Let_def
        split: if_splits prod.splits intro: fail)
next
  case False
  then obtain m where d': "d' = (da_store (d\<lparr>da_mem := m\<rparr>) x)\<lparr>da_ct := da_ct d + 1\<rparr>"
    and m: "m = (if da_mem d < da_ct d + 1 then 2 * da_mem d + 8 else da_mem d)"
    using assms(1)
    by (auto simp: DA_ADD_TO_END_def DA_CHECK_AND_REALLOC_def Let_def
        split: if_splits prod.splits)
  let ?e = "d\<lparr>da_mem := m\<rparr>"
  have e: "da_ct ?e \<le> length (da_items ?e)" "da_list ?e = da_list d"
    using assms(2) by (simp_all add: da_wf_def da_list_def)
  have l: "da_list d' = da_list d @ [x]"
    using da_store_list(1)[OF e(1)] e(2) d' by (simp add: da_list_def)
  have w: "da_wf d'"
    using da_store_list(2)[OF e(1)] d' m assms(2) by (auto simp: da_wf_def)
  show thesis
    by (rule ok[OF False w l]) (simp_all add: d' m)
qed

lemma DA_REMOVE_ct [da_simps]: "da_ct (DA_REMOVE d i) = da_ct d - 1"
  by (simp add: DA_REMOVE_def Let_def)

lemma DA_REMOVE_list:
  assumes "da_wf d" and "i < da_ct d"
  shows "da_wf (DA_REMOVE d i)"
    and "da_list (DA_REMOVE d i) = remove_nth i (da_list d)"
proof -
  let ?xs = "da_items d" and ?n = "da_ct d"
  have len: "i < ?n" "?n \<le> length ?xs"
    using assms by (auto simp: da_wf_def)
  have items: "da_items (DA_REMOVE d i) =
      take i ?xs @ take (?n - 1 - i) (drop (i + 1) ?xs) @ drop (?n - 1) ?xs"
    using len by (simp add: DA_REMOVE_def Let_def)
  have "length (da_items (DA_REMOVE d i)) = length ?xs"
    using len by (simp add: items)
  then show "da_wf (DA_REMOVE d i)"
    using assms by (auto simp: da_wf_def DA_REMOVE_def Let_def)
  have "da_list (DA_REMOVE d i) = take i ?xs @ take (?n - 1 - i) (drop (i + 1) ?xs)"
    using len by (simp add: da_list_def items DA_REMOVE_ct)
  also have "take (?n - 1 - i) (drop (i + 1) ?xs) = drop (i + 1) (da_list d)"
    by (simp add: da_list_def drop_take)
  also have "take i ?xs = take i (da_list d)"
    using len by (simp add: da_list_def)
  finally show "da_list (DA_REMOVE d i) = remove_nth i (da_list d)" by (simp add: remove_nth_def)
qed

text \<open>What the removed slot holds afterwards: the next element, or the removed one if it was last.\<close>

lemma DA_REMOVE_slot:
  assumes "da_wf d" and "i < da_ct d"
  shows "da_items (DA_REMOVE d i) ! i =
    (if i + 1 < da_ct d then da_list d ! (i + 1) else da_list d ! i)"
proof -
  have len: "i < da_ct d" "da_ct d \<le> length (da_items d)"
    using assms by (auto simp: da_wf_def)
  show ?thesis
  proof (cases "i + 1 < da_ct d")
    case False
    with len have "da_ct d = i + 1" by simp
    with len show ?thesis by (simp add: DA_REMOVE_def Let_def nth_append da_list_def)
  qed (use len in \<open>simp add: DA_REMOVE_def Let_def nth_append da_list_def\<close>)
qed

lemma da_wf_slot:
  assumes "da_wf d" and "i < da_ct d"
  shows "i < length (da_items (DA_REMOVE d i))"
  using assms by (auto simp: DA_REMOVE_def Let_def da_wf_def)

section \<open>The interface its clients use\<close>

text \<open>
  A table that is extended at its end (or refuses, unchanged) and from which an element can
  be taken out by position, specified by the list of its elements.
\<close>

locale list_array =
  fixes add :: "'d \<Rightarrow> 'a \<Rightarrow> allocs \<Rightarrow> bool \<times> 'd \<times> allocs"
    and remove :: "'d \<Rightarrow> nat \<Rightarrow> 'd"
    and elems :: "'d \<Rightarrow> 'a list"
    and inv :: "'d \<Rightarrow> bool"
  assumes add_fail: "inv d \<Longrightarrow> add d x al = (True, d', al') \<Longrightarrow> d' = d"
    and add_ok: "inv d \<Longrightarrow> add d x al = (False, d', al') \<Longrightarrow> inv d' \<and> elems d' = elems d @ [x]"
    and remove_elems: "inv d \<Longrightarrow> i < length (elems d) \<Longrightarrow>
      inv (remove d i) \<and> elems (remove d i) = remove_nth i (elems d)"
begin

lemma add_inv: "inv d \<Longrightarrow> add d x al = (fail, d', al') \<Longrightarrow> inv d'"
  by (cases fail) (use add_fail add_ok in fastforce)+

lemma add_mset:
  "inv d \<Longrightarrow> add d x al = (False, d', al') \<Longrightarrow> mset (elems d') = add_mset x (mset (elems d))"
  using add_ok by fastforce

lemma remove_mset:
  assumes "inv d" and "i < length (elems d)"
  shows "mset (elems d) = add_mset (elems d ! i) (mset (elems (remove d i)))"
  using remove_elems[OF assms] remove_nth_mset[OF assms(2)] by simp

text \<open>Taking the element just added out again restores the table.\<close>

lemma remove_add_last:
  assumes "inv d" and "add d x al = (False, d', al')"
  shows "elems (remove d' (length (elems d))) = elems d"
proof -
  from add_ok[OF assms] have d': "inv d'" "elems d' = elems d @ [x]" by auto
  show ?thesis
    using remove_elems[OF d'(1), of "length (elems d)"] d'(2) by (simp add: remove_nth_def)
qed

end

interpretation da: list_array DA_ADD_TO_END DA_REMOVE da_list da_wf
proof
  fix d d' :: "'a da" and x al al'
  assume wf: "da_wf d"
  show "d' = d" if "DA_ADD_TO_END d x al = (True, d', al')"
    using that wf by (cases rule: DA_ADD_TO_END_cases) auto
  show "da_wf d' \<and> da_list d' = da_list d @ [x]" if "DA_ADD_TO_END d x al = (False, d', al')"
    using that wf by (cases rule: DA_ADD_TO_END_cases) auto
next
  fix d :: "'a da" and i
  assume "da_wf d" "i < length (da_list d)"
  then show "da_wf (DA_REMOVE d i) \<and>
      da_list (DA_REMOVE d i) = remove_nth i (da_list d)"
    using DA_REMOVE_list by (metis length_da_list)
qed

end
