(* ===== verification/Search.thy ===== *)
theory Search
  imports Darray
begin

text \<open>
  Sorting and searching: the binary search that src/stdparam.h generates for each table
  (\<open>DEF_BSEARCH\<close>) and the C library's \<open>qsort\<close> as the program uses it.  Both are generic in a
  comparison that may itself fail (it follows pointers); the locale \<open>key_order\<close> states what
  a comparison function promises and proves search and sort correct once for all of them.
\<close>

section \<open>Definitions\<close>

text \<open>
  \<open>bsearch_name\<close> of \<open>DEF_BSEARCH\<close>, with \<open>cmp\<close> standing for \<open>cmp (key, _)\<close> and the result
  being the index of the element found, \<open>p - base\<close>.
\<close>

function bsearch_loop :: "('a \<Rightarrow> int option) \<Rightarrow> 'a list \<Rightarrow> nat \<Rightarrow> nat \<Rightarrow> nat option option" where
  "bsearch_loop cmp base l u =
     (if l < u then
        let idx = (l + u) div 2
        in if idx < length base then do {
             comparison \<leftarrow> cmp (base ! idx);
             if comparison < 0 then bsearch_loop cmp base l idx
             else if comparison > 0 then bsearch_loop cmp base (idx + 1) u
             else Some (Some idx)
           } else None
      else Some None)"
  by pat_completeness auto
termination
  by (relation "measure (\<lambda>(cmp, base, l, u). u - l)") auto

declare bsearch_loop.simps [simp del]

definition bsearch :: "('a \<Rightarrow> int option) \<Rightarrow> 'a list \<Rightarrow> nat \<Rightarrow> nat option option" where
  "bsearch cmp base nmemb = bsearch_loop cmp base 0 nmemb"

text \<open>
  The C library's \<open>qsort\<close>.  The order of elements that compare equal is left open by the
  standard; here they keep their order, as in the merge sort of the GNU C library.
\<close>

fun insort_cmp :: "('a \<Rightarrow> 'a \<Rightarrow> int option) \<Rightarrow> 'a \<Rightarrow> 'a list \<Rightarrow> 'a list option" where
  "insort_cmp cmp x [] = Some [x]"
| "insort_cmp cmp x (y # ys) = do {
     c \<leftarrow> cmp x y;
     if c \<le> 0 then Some (x # y # ys)
     else do { zs \<leftarrow> insort_cmp cmp x ys; Some (y # zs) }
   }"

fun qsort :: "('a \<Rightarrow> 'a \<Rightarrow> int option) \<Rightarrow> 'a list \<Rightarrow> 'a list option" where
  "qsort cmp [] = Some []"
| "qsort cmp (x # xs) = do { ys \<leftarrow> qsort cmp xs; insort_cmp cmp x ys }"

text \<open>\<open>qsort\<close> over the elements in use of a dynamic array, in place.\<close>

definition da_qsort :: "('a \<Rightarrow> 'a \<Rightarrow> int option) \<Rightarrow> 'a da \<Rightarrow> 'a da option" where
  "da_qsort cmp d = do {
     ys \<leftarrow> qsort cmp (da_list d);
     Some (d\<lparr>da_items := ys @ drop (da_ct d) (da_items d)\<rparr>)
   }"

section \<open>What does not depend on the comparison\<close>

lemma insort_cmp_mset: "insort_cmp cmp x xs = Some ys \<Longrightarrow> mset ys = add_mset x (mset xs)"
  by (induction xs arbitrary: ys) (auto simp: bind_Some_iff split: if_splits)

lemma qsort_mset: "qsort cmp xs = Some ys \<Longrightarrow> mset ys = mset xs"
  by (induction xs arbitrary: ys) (auto simp: bind_Some_iff dest!: insort_cmp_mset)

lemma qsort_set: "qsort cmp xs = Some ys \<Longrightarrow> set ys = set xs"
  using qsort_mset by (metis set_mset_mset)

lemma qsort_length: "qsort cmp xs = Some ys \<Longrightarrow> length ys = length xs"
  using qsort_mset by (metis size_mset)

lemma qsort_distinct: "qsort cmp xs = Some ys \<Longrightarrow> distinct ys = distinct xs"
  using qsort_mset by (metis mset_eq_imp_distinct_iff)

lemma da_qsort_list:
  assumes "da_qsort cmp d = Some d'" and "da_wf d"
  shows "qsort cmp (da_list d) = Some (da_list d')" and "da_wf d'" and "da_ct d' = da_ct d"
proof -
  from assms(1) obtain ys where ys: "qsort cmp (da_list d) = Some ys"
    and d': "d' = d\<lparr>da_items := ys @ drop (da_ct d) (da_items d)\<rparr>"
    by (auto simp: da_qsort_def bind_Some_iff)
  from qsort_length[OF ys] have len: "length ys = da_ct d"
    using assms(2) by (simp add: length_da_list)
  then show "qsort cmp (da_list d) = Some (da_list d')"
    using ys d' by (simp add: da_list_def)
  show "da_wf d'" "da_ct d' = da_ct d"
    using len d' assms(2) by (auto simp: da_wf_def)
qed

lemma da_qsort_total:
  "\<exists>ys. qsort cmp (da_list d) = Some ys \<Longrightarrow> \<exists>d'. da_qsort cmp d = Some d'"
  by (auto simp: da_qsort_def)

text \<open>A found index lies in the searched range and compares equal.\<close>

lemma bsearch_loop_found:
  "bsearch_loop cmp base l u = Some (Some i) \<Longrightarrow>
     l \<le> i \<and> i < u \<and> i < length base \<and> cmp (base ! i) = Some 0"
proof (induction cmp base l u rule: bsearch_loop.induct)
  case (1 cmp base l u)
  let ?m = "(l + u) div 2"
  from "1.prems" have lu: "l < u" "?m < length base"
    by (auto simp: bsearch_loop.simps[of cmp base l u] Let_def split: if_splits)
  then have m: "l \<le> ?m" "?m < u" by auto
  from "1.prems" lu obtain c where c: "cmp (base ! ?m) = Some c"
    and rest: "(if c < 0 then bsearch_loop cmp base l ?m
       else if c > 0 then bsearch_loop cmp base (?m + 1) u else Some (Some ?m)) = Some (Some i)"
    by (auto simp: bsearch_loop.simps[of cmp base l u] Let_def bind_Some_iff)
  consider "c < 0" | "c > 0" | "c = 0" by linarith
  then show ?case
  proof cases
    case 1
    with "1.IH"(1)[OF lu(1) refl lu(2) c] rest m show ?thesis by auto
  next
    case 2
    with "1.IH"(2)[OF lu(1) refl lu(2) c] rest m show ?thesis by auto
  next
    case 3
    with rest c lu m show ?thesis by auto
  qed
qed

lemma bsearch_found:
  assumes "bsearch cmp base n = Some (Some i)"
  shows "i < n" and "i < length base" and "cmp (base ! i) = Some 0"
  using bsearch_loop_found[OF assms[unfolded bsearch_def]] by auto

section \<open>Comparison functions and their keys\<close>

text \<open>
  Every comparison function of the program reads a key out of each of its two arguments and
  compares the keys.  \<open>key x = None\<close> says that reading \<open>x\<close>'s key fails.
\<close>

text \<open>All the keys of a list can be read; and they ascend.\<close>

definition keyed :: "('a \<Rightarrow> 'k option) \<Rightarrow> 'a list \<Rightarrow> bool" where
  "keyed key xs \<longleftrightarrow> (\<forall>x\<in>set xs. key x \<noteq> None)"

definition ascending :: "('a \<Rightarrow> 'k :: linorder option) \<Rightarrow> 'a list \<Rightarrow> bool" where
  "ascending key xs \<longleftrightarrow> keyed key xs \<and> sorted (map (the \<circ> key) xs)"

lemma ascending_cong:
  "\<forall>x\<in>set xs. f x = g x \<Longrightarrow> ascending f xs = ascending g xs"
  by (simp add: ascending_def keyed_def cong: map_cong)

locale key_order =
  fixes cmp :: "'a \<Rightarrow> 'a \<Rightarrow> int option"
    and key :: "'a \<Rightarrow> 'k :: linorder option"
    and kcmp :: "'k \<Rightarrow> 'k \<Rightarrow> int"
  assumes cmp_keys: "key x = Some a \<Longrightarrow> key y = Some b \<Longrightarrow> cmp x y = Some (kcmp a b)"
    and kcmp_less: "kcmp a b < 0 \<longleftrightarrow> a < b"
    and kcmp_eq: "kcmp a b = 0 \<longleftrightarrow> a = b"
begin

lemma kcmp_le: "kcmp a b \<le> 0 \<longleftrightarrow> a \<le> b"
  using kcmp_less kcmp_eq by (metis order.order_iff_strict)

lemma kcmp_greater: "kcmp a b > 0 \<longleftrightarrow> b < a"
  using kcmp_le by (metis not_le)

lemma insort_cmp_ascending:
  assumes "ascending key xs" and "key x = Some a"
  shows "\<exists>ys. insort_cmp cmp x xs = Some ys \<and> ascending key ys"
  using assms(1)
proof (induction xs)
  case Nil
  with assms(2) show ?case by (simp add: ascending_def keyed_def)
next
  case (Cons y xs)
  then obtain b where b: "key y = Some b" by (auto simp: ascending_def keyed_def)
  with assms(2) have c: "cmp x y = Some (kcmp a b)" by (rule cmp_keys)
  show ?case
  proof (cases "a \<le> b")
    case True
    with c b Cons.prems assms(2) have "ascending key (x # y # xs)"
      by (auto simp: ascending_def keyed_def)
    with c True show ?thesis by (simp add: kcmp_le)
  next
    case False
    from Cons obtain ys where ys: "insort_cmp cmp x xs = Some ys" "ascending key ys"
      by (auto simp: ascending_def keyed_def)
    have "set ys = insert x (set xs)"
      using insort_cmp_mset[OF ys(1)] by (metis set_mset_add_mset_insert set_mset_mset)
    with ys(2) b Cons.prems assms(2) False have "ascending key (y # ys)"
      by (auto simp: ascending_def keyed_def)
    with c ys(1) False show ?thesis by (simp add: kcmp_le)
  qed
qed

lemma qsort_sorts:
  assumes "keyed key xs"
  shows "\<exists>ys. qsort cmp xs = Some ys \<and> ascending key ys"
  using assms
proof (induction xs)
  case (Cons x xs)
  then obtain ys where ys: "qsort cmp xs = Some ys" "ascending key ys"
    by (auto simp: keyed_def)
  from Cons.prems obtain a where "key x = Some a" by (auto simp: keyed_def)
  with ys show ?case using insort_cmp_ascending by simp
qed (simp add: ascending_def keyed_def)

lemma qsort_ascending:
  assumes "keyed key xs" and "qsort cmp xs = Some ys"
  shows "ascending key ys"
  using qsort_sorts[OF assms(1)] assms(2) by auto

lemma qsort_total: "keyed key xs \<Longrightarrow> \<exists>ys. qsort cmp xs = Some ys"
  using qsort_sorts by blast

text \<open>Binary search for the key \<open>k\<close>: it returns, and finds an element iff there is one.\<close>

lemma bsearch_loop_correct:
  assumes "ascending key base" and "u \<le> length base"
    and "\<forall>y b. key y = Some b \<longrightarrow> probe y = Some (kcmp k b)"
    and "\<And>i. i < l \<Longrightarrow> i < length base \<Longrightarrow> the (key (base ! i)) < k"
    and "\<And>i. u \<le> i \<Longrightarrow> i < length base \<Longrightarrow> k < the (key (base ! i))"
  shows "\<exists>r. bsearch_loop probe base l u = Some r \<and>
    (r = None \<longrightarrow> (\<forall>y\<in>set base. key y \<noteq> Some k))"
  using assms
proof (induction probe base l u rule: bsearch_loop.induct)
  case (1 probe base l u)
  let ?m = "(l + u) div 2"
  show ?case
  proof (cases "l < u")
    case False
    have "key y \<noteq> Some k" if y: "y \<in> set base" for y
    proof -
      from y obtain i where i: "i < length base" "y = base ! i" by (metis in_set_conv_nth)
      consider "i < l" | "u \<le> i" using False by linarith
      then show ?thesis
        by cases (use "1.prems"(4,5) i in fastforce)+
    qed
    with False show ?thesis by (auto simp: bsearch_loop.simps[of probe base l u])
  next
    case True
    with "1.prems"(2) have m: "l \<le> ?m" "?m < u" "?m < length base" by auto
    from m "1.prems"(1) obtain b where b: "key (base ! ?m) = Some b"
      by (fastforce simp: ascending_def keyed_def)
    with "1.prems"(3) have c: "probe (base ! ?m) = Some (kcmp k b)" by blast
    have step: "bsearch_loop probe base l u =
        (if kcmp k b < 0 then bsearch_loop probe base l ?m
         else if kcmp k b > 0 then bsearch_loop probe base (?m + 1) u else Some (Some ?m))"
      using True m c by (simp add: bsearch_loop.simps[of probe base l u] Let_def)
    have mono: "the (key (base ! i)) \<le> the (key (base ! j))"
      if "i \<le> j" "j < length base" for i j
      using "1.prems"(1) that sorted_nth_mono[of "map (the \<circ> key) base" i j]
      by (simp add: ascending_def)
    consider "k < b" | "b < k" | "k = b" by fastforce
    then show ?thesis
    proof cases
      case 1
      have "k < the (key (base ! i))" if "?m \<le> i" "i < length base" for i
        using mono[OF that] b 1 by simp
      with "1.IH"(1)[OF True refl m(3) c] 1 "1.prems" m show ?thesis
        by (simp add: step kcmp_less)
    next
      case 2
      have ih: "the (key (base ! i)) < k" if "i < ?m + 1" "i < length base" for i
        using mono[of i ?m] b 2 m that by fastforce
      from 2 have "\<not> k < b" by simp
      with ih "1.IH"(2)[OF True refl m(3) c] 2 "1.prems" show ?thesis
        by (simp add: step kcmp_less kcmp_greater)
    next
      case 3
      then show ?thesis by (simp add: step kcmp_less kcmp_greater)
    qed
  qed
qed

lemma bsearch_correct:
  assumes "ascending key base" and "\<forall>y b. key y = Some b \<longrightarrow> probe y = Some (kcmp k b)"
  obtains (found) i where "bsearch probe base (length base) = Some (Some i)"
      "i < length base" "key (base ! i) = Some k"
  | (missing) "bsearch probe base (length base) = Some None" "\<forall>y\<in>set base. key y \<noteq> Some k"
proof -
  obtain r where r: "bsearch probe base (length base) = Some r"
    "r = None \<longrightarrow> (\<forall>y\<in>set base. key y \<noteq> Some k)"
    using bsearch_loop_correct[OF assms(1) order_refl assms(2), where l = 0]
    by (auto simp: bsearch_def)
  show thesis
  proof (cases r)
    case None
    with r show thesis by (auto intro: missing)
  next
    case (Some i)
    with r have b: "bsearch probe base (length base) = Some (Some i)" by simp
    then have i: "i < length base" "probe (base ! i) = Some 0"
      using bsearch_found by metis+
    with assms(1) obtain b where "key (base ! i) = Some b"
      by (fastforce simp: ascending_def keyed_def)
    with assms(2) i have "key (base ! i) = Some k" by (metis kcmp_eq option.inject)
    with b i show thesis by (auto intro: found)
  qed
qed

text \<open>In a table with pairwise different keys the element found is the only one with that key.\<close>

lemma bsearch_unique:
  assumes "ascending key base" and "distinct (map key base)"
    and "\<forall>y b. key y = Some b \<longrightarrow> probe y = Some (kcmp k b)"
    and "j < length base" and "key (base ! j) = Some k"
  shows "bsearch probe base (length base) = Some (Some j)"
proof (cases rule: bsearch_correct[OF assms(1,3)])
  case (1 i)
  with assms(2,4,5) have "i = j" by (simp add: distinct_conv_nth) metis
  with 1 show ?thesis by simp
next
  case 2
  with assms(4,5) show ?thesis by (metis nth_mem)
qed

end

section \<open>Sorted tables\<close>

text \<open>
  The tables of hosts, peers and connection attempts: a dynamic array whose elements ascend by
  pairwise different keys.  They are searched with \<open>bsearch\<close>, extended by an append followed by
  \<open>qsort\<close>, and shrunk with \<open>DA_REMOVE\<close>.
\<close>

definition table_wf :: "('a \<Rightarrow> 'k :: linorder option) \<Rightarrow> 'a da \<Rightarrow> bool" where
  "table_wf key d \<longleftrightarrow> da_wf d \<and> ascending key (da_list d) \<and> distinct (map key (da_list d))"

context key_order
begin

lemma table_find:
  assumes "table_wf key d" and "key x = Some k"
  obtains (found) i where "bsearch (cmp x) (da_list d) (da_ct d) = Some (Some i)"
      "i < length (da_list d)" "key (da_list d ! i) = Some k"
  | (missing) "bsearch (cmp x) (da_list d) (da_ct d) = Some None" "\<forall>y\<in>set (da_list d). key y \<noteq> Some k"
proof -
  have wf: "da_wf d" "ascending key (da_list d)" using assms(1) by (simp_all add: table_wf_def)
  have probe: "\<forall>y b. key y = Some b \<longrightarrow> cmp x y = Some (kcmp k b)" using assms(2) cmp_keys by blast
  show thesis
    by (rule bsearch_correct[OF wf(2) probe]) (use wf(1) found missing in \<open>auto simp: length_da_list\<close>)
qed

lemma table_add:
  assumes wf: "table_wf key d" and k: "key x = Some k" and new: "\<forall>y\<in>set (da_list d). key y \<noteq> Some k"
  obtains (fail) al' where "DA_ADD_TO_END d x al = (True, d, al')"
  | (ok) d1 d2 al' where "DA_ADD_TO_END d x al = (False, d1, al')" "da_qsort cmp d1 = Some d2"
      "table_wf key d2" "mset (da_list d2) = add_mset x (mset (da_list d))"
proof -
  have da: "da_wf d" using wf by (simp add: table_wf_def)
  obtain fl d1 al' where add: "DA_ADD_TO_END d x al = (fl, d1, al')" by (rule prod_cases3)
  show thesis
  proof (cases fl)
    case True
    with add da.add_fail[OF da, of x al d1 al'] show thesis by (intro fail[of al']) simp
  next
    case False
    with add da.add_ok[OF da] have d1: "da_wf d1" "da_list d1 = da_list d @ [x]" by auto
    have key: "keyed key (da_list d1)" using wf k by (auto simp: d1 table_wf_def ascending_def keyed_def)
    from qsort_total[OF key] obtain d2 where d2: "da_qsort cmp d1 = Some d2" using da_qsort_total by blast
    note q = da_qsort_list[OF d2 d1(1)]
    have ms: "mset (da_list d2) = add_mset x (mset (da_list d))" using qsort_mset[OF q(1)] by (simp add: d1)
    have "key x \<notin> key ` set (da_list d)" using new k by auto
    then have "table_wf key d2"
      using wf q qsort_ascending[OF key q(1)] by (auto simp: table_wf_def distinct_map_add[OF ms])
    with False add d2 ms show thesis by (intro ok) auto
  qed
qed

lemma table_remove:
  assumes wf: "table_wf key d" and i: "i < length (da_list d)"
  shows "table_wf key (DA_REMOVE d i)"
    and "set (da_list (DA_REMOVE d i)) = {x \<in> set (da_list d). key x \<noteq> key (da_list d ! i)}"
proof -
  have da: "da_wf d" and dist: "distinct (map key (da_list d))" using wf by (simp_all add: table_wf_def)
  note rm = da.remove_elems[OF da i]
  show "table_wf key (DA_REMOVE d i)"
    using wf rm set_remove_nth[of i "da_list d"]
    by (auto simp: table_wf_def ascending_def keyed_def map_remove_nth remove_nth_sorted remove_nth_distinct)
  have "distinct (da_list d)" using dist by (simp add: distinct_map)
  from set_remove_nth_distinct[OF this i] dist i
  show "set (da_list (DA_REMOVE d i)) = {x \<in> set (da_list d). key x \<noteq> key (da_list d ! i)}"
    by (auto simp: rm distinct_map inj_on_def)
qed

end

end
