(* ===== verification/Packet.thy ===== *)
theory Packet
  imports P2P_Prelude
begin

text \<open>
  Data on the wire: byte order conversion and time values (src/util.h), the packed structures
  and constants of src/peer_proto.h with their byte images, and the host conversion of
  src/pkt.c.  The target is a little-endian Linux machine, on which \<open>htonl\<close> and \<open>htons\<close>
  reverse the bytes and the \<open>#else\<close> branch of \<open>htonll\<close> is compiled.
\<close>

unbundle bit_operations_syntax

section \<open>Words in memory\<close>

text \<open>The \<open>n\<close> bytes of a little-endian word, lowest address first, and back.\<close>

definition le_bytes :: "nat \<Rightarrow> 'a :: len word \<Rightarrow> u8 list" where
  "le_bytes n w = map (\<lambda>i. ucast (drop_bit (8 * i) w)) [0..<n]"

fun of_le_bytes :: "u8 list \<Rightarrow> 'a :: len word" where
  "of_le_bytes [] = 0"
| "of_le_bytes (b # bs) = push_bit 8 (of_le_bytes bs) OR ucast b"

lemma length_le_bytes [simp]: "length (le_bytes n w) = n"
  by (simp add: le_bytes_def)

lemma bit_of_le_bytes:
  "bit (of_le_bytes bs :: 'a :: len word) i \<longleftrightarrow>
     i < LENGTH('a) \<and> i div 8 < length bs \<and> bit (bs ! (i div 8)) (i mod 8)"
proof (induction bs arbitrary: i)
  case (Cons b bs)
  show ?case
  proof (cases "i < 8")
    case True
    then show ?thesis by (auto simp: bit_or_iff bit_push_bit_iff bit_ucast_iff)
  next
    case False
    then obtain j where i: "i = j + 8" by (metis add.commute le_add_diff_inverse not_less)
    have "\<not> bit b (j + 8)" by (simp add: not_le bit_word.rep_eq impossible_bit)
    moreover have "(j + 8) div 8 = Suc (j div 8)" by simp
    ultimately show ?thesis
      using i by (auto simp: bit_or_iff bit_push_bit_iff bit_ucast_iff Cons.IH simp del: div_add_self2)
  qed
qed simp

lemma of_le_bytes_le_bytes:
  assumes "LENGTH('a) = 8 * n"
  shows "of_le_bytes (le_bytes n w) = (w :: 'a :: len word)"
proof (rule bit_word_eqI)
  fix i assume i: "i < LENGTH('a)"
  then have "i div 8 < n" using assms by simp
  with i show "bit (of_le_bytes (le_bytes n w) :: 'a word) i = bit w i"
    by (simp add: bit_of_le_bytes le_bytes_def bit_ucast_iff bit_drop_bit_eq)
qed

lemma le_bytes_of_le_bytes:
  assumes "8 * n \<le> LENGTH('a)" and "length bs = n"
  shows "le_bytes n (of_le_bytes bs :: 'a :: len word) = bs"
proof (rule nth_equalityI)
  fix i assume "i < length (le_bytes n (of_le_bytes bs :: 'a word))"
  then have i: "i < n" by simp
  show "le_bytes n (of_le_bytes bs :: 'a word) ! i = bs ! i"
  proof (rule bit_word_eqI)
    fix k assume "k < LENGTH(8)"
    with i assms show "bit (le_bytes n (of_le_bytes bs :: 'a word) ! i) k = bit (bs ! i) k"
      by (simp add: le_bytes_def bit_ucast_iff bit_drop_bit_eq bit_of_le_bytes)
  qed
qed (simp add: assms)

text \<open>The same conversions by arithmetic, for evaluation.\<close>

fun int_bytes :: "nat \<Rightarrow> int \<Rightarrow> u8 list" where
  "int_bytes 0 k = []"
| "int_bytes (Suc n) k = word_of_int k # int_bytes n (k div 256)"

lemma int_bytes_map: "int_bytes n k = map (\<lambda>i. word_of_int (k div 2 ^ (8 * i))) [0..<n]"
proof (induction n arbitrary: k)
  case (Suc n)
  have "k div 256 div 2 ^ (8 * i) = k div 2 ^ (8 * Suc i)" for i
    by (simp add: zdiv_zmult2_eq[symmetric] power_add)
  with Suc show ?case by (simp add: map_upt_Suc del: upt_Suc)
qed simp

lemma le_bytes_code [code]: "le_bytes n w = int_bytes n (uint w)"
proof -
  have "(ucast (drop_bit (8 * i) w) :: u8) = word_of_int (uint w div 2 ^ (8 * i))" for i
    by (rule bit_word_eqI)
      (auto simp: bit_ucast_iff bit_drop_bit_eq bit_word_of_int_iff bit_uint_iff bit_imp_le_length
        simp flip: drop_bit_eq_div)
  then show ?thesis by (simp add: le_bytes_def int_bytes_map)
qed

lemma of_le_bytes_step:
  "of_le_bytes [] = (0 :: 'a :: len word)"
  "of_le_bytes (b # bs) = 256 * of_le_bytes bs + (ucast b :: 'a :: len word)"
proof -
  let ?x = "of_le_bytes bs :: 'a word"
  have "256 * ?x = push_bit 8 ?x" by (simp add: push_bit_eq_mult)
  moreover have "push_bit 8 ?x + ucast b = push_bit 8 ?x OR ucast b"
    by (rule disjunctive_add_eq_or) (auto simp: bit_eq_iff bit_simps bit_ucast_iff not_le dest: bit_imp_le_length)
  ultimately show "of_le_bytes (b # bs) = 256 * ?x + ucast b" by simp
qed simp

primrec bytes_int :: "u8 list \<Rightarrow> int" where
  "bytes_int [] = 0"
| "bytes_int (b # bs) = uint b + 256 * bytes_int bs"

lemma of_le_bytes_code [code]: "of_le_bytes bs = (word_of_int (bytes_int bs) :: 'a :: len word)"
proof (induction bs)
  case (Cons b bs)
  have "(ucast b :: 'a word) = word_of_int (uint b)" by (simp add: unsigned_eq_0_iff)
  with Cons show ?case by (simp add: of_le_bytes_step del: of_le_bytes.simps)
qed simp

section \<open>Byte order\<close>

definition htons :: "u16 \<Rightarrow> u16" where
  "htons x = of_le_bytes (rev (le_bytes 2 x))"

definition htonl :: "u32 \<Rightarrow> u32" where
  "htonl x = of_le_bytes (rev (le_bytes 4 x))"

text \<open>\<open>((((uint64_t)htonl(x)) << 32) + htonl(x >> 32))\<close>; \<open>htonl\<close> takes the low 32 bits of its argument.\<close>

definition htonll :: "u64 \<Rightarrow> u64" where
  "htonll x = push_bit 32 (ucast (htonl (ucast x))) + ucast (htonl (ucast (drop_bit 32 x)))"

definition ntohs :: "u16 \<Rightarrow> u16" where
  "ntohs x = of_le_bytes (rev (le_bytes 2 x))"

definition ntohl :: "u32 \<Rightarrow> u32" where
  "ntohl x = of_le_bytes (rev (le_bytes 4 x))"

definition ntohll :: "u64 \<Rightarrow> u64" where
  "ntohll x = push_bit 32 (ucast (ntohl (ucast x))) + ucast (ntohl (ucast (drop_bit 32 x)))"

lemma bswap_involution:
  assumes "LENGTH('a) = 8 * n"
  shows "of_le_bytes (rev (le_bytes n (of_le_bytes (rev (le_bytes n w)) :: 'a word))) = (w :: 'a :: len word)"
  using assms by (simp add: le_bytes_of_le_bytes of_le_bytes_le_bytes)

lemma ntohs_htons [simp]: "ntohs (htons x) = x"
  by (simp add: ntohs_def htons_def bswap_involution)

lemma ntohl_htonl [simp]: "ntohl (htonl x) = x"
  by (simp add: ntohl_def htonl_def bswap_involution)

lemma htonl_htonl [simp]: "htonl (htonl x) = x"
  by (simp add: htonl_def bswap_involution)

lemma htons_htons [simp]: "htons (htons x) = x"
  by (simp add: htons_def bswap_involution)

text \<open>The macro's sum puts the swapped halves in each other's place: a full reversal.\<close>

lemma bit_bswap:
  "bit (of_le_bytes (rev (le_bytes n w)) :: 'a :: len word) i \<longleftrightarrow>
     i < LENGTH('a) \<and> i < 8 * n \<and> bit w (8 * (n - 1 - i div 8) + i mod 8)"
  by (auto simp: bit_of_le_bytes rev_nth le_bytes_def bit_ucast_iff bit_drop_bit_eq
      less_mult_imp_div_less mult.commute)

lemma htonll_bytes [code]: "htonll x = of_le_bytes (rev (le_bytes 8 x))"
proof -
  let ?hi = "ucast (htonl (ucast x)) :: u64" and ?lo = "ucast (htonl (ucast (drop_bit 32 x))) :: u64"
  have lo: "bit ?lo i \<longleftrightarrow> i < 32 \<and> bit x (32 + (8 * (3 - i div 8) + i mod 8))" for i
    by (auto simp: htonl_def bit_ucast_iff bit_bswap bit_drop_bit_eq)
  have hi: "bit (push_bit 32 ?hi) i \<longleftrightarrow>
      32 \<le> i \<and> i < 64 \<and> bit x (8 * (3 - (i - 32) div 8) + (i - 32) mod 8)" for i
    by (auto simp: htonl_def bit_push_bit_iff bit_ucast_iff bit_bswap)
  have disj: "push_bit 32 ?hi AND ?lo = 0"
    by (rule bit_word_eqI) (simp add: bit_and_iff lo hi)
  have "bit (push_bit 32 ?hi OR ?lo) i = bit (of_le_bytes (rev (le_bytes 8 x)) :: u64) i"
    if i: "i < LENGTH(64)" for i
  proof (cases "i < 32")
    case True
    then have "i div 8 < 4" by simp
    then have "32 + (8 * (3 - i div 8) + i mod 8) = 8 * (7 - i div 8) + i mod 8" by linarith
    then have "bit x (32 + (8 * (3 - i div 8) + i mod 8)) = bit x (8 * (7 - i div 8) + i mod 8)"
      by (rule arg_cong)
    with True show ?thesis by (simp add: bit_or_iff lo hi bit_bswap)
  next
    case False
    then obtain j where j: "i = j + 32" by (metis add.commute le_add_diff_inverse not_less)
    have "(j + 4 * 8) div 8 = 4 + j div 8" "(j + 4 * 8) mod 8 = j mod 8"
      by (simp_all only: div_mult_self1 mod_mult_self1)
    then have "8 * (3 - (i - 32) div 8) + (i - 32) mod 8 = 8 * (7 - i div 8) + i mod 8"
      using j by simp
    with False i show ?thesis by (simp add: bit_or_iff lo hi bit_bswap)
  qed
  then have "push_bit 32 ?hi OR ?lo = of_le_bytes (rev (le_bytes 8 x))"
    by (rule bit_word_eqI)
  with disj show ?thesis by (simp add: htonll_def disjunctive_add_eq_or)
qed

lemma ntohll_eq_htonll: "ntohll x = htonll x"
  by (simp add: ntohll_def htonll_def ntohl_def htonl_def)

lemma ntohll_htonll [simp]: "ntohll (htonll x) = x"
  by (simp add: ntohll_eq_htonll htonll_bytes bswap_involution)

section \<open>Constants of the protocol\<close>

definition PT_DATA :: u16 where "PT_DATA = 0xabcd"
definition PT_JOIN_PART :: u16 where "PT_JOIN_PART = 0xab01"
definition PT_QUIT :: u16 where "PT_QUIT = 0xab03"
definition PT_LINK_GRAPH :: u16 where "PT_LINK_GRAPH = 0xabac"
definition PT_PROBE_REQ :: u16 where "PT_PROBE_REQ = 0xab34"
definition PT_PROBE_RESP :: u16 where "PT_PROBE_RESP = 0xab35"

lemmas PT_defs = PT_DATA_def PT_JOIN_PART_def PT_QUIT_def PT_LINK_GRAPH_def PT_PROBE_REQ_def
  PT_PROBE_RESP_def

definition PL_HOST :: nat where "PL_HOST = 4 + 2 + 1 * 6"
definition PL_HEADER :: nat where "PL_HEADER = 2 * 2"
definition PL_JOIN :: nat where "PL_JOIN = PL_HOST"
definition PL_PROBE_REQ :: nat where "PL_PROBE_REQ = 2"
definition PL_PROBE_RESP :: nat where "PL_PROBE_RESP = 2"
definition PL_LINK_GRAPH_STATIC :: nat where "PL_LINK_GRAPH_STATIC = 2 + PL_HOST"
definition PL_EDGE :: nat where "PL_EDGE = 4 + 8 + PL_HOST * 2"

lemmas PL_defs = PL_HOST_def PL_HEADER_def PL_JOIN_def PL_PROBE_REQ_def PL_PROBE_RESP_def
  PL_LINK_GRAPH_STATIC_def PL_EDGE_def

section \<open>Hosts and edges\<close>

text \<open>Fields hold the value a load on the host machine yields, whatever their byte order means.\<close>

record sockaddr_in =
  sin_family :: u16
  sin_port :: u16
  sin_addr :: u32

record ipv4_host =
  ip_mac :: ether_addr
  ip_in :: sockaddr_in

record pkt_ipv4_host =
  p_ip :: u32
  p_port :: u16
  p_mac :: ether_addr

record pkt_edge =
  e_src :: pkt_ipv4_host
  e_dst :: pkt_ipv4_host
  e_rtt_us :: u32
  e_ts_ms :: u64

record pkt_header =
  hd_type :: u16
  hd_len :: u16

definition AF_INET :: u16 where
  "AF_INET = 2"

definition pkt_ipv4_unpack :: "pkt_ipv4_host \<Rightarrow> ipv4_host" where
  "pkt_ipv4_unpack pip =
     \<lparr>ip_mac = p_mac pip,
      ip_in = \<lparr>sin_family = AF_INET, sin_port = p_port pip, sin_addr = p_ip pip\<rparr>\<rparr>"

definition pkt_ipv4_pack :: "ipv4_host \<Rightarrow> pkt_ipv4_host" where
  "pkt_ipv4_pack h =
     \<lparr>p_ip = htonl (sin_addr (ip_in h)), p_port = htons (sin_port (ip_in h)), p_mac = ip_mac h\<rparr>"

text \<open>
  \<open>pkt_ipv4_pack\<close> converts the address and port, which are in network order already, and
  \<open>pkt_ipv4_unpack\<close> does not convert back: a host sent through both arrives reversed.
\<close>

lemma unpack_pack:
  "pkt_ipv4_unpack (pkt_ipv4_pack h) =
     \<lparr>ip_mac = ip_mac h,
      ip_in = \<lparr>sin_family = AF_INET, sin_port = htons (sin_port (ip_in h)),
               sin_addr = htonl (sin_addr (ip_in h))\<rparr>\<rparr>"
  by (simp add: pkt_ipv4_unpack_def pkt_ipv4_pack_def)

section \<open>Byte images of the packed structures\<close>

definition mac_of_bytes :: "u8 list \<Rightarrow> ether_addr" where
  "mac_of_bytes bs = Ether_Addr (bs ! 0) (bs ! 1) (bs ! 2) (bs ! 3) (bs ! 4) (bs ! 5)"

definition host_bytes :: "pkt_ipv4_host \<Rightarrow> u8 list" where
  "host_bytes p = le_bytes 4 (p_ip p) @ le_bytes 2 (p_port p) @ mac_bytes (p_mac p)"

definition host_of_bytes :: "u8 list \<Rightarrow> pkt_ipv4_host" where
  "host_of_bytes bs =
     \<lparr>p_ip = of_le_bytes (take 4 bs), p_port = of_le_bytes (take 2 (drop 4 bs)),
      p_mac = mac_of_bytes (drop 6 bs)\<rparr>"

definition edge_bytes :: "pkt_edge \<Rightarrow> u8 list" where
  "edge_bytes e = host_bytes (e_src e) @ host_bytes (e_dst e) @ le_bytes 4 (e_rtt_us e) @
     le_bytes 8 (e_ts_ms e)"

definition edge_of_bytes :: "u8 list \<Rightarrow> pkt_edge" where
  "edge_of_bytes bs =
     \<lparr>e_src = host_of_bytes (take 12 bs), e_dst = host_of_bytes (take 12 (drop 12 bs)),
      e_rtt_us = of_le_bytes (take 4 (drop 24 bs)), e_ts_ms = of_le_bytes (take 8 (drop 28 bs))\<rparr>"

definition header_bytes :: "pkt_header \<Rightarrow> u8 list" where
  "header_bytes h = le_bytes 2 (hd_type h) @ le_bytes 2 (hd_len h)"

definition header_of_bytes :: "u8 list \<Rightarrow> pkt_header" where
  "header_of_bytes bs =
     \<lparr>hd_type = of_le_bytes (take 2 bs), hd_len = of_le_bytes (take 2 (drop 2 bs))\<rparr>"

text \<open>The array \<open>edges[]\<close> at the end of a link graph packet.\<close>

fun edges_of_bytes :: "nat \<Rightarrow> u8 list \<Rightarrow> pkt_edge list" where
  "edges_of_bytes 0 bs = []"
| "edges_of_bytes (Suc n) bs = edge_of_bytes (take PL_EDGE bs) # edges_of_bytes n (drop PL_EDGE bs)"

lemma mac_of_bytes_mac_bytes [simp]: "mac_of_bytes (mac_bytes m) = m"
  by (cases m) (simp add: mac_of_bytes_def)

lemma length_host_bytes [simp]: "length (host_bytes p) = PL_HOST"
  by (simp add: host_bytes_def PL_HOST_def ETH_ALEN_def)

lemma length_edge_bytes [simp]: "length (edge_bytes e) = PL_EDGE"
  by (simp add: edge_bytes_def PL_EDGE_def PL_HOST_def)

lemma length_header_bytes [simp]: "length (header_bytes h) = PL_HEADER"
  by (simp add: header_bytes_def PL_HEADER_def)

lemma host_of_bytes_host_bytes [simp]: "host_of_bytes (host_bytes p) = p"
  by (simp add: host_of_bytes_def host_bytes_def of_le_bytes_le_bytes)

lemma edge_of_bytes_edge_bytes [simp]: "edge_of_bytes (edge_bytes e) = e"
proof -
  have "length (host_bytes p) = 12" for p by (simp add: PL_HOST_def)
  then show ?thesis
    by (simp add: edge_of_bytes_def edge_bytes_def of_le_bytes_le_bytes del: length_host_bytes)
qed

lemma header_of_bytes_header_bytes [simp]: "header_of_bytes (header_bytes h) = h"
  by (simp add: header_of_bytes_def header_bytes_def of_le_bytes_le_bytes)

lemma edges_of_bytes_concat:
  "edges_of_bytes (length es) (concat (map edge_bytes es) @ rest) = es"
  by (induction es) simp_all

section \<open>Time values\<close>

record timeval =
  tv_sec :: int
  tv_usec :: int

definition tv_ms :: "timeval \<Rightarrow> int" where
  "tv_ms tv = tv_sec tv * 1000 + tv_usec tv div 1000"

definition tv_us :: "timeval \<Rightarrow> int" where
  "tv_us tv = tv_sec tv * 1000000 + tv_usec tv"

text \<open>The C library's \<open>timersub\<close> and \<open>timercmp (a, b, >)\<close>.\<close>

definition timersub :: "timeval \<Rightarrow> timeval \<Rightarrow> timeval" where
  "timersub a b =
     (let sec = tv_sec a - tv_sec b; usec = tv_usec a - tv_usec b
      in if usec < 0 then \<lparr>tv_sec = sec - 1, tv_usec = usec + 1000000\<rparr>
         else \<lparr>tv_sec = sec, tv_usec = usec\<rparr>)"

definition timer_gt :: "timeval \<Rightarrow> timeval \<Rightarrow> bool" where
  "timer_gt a b =
     (if tv_sec a = tv_sec b then tv_usec a > tv_usec b else tv_sec a > tv_sec b)"

definition tv_wf :: "timeval \<Rightarrow> bool" where
  "tv_wf tv \<longleftrightarrow> 0 \<le> tv_usec tv \<and> tv_usec tv < 1000000"

lemma timersub_us: "tv_us (timersub a b) = tv_us a - tv_us b"
  by (simp add: timersub_def tv_us_def Let_def)

lemma timersub_wf: "tv_wf a \<Longrightarrow> tv_wf b \<Longrightarrow> tv_wf (timersub a b)"
  by (auto simp: timersub_def tv_wf_def Let_def)

lemma timer_gt_us: "tv_wf a \<Longrightarrow> tv_wf b \<Longrightarrow> timer_gt a b \<longleftrightarrow> tv_us a > tv_us b"
  by (auto simp: timer_gt_def tv_us_def tv_wf_def)

end
