(* ===== verification/Routing_State.thy ===== *)
theory Routing_State
  imports Search Packet
begin

text \<open>
  The routing data of src/routing.h and the operations of src/routing.c on single hosts and
  links: comparison and lookup, allocation, insertion, links, removal.  Pointers are modelled:
  hosts live in a heap, links and the host table refer to them by address, and each host
  refers to the \<open>struct ipv4_host\<close> that holds its Ethernet address, which is embedded in a
  peer, lives in \<open>main\<close>'s frame, or is a block of its own.
\<close>

section \<open>Data\<close>

datatype host_type = HT_LOCAL | HT_DIRECT | HT_NORMAL

text \<open>
  Where a \<open>struct ipv4_host\<close> lives: in a local variable of the running function, in
  \<open>main\<close>'s frame, inside the \<open>n\<close>-th \<open>struct direct_peer\<close> (its \<open>remote_host\<close>), or in a
  block of its own.  Only the last kind may be passed to \<open>free\<close>; only \<open>IP_Dp\<close> may be
  passed to \<open>dp_from_ip_host\<close>.
\<close>

datatype ip_ptr = IP_Frame | IP_Main | IP_Dp nat | IP_Heap nat

type_synonym hptr = nat

record rt_link =
  l_dst :: hptr
  l_rtt_us :: u32
  l_ts_ms :: u64

record rt_host =
  h_host :: ip_ptr
  h_type :: host_type
  h_l_max_ts_ms :: u64
  h_links :: "rt_link da"

text \<open>
  \<open>path\<close> and \<open>next\<close> of \<open>routing_t\<close>: not yet allocated, two matrices, or pointers into memory
  that has been freed or reallocated (after a failed \<open>compute_paths\<close>).
\<close>

datatype matrices = M_NULL | M_Valid "u32 list list" "nat list list" | M_Dangling

datatype rwlock = RW_Free | RW_Read nat | RW_Write

text \<open>\<open>routing_t\<close>, followed by the memory its code works in.\<close>

record routing =
  hosts :: "hptr da"
  local_host :: "hptr option"
  m_ct :: nat
  mats :: matrices
  edges :: "pkt_edge da"
  lock :: rwlock
  hheap :: "hptr \<Rightarrow> rt_host option"
  ipheap :: "ip_ptr \<Rightarrow> ipv4_host option"
  brk :: nat
  allocs :: allocs

definition RT_HOST_INIT :: nat where "RT_HOST_INIT = 8"
definition RT_LINK_INIT :: nat where "RT_LINK_INIT = 8"
definition NEXT_DISCON :: nat where "NEXT_DISCON = SIZE_MAX"
definition PATH_DISCON :: u32 where "PATH_DISCON = 0"
definition PATH_MAX :: u32 where "PATH_MAX = - 1"
definition PATH_MIN :: u32 where "PATH_MIN = 1"

section \<open>Reading through pointers\<close>

text \<open>\<open>p->host->mac\<close>\<close>

definition host_mac :: "routing \<Rightarrow> hptr \<Rightarrow> ether_addr option" where
  "host_mac s p = do { h \<leftarrow> hheap s p; ip \<leftarrow> ipheap s (h_host h); Some (ip_mac ip) }"

text \<open>\<open>l->dst->host->mac\<close>\<close>

definition link_mac :: "routing \<Rightarrow> rt_link \<Rightarrow> ether_addr option" where
  "link_mac s l = host_mac s (l_dst l)"

text \<open>\<open>*index_to_host (rd, i)\<close>: the content of a slot of the host table, in use or not.\<close>

definition index_to_host :: "routing \<Rightarrow> nat \<Rightarrow> hptr option" where
  "index_to_host s i =
     (if i < length (da_items (hosts s)) then Some (da_items (hosts s) ! i) else None)"

definition ipv4_cmp_mac :: "ipv4_host \<Rightarrow> ipv4_host \<Rightarrow> int" where
  "ipv4_cmp_mac h1 h2 = mac_cmp (ip_mac h1) (ip_mac h2)"

definition host_cmp_addr :: "routing \<Rightarrow> hptr \<Rightarrow> hptr \<Rightarrow> int option" where
  "host_cmp_addr s p q = do { a1 \<leftarrow> host_mac s p; a2 \<leftarrow> host_mac s q; Some (mac_cmp a1 a2) }"

definition link_cmp_addr :: "routing \<Rightarrow> rt_link \<Rightarrow> rt_link \<Rightarrow> int option" where
  "link_cmp_addr s k l = do { a1 \<leftarrow> link_mac s k; a2 \<leftarrow> link_mac s l; Some (mac_cmp a1 a2) }"

text \<open>
  The key of these searches is a temporary host with the wanted address, so comparing it with
  an element compares the address with the element's.
\<close>

definition find_host_by_addr :: "routing \<Rightarrow> ether_addr \<Rightarrow> nat option option" where
  "find_host_by_addr s mac =
     bsearch (\<lambda>p. do { a2 \<leftarrow> host_mac s p; Some (mac_cmp mac a2) })
       (da_list (hosts s)) (da_ct (hosts s))"

definition find_host_via_host :: "routing \<Rightarrow> hptr \<Rightarrow> nat option option" where
  "find_host_via_host s key =
     bsearch (host_cmp_addr s key) (da_list (hosts s)) (da_ct (hosts s))"

definition find_link_by_addr :: "routing \<Rightarrow> rt_link da \<Rightarrow> ether_addr \<Rightarrow> nat option option" where
  "find_link_by_addr s da dst_mac =
     bsearch (\<lambda>l. do { a2 \<leftarrow> link_mac s l; Some (mac_cmp dst_mac a2) }) (da_list da) (da_ct da)"

section \<open>Changing single hosts\<close>

definition set_host :: "hptr \<Rightarrow> rt_host \<Rightarrow> routing \<Rightarrow> routing" where
  "set_host p h s = s\<lparr>hheap := (hheap s)(p \<mapsto> h)\<rparr>"

definition link_remove :: "routing \<Rightarrow> hptr \<Rightarrow> nat \<Rightarrow> routing option" where
  "link_remove s src i = do {
     h \<leftarrow> hheap s src;
     Some (set_host src (h\<lparr>h_links := DA_REMOVE (h_links h) i\<rparr>) s)
   }"

text \<open>\<open>free (h->host)\<close> is defined only for a block of its own.\<close>

definition free_host :: "routing \<Rightarrow> hptr \<Rightarrow> routing option" where
  "free_host s p = do {
     h \<leftarrow> hheap s p;
     case h_host h of
       IP_Heap a \<Rightarrow> do {
         _ \<leftarrow> ipheap s (IP_Heap a);
         Some (s\<lparr>ipheap := (ipheap s)(IP_Heap a := None), hheap := (hheap s)(p := None)\<rparr>)
       }
     | _ \<Rightarrow> None
   }"

definition host_remove :: "routing \<Rightarrow> nat \<Rightarrow> routing" where
  "host_remove s i = s\<lparr>hosts := DA_REMOVE (hosts s) i\<rparr>"

definition host_alloc :: "routing \<Rightarrow> ip_ptr \<Rightarrow> host_type \<Rightarrow> (int \<times> hptr option \<times> routing) option" where
  "host_alloc s ip_host type =
     (let (ok, al1) = alloc (allocs s)
      in if \<not> ok then Some (- 1, None, s\<lparr>allocs := al1\<rparr>)
      else let (fail, links, al2) = DA_INIT RT_LINK_INIT al1
      in if fail then Some (- 1, None, s\<lparr>allocs := al2\<rparr>)
      else let p = brk s;
               h = \<lparr>h_host = ip_host, h_type = type, h_l_max_ts_ms = 0, h_links = links\<rparr>
      in if type = HT_DIRECT \<or> type = HT_LOCAL
         then Some (0, Some p, set_host p h (s\<lparr>brk := brk s + 1, allocs := al2\<rparr>))
         else let (ok, al3) = alloc al2
         in if \<not> ok then Some (- 4, None, s\<lparr>allocs := al3\<rparr>)
         else do {
           v \<leftarrow> ipheap s ip_host;
           Some (0, Some p, set_host p (h\<lparr>h_host := IP_Heap p\<rparr>)
             (s\<lparr>brk := brk s + 1, allocs := al3, ipheap := (ipheap s)(IP_Heap p \<mapsto> v)\<rparr>))
         })"

definition link_add :: "routing \<Rightarrow> hptr \<Rightarrow> hptr \<Rightarrow> u32 \<Rightarrow> u64 \<Rightarrow> (int \<times> routing) option" where
  "link_add s src dst rtt_us ts_ms = do {
     h \<leftarrow> hheap s src;
     _ \<leftarrow> host_mac s src;
     _ \<leftarrow> host_mac s dst;
     let l = \<lparr>l_dst = dst, l_rtt_us = rtt_us, l_ts_ms = ts_ms\<rparr>;
     let (fail, links, al) = DA_ADD_TO_END (h_links h) l (allocs s);
     if fail then Some (- 1, s\<lparr>allocs := al\<rparr>)
     else do {
       let max_ts = (if ts_ms > h_l_max_ts_ms h then ts_ms else h_l_max_ts_ms h);
       links' \<leftarrow> da_qsort (link_cmp_addr s) links;
       Some (0, set_host src (h\<lparr>h_links := links', h_l_max_ts_ms := max_ts\<rparr>) (s\<lparr>allocs := al\<rparr>))
     }
   }"

definition host_insert_unchecked :: "routing \<Rightarrow> hptr \<Rightarrow> (int \<times> routing) option" where
  "host_insert_unchecked s new_host =
     (let (fail, d, al) = DA_ADD_TO_END (hosts s) new_host (allocs s)
      in if fail then Some (- 1, s\<lparr>allocs := al\<rparr>)
      else do {
        d' \<leftarrow> da_qsort (host_cmp_addr s) d;
        Some (0, s\<lparr>hosts := d', allocs := al\<rparr>)
      })"

text \<open>\<open>host_add\<close> returns the new host through its last argument; here as a second component.\<close>

definition host_add :: "routing \<Rightarrow> ip_ptr \<Rightarrow> host_type \<Rightarrow> (int \<times> hptr option \<times> routing) option" where
  "host_add s ip_host type = do {
     ip \<leftarrow> ipheap s ip_host;
     dup \<leftarrow> find_host_by_addr s (ip_mac ip);
     if dup \<noteq> None then Some (1, None, s)
     else do {
       (ret, nh, s1) \<leftarrow> host_alloc s ip_host type;
       case nh of
         None \<Rightarrow> Some (- 3, None, s1)
       | Some p \<Rightarrow> do {
           (ret, s2) \<leftarrow> host_insert_unchecked s1 p;
           if ret < 0 then Some (ret, None, s2\<lparr>hheap := (hheap s2)(p := None)\<rparr>)
           else Some (0, Some p, s2)
         }
     }
   }"

definition host_insert :: "routing \<Rightarrow> hptr \<Rightarrow> (int \<times> routing) option" where
  "host_insert s new_host = do {
     dup \<leftarrow> find_host_via_host s new_host;
     if dup \<noteq> None then Some (1, s) else host_insert_unchecked s new_host
   }"

definition ihost_to_dhost :: "routing \<Rightarrow> hptr \<Rightarrow> ip_ptr \<Rightarrow> routing option" where
  "ihost_to_dhost s host ip_host = do {
     h \<leftarrow> hheap s host;
     if h_type h = HT_NORMAL
     then case h_host h of
         IP_Heap a \<Rightarrow> do {
           _ \<leftarrow> ipheap s (IP_Heap a);
           Some (set_host host (h\<lparr>h_host := ip_host, h_type := HT_DIRECT\<rparr>)
             (s\<lparr>ipheap := (ipheap s)(IP_Heap a := None)\<rparr>))
         }
       | _ \<Rightarrow> None
     else Some s
   }"

end
