(* ===== verification/Routing_Inv.thy ===== *)
theory Routing_Inv
  imports Routing_State
begin

text \<open>
  The well-formedness invariant \<open>rt_wf\<close> of the routing data, the interfaces through which
  hosts and links are sorted and found, and the preservation of the invariant by the
  operations on single hosts and links.
\<close>

section \<open>The invariant\<close>

text \<open>What kind of memory a host of each type keeps its address in.\<close>

fun ptr_fits :: "host_type \<Rightarrow> ip_ptr \<Rightarrow> bool" where
  "ptr_fits HT_LOCAL p = (p = IP_Main)"
| "ptr_fits HT_DIRECT p = (case p of IP_Dp _ \<Rightarrow> True | _ \<Rightarrow> False)"
| "ptr_fits HT_NORMAL p = (case p of IP_Heap _ \<Rightarrow> True | _ \<Rightarrow> False)"

abbreviation host_list :: "routing \<Rightarrow> hptr list" where
  "host_list s \<equiv> da_list (hosts s)"

abbreviation links_of :: "rt_host \<Rightarrow> rt_link list" where
  "links_of h \<equiv> da_list (h_links h)"

text \<open>A host's links are sorted, lead to hosts of the table and not back to itself.\<close>

definition links_wf :: "routing \<Rightarrow> hptr \<Rightarrow> rt_link da \<Rightarrow> bool" where
  "links_wf s p ls \<longleftrightarrow>
     da_wf ls \<and> ascending (link_mac s) (da_list ls) \<and>
     (\<forall>l\<in>set (da_list ls). l_dst l \<in> set (host_list s) \<and> l_dst l \<noteq> p)"

text \<open>The local host's links lead to direct peers, one link each.\<close>

definition direct_links :: "routing \<Rightarrow> rt_link da \<Rightarrow> bool" where
  "direct_links s ls \<longleftrightarrow>
     distinct (map l_dst (da_list ls)) \<and>
     (\<forall>l\<in>set (da_list ls). \<exists>g. hheap s (l_dst l) = Some g \<and> h_type g = HT_DIRECT)"

definition host_wf :: "routing \<Rightarrow> hptr \<Rightarrow> rt_host \<Rightarrow> bool" where
  "host_wf s p h \<longleftrightarrow>
     ptr_fits (h_type h) (h_host h) \<and> links_wf s p (h_links h) \<and>
     (h_type h = HT_LOCAL \<longrightarrow> local_host s = Some p \<and> direct_links s (h_links h))"

text \<open>Everything allocated lies below the next free address.\<close>

definition heap_wf :: "routing \<Rightarrow> bool" where
  "heap_wf s \<longleftrightarrow> (\<forall>p\<ge>brk s. hheap s p = None \<and> ipheap s (IP_Heap p) = None)"

definition rt_wf :: "routing \<Rightarrow> bool" where
  "rt_wf s \<longleftrightarrow>
     heap_wf s \<and> da_wf (hosts s) \<and> ascending (host_mac s) (host_list s) \<and>
     distinct (map (host_mac s) (host_list s)) \<and>
     (\<forall>p\<in>set (host_list s). \<exists>h. hheap s p = Some h \<and> host_wf s p h) \<and>
     (\<exists>p h. local_host s = Some p \<and> p \<in> set (host_list s) \<and> hheap s p = Some h \<and>
        h_type h = HT_LOCAL)"

text \<open>Every host that uses the address inside a peer is linked from the local host.\<close>

definition anchored :: "routing \<Rightarrow> bool" where
  "anchored s \<longleftrightarrow>
     (\<forall>p h d lp f. hheap s p = Some h \<longrightarrow> h_host h = IP_Dp d \<longrightarrow> local_host s = Some lp \<longrightarrow>
        hheap s lp = Some f \<longrightarrow> p \<in> l_dst ` set (links_of f))"

section \<open>Frame rules\<close>

lemma anchored_frame [simp]:
  "anchored (s\<lparr>hosts := a\<rparr>) = anchored s" "anchored (s\<lparr>allocs := b\<rparr>) = anchored s"
  "anchored (s\<lparr>m_ct := c\<rparr>) = anchored s" "anchored (s\<lparr>mats := d\<rparr>) = anchored s"
  "anchored (s\<lparr>edges := e\<rparr>) = anchored s" "anchored (s\<lparr>lock := f\<rparr>) = anchored s"
  "anchored (s\<lparr>brk := g\<rparr>) = anchored s" "anchored (s\<lparr>ipheap := h\<rparr>) = anchored s"
  by (simp_all add: anchored_def)

lemma host_mac_frame [simp]:
  "host_mac (s\<lparr>hosts := a\<rparr>) = host_mac s" "host_mac (s\<lparr>local_host := b\<rparr>) = host_mac s"
  "host_mac (s\<lparr>m_ct := c\<rparr>) = host_mac s" "host_mac (s\<lparr>mats := d\<rparr>) = host_mac s"
  "host_mac (s\<lparr>edges := e\<rparr>) = host_mac s" "host_mac (s\<lparr>lock := f\<rparr>) = host_mac s"
  "host_mac (s\<lparr>brk := g\<rparr>) = host_mac s" "host_mac (s\<lparr>allocs := al\<rparr>) = host_mac s"
  by (simp_all add: host_mac_def fun_eq_iff)

lemma link_mac_frame [simp]:
  "link_mac (s\<lparr>hosts := a\<rparr>) = link_mac s" "link_mac (s\<lparr>local_host := b\<rparr>) = link_mac s"
  "link_mac (s\<lparr>m_ct := c\<rparr>) = link_mac s" "link_mac (s\<lparr>mats := d\<rparr>) = link_mac s"
  "link_mac (s\<lparr>edges := e\<rparr>) = link_mac s" "link_mac (s\<lparr>lock := f\<rparr>) = link_mac s"
  "link_mac (s\<lparr>brk := g\<rparr>) = link_mac s" "link_mac (s\<lparr>allocs := al\<rparr>) = link_mac s"
  by (simp_all add: link_mac_def fun_eq_iff)

text \<open>The invariant does not mention the cached data, the lock and the allocator.\<close>

lemmas rt_wf_defs = rt_wf_def heap_wf_def host_wf_def links_wf_def direct_links_def

lemma rt_wf_frame [simp]:
  "rt_wf (s\<lparr>m_ct := c\<rparr>) = rt_wf s" "rt_wf (s\<lparr>mats := d\<rparr>) = rt_wf s"
  "rt_wf (s\<lparr>edges := e\<rparr>) = rt_wf s" "rt_wf (s\<lparr>lock := f\<rparr>) = rt_wf s"
  "rt_wf (s\<lparr>allocs := al\<rparr>) = rt_wf s"
  by (simp_all add: rt_wf_defs)

lemma set_host_sel [simp]:
  "hosts (set_host p h s) = hosts s" "local_host (set_host p h s) = local_host s"
  "m_ct (set_host p h s) = m_ct s" "mats (set_host p h s) = mats s"
  "edges (set_host p h s) = edges s" "lock (set_host p h s) = lock s"
  "hheap (set_host p h s) = (hheap s)(p \<mapsto> h)" "ipheap (set_host p h s) = ipheap s"
  "brk (set_host p h s) = brk s" "allocs (set_host p h s) = allocs s"
  by (simp_all add: set_host_def)

lemma set_host_allocs: "set_host p h (s\<lparr>allocs := al\<rparr>) = (set_host p h s)\<lparr>allocs := al\<rparr>"
  by (simp add: set_host_def)

lemma host_mac_set_host:
  "hheap s p = Some h \<Longrightarrow> h_host h' = h_host h \<Longrightarrow> host_mac (set_host p h' s) = host_mac s"
  by (auto simp: host_mac_def fun_eq_iff)

lemma link_mac_set_host:
  "hheap s p = Some h \<Longrightarrow> h_host h' = h_host h \<Longrightarrow> link_mac (set_host p h' s) = link_mac s"
  by (auto simp: link_mac_def fun_eq_iff host_mac_set_host)

lemma host_mac_fresh:
  assumes "\<forall>q\<in>set qs. q \<noteq> p"
  shows "map (host_mac (set_host p h s)) qs = map (host_mac s) qs"
  using assms by (auto simp: host_mac_def)

section \<open>Destructing the invariant\<close>

lemma rt_wf_heap: "rt_wf s \<Longrightarrow> heap_wf s"
  and rt_wf_da: "rt_wf s \<Longrightarrow> da_wf (hosts s)"
  and rt_wf_ascending: "rt_wf s \<Longrightarrow> ascending (host_mac s) (host_list s)"
  and rt_wf_distinct: "rt_wf s \<Longrightarrow> distinct (map (host_mac s) (host_list s))"
  by (simp_all add: rt_wf_def)

lemma rt_wf_hostE:
  assumes "rt_wf s" and "p \<in> set (host_list s)"
  obtains h m where "hheap s p = Some h" and "host_wf s p h" and "host_mac s p = Some m"
  using assms by (fastforce simp: rt_wf_def ascending_def keyed_def)

lemma rt_wf_host:
  assumes "rt_wf s" and "p \<in> set (host_list s)" and "hheap s p = Some h"
  shows "host_wf s p h"
  using assms by (auto elim: rt_wf_hostE)

lemma rt_wf_localE:
  assumes "rt_wf s"
  obtains p h where "local_host s = Some p" and "p \<in> set (host_list s)" and "hheap s p = Some h"
    and "h_type h = HT_LOCAL" and "h_host h = IP_Main"
proof -
  from assms obtain p h where p: "local_host s = Some p" "p \<in> set (host_list s)"
    "hheap s p = Some h" "h_type h = HT_LOCAL" by (auto simp: rt_wf_def)
  with rt_wf_host[OF assms p(2,3)] show thesis
    by (auto simp: host_wf_def intro: that)
qed

lemma rt_wf_mac_inj:
  assumes "rt_wf s" and "p \<in> set (host_list s)" and "q \<in> set (host_list s)"
    and "host_mac s p = host_mac s q"
  shows "p = q"
  using rt_wf_distinct[OF assms(1)] assms(2-4) by (auto simp: distinct_map inj_on_def)

lemma rt_wf_distinct_hosts: "rt_wf s \<Longrightarrow> distinct (host_list s)"
  using rt_wf_distinct by (auto simp: distinct_map)

lemma rt_wf_index_inj:
  assumes "rt_wf s" and "i < length (host_list s)" and "j < length (host_list s)"
    and "host_list s ! i = host_list s ! j"
  shows "i = j"
  using rt_wf_distinct_hosts[OF assms(1)] assms(2-4) nth_eq_iff_index_eq by metis

text \<open>Two hosts of the table never share the memory of their address.\<close>

lemma rt_wf_ip_inj:
  assumes "rt_wf s" and "p \<in> set (host_list s)" and "q \<in> set (host_list s)"
    and "hheap s p = Some g" and "hheap s q = Some h" and "h_host g = h_host h"
  shows "p = q"
  using assms rt_wf_mac_inj[OF assms(1-3)] by (simp add: host_mac_def)

lemma rt_wf_links:
  assumes "rt_wf s" and "p \<in> set (host_list s)" and "hheap s p = Some h"
  shows "links_wf s p (h_links h)"
  using rt_wf_host[OF assms] by (simp add: host_wf_def)

section \<open>Sorting and finding hosts and links\<close>

interpretation host_order: key_order "host_cmp_addr s" "host_mac s" mac_cmp for s
  by unfold_locales (simp_all add: host_cmp_addr_def mac_cmp_less mac_cmp_eq)

interpretation link_order: key_order "link_cmp_addr s" "link_mac s" mac_cmp for s
  by unfold_locales (simp_all add: link_cmp_addr_def mac_cmp_less mac_cmp_eq)

lemma find_host_by_addr_cases:
  assumes "da_wf (hosts s)" and "ascending (host_mac s) (host_list s)"
  obtains (found) i where "find_host_by_addr s mac = Some (Some i)" "i < length (host_list s)"
      "host_mac s (host_list s ! i) = Some mac"
  | (missing) "find_host_by_addr s mac = Some None"
      "\<forall>p\<in>set (host_list s). host_mac s p \<noteq> Some mac"
proof -
  have probe: "\<forall>p a2. host_mac s p = Some a2 \<longrightarrow>
      do { a2 \<leftarrow> host_mac s p; Some (mac_cmp mac a2) } = Some (mac_cmp mac a2)"
    by simp
  have len: "da_ct (hosts s) = length (host_list s)"
    using assms(1) by (simp add: length_da_list)
  show thesis
    by (rule host_order.bsearch_correct[OF assms(2) probe, folded len])
      (use found missing in \<open>auto simp: find_host_by_addr_def len\<close>)
qed

lemma find_link_by_addr_cases:
  assumes "da_wf ls" and "ascending (link_mac s) (da_list ls)"
  obtains (found) i where "find_link_by_addr s ls mac = Some (Some i)" "i < length (da_list ls)"
      "link_mac s (da_list ls ! i) = Some mac"
  | (missing) "find_link_by_addr s ls mac = Some None"
      "\<forall>l\<in>set (da_list ls). link_mac s l \<noteq> Some mac"
proof -
  have probe: "\<forall>l a2. link_mac s l = Some a2 \<longrightarrow>
      do { a2 \<leftarrow> link_mac s l; Some (mac_cmp mac a2) } = Some (mac_cmp mac a2)"
    by simp
  have len: "da_ct ls = length (da_list ls)"
    using assms(1) by (simp add: length_da_list)
  show thesis
    by (rule link_order.bsearch_correct[OF assms(2) probe, folded len])
      (use found missing in \<open>auto simp: find_link_by_addr_def len\<close>)
qed

text \<open>In the invariant the search for a host's own address finds that host.\<close>

lemma find_host_by_addr_own:
  assumes "rt_wf s" and "i < length (host_list s)" and "host_mac s (host_list s ! i) = Some m"
  shows "find_host_by_addr s m = Some (Some i)"
proof (cases rule: find_host_by_addr_cases[OF rt_wf_da[OF assms(1)] rt_wf_ascending[OF assms(1)], of m])
  case (1 j)
  then have "host_list s ! j = host_list s ! i"
    using assms rt_wf_mac_inj[OF assms(1)] by simp
  with 1 assms(2) have "j = i"
    using rt_wf_index_inj[OF assms(1)] by blast
  with 1 show ?thesis by simp
next
  case 2
  with assms show ?thesis by (metis nth_mem)
qed

section \<open>Operations on one host keep the invariant\<close>

text \<open>Replacing the links of a host.\<close>

lemma rt_wf_set_links:
  assumes wf: "rt_wf s" and p: "p \<in> set (host_list s)" "hheap s p = Some h"
    and ls: "links_wf s p ls" and loc: "h_type h = HT_LOCAL \<Longrightarrow> direct_links s ls"
  shows "rt_wf (set_host p (h\<lparr>h_links := ls, h_l_max_ts_ms := m\<rparr>) s)"
proof -
  let ?h = "h\<lparr>h_links := ls, h_l_max_ts_ms := m\<rparr>" and ?s = "set_host p (h\<lparr>h_links := ls, h_l_max_ts_ms := m\<rparr>) s"
  have mac: "host_mac ?s = host_mac s" "link_mac ?s = link_mac s"
    using p(2) by (auto intro: host_mac_set_host link_mac_set_host)
  have dl: "direct_links ?s xs \<longleftrightarrow> direct_links s xs" for xs
    using p(2) by (auto simp: direct_links_def)
  have lw: "links_wf ?s q xs \<longleftrightarrow> links_wf s q xs" for q xs
    by (simp add: links_wf_def mac)
  have hw: "\<exists>g. hheap ?s q = Some g \<and> host_wf ?s q g" if q: "q \<in> set (host_list s)" for q
  proof (cases "q = p")
    case True
    with rt_wf_host[OF wf p] ls loc show ?thesis by (simp add: host_wf_def lw dl)
  next
    case False
    with q wf show ?thesis by (auto simp: host_wf_def lw dl elim!: rt_wf_hostE)
  qed
  from wf obtain q g where "local_host s = Some q" "q \<in> set (host_list s)" "hheap s q = Some g"
    "h_type g = HT_LOCAL" by (rule rt_wf_localE)
  then have "\<exists>q g. local_host ?s = Some q \<and> q \<in> set (host_list ?s) \<and> hheap ?s q = Some g \<and>
      h_type g = HT_LOCAL"
    using p(2) by (cases "q = p") auto
  moreover have "heap_wf ?s"
    using rt_wf_heap[OF wf] p(2) by (auto simp: heap_wf_def)
  ultimately show ?thesis
    using wf hw mac by (simp add: rt_wf_def)
qed

lemma rt_wf_set_links_only:
  assumes "rt_wf s" and "p \<in> set (host_list s)" and "hheap s p = Some h"
    and "links_wf s p ls" and "h_type h = HT_LOCAL \<Longrightarrow> direct_links s ls"
  shows "rt_wf (set_host p (h\<lparr>h_links := ls\<rparr>) s)"
  using rt_wf_set_links[OF assms, of "h_l_max_ts_ms h"] by simp

text \<open>A part of a list of links is as good as the whole.\<close>

lemma links_wf_sublist:
  assumes "links_wf s p ls" and "da_wf ls'" and "set (da_list ls') \<subseteq> set (da_list ls)"
    and "sorted (map (the \<circ> link_mac s) (da_list ls'))"
  shows "links_wf s p ls'"
  using assms by (auto simp: links_wf_def ascending_def keyed_def)

lemma link_remove_wf:
  assumes wf: "rt_wf s" and p: "p \<in> set (host_list s)" "hheap s p = Some h"
    and i: "i < length (links_of h)"
  shows "\<exists>s'. link_remove s p i = Some s' \<and> rt_wf s'"
proof -
  let ?ls = "DA_REMOVE (h_links h) i"
  from rt_wf_host[OF wf p] have hw: "links_wf s p (h_links h)"
    "h_type h = HT_LOCAL \<Longrightarrow> direct_links s (h_links h)" by (auto simp: host_wf_def)
  then have "da_wf (h_links h)" by (simp add: links_wf_def)
  from da.remove_elems[OF this i] have rm: "da_wf ?ls"
    "da_list ?ls = remove_nth i (links_of h)" by auto
  have sub: "set (da_list ?ls) \<subseteq> set (links_of h)"
    by (simp add: rm set_remove_nth)
  have "links_wf s p ?ls"
    using hw(1) rm(1) sub
    by (rule links_wf_sublist)
      (use hw(1) in \<open>simp add: links_wf_def ascending_def rm(2) remove_nth_sorted map_remove_nth\<close>)
  moreover have "direct_links s ?ls" if "h_type h = HT_LOCAL"
    using hw(2)[OF that] sub by (auto simp: direct_links_def rm(2) map_remove_nth remove_nth_distinct)
  ultimately show ?thesis
    using wf p by (auto simp: link_remove_def intro: rt_wf_set_links_only)
qed

text \<open>
  Changes that keep the table, the addresses and the links, and change the type of a host only
  as the local host's links allow.
\<close>

lemma rt_wf_retype:
  assumes wf: "rt_wf s" and same: "hosts s' = hosts s" "local_host s' = local_host s"
    and hp: "heap_wf s'"
    and mac: "\<And>q. q \<in> set (host_list s) \<Longrightarrow> host_mac s' q = host_mac s q"
    and upd: "\<And>q h. q \<in> set (host_list s) \<Longrightarrow> hheap s q = Some h \<Longrightarrow>
      \<exists>h'. hheap s' q = Some h' \<and> ptr_fits (h_type h') (h_host h') \<and> h_links h' = h_links h \<and>
        (h_type h' = HT_LOCAL \<longleftrightarrow> h_type h = HT_LOCAL)"
    and loc: "\<And>q h. q \<in> set (host_list s) \<Longrightarrow> hheap s q = Some h \<Longrightarrow> h_type h = HT_LOCAL \<Longrightarrow>
      direct_links s' (h_links h)"
  shows "rt_wf s'"
proof -
  have asc: "ascending (host_mac s') (host_list s)"
    using rt_wf_ascending[OF wf] ascending_cong[of "host_list s" "host_mac s'" "host_mac s"] mac
    by blast
  have lw: "links_wf s' q ls" if "links_wf s q ls" for q ls
  proof -
    have "\<forall>l\<in>set (da_list ls). link_mac s' l = link_mac s l"
      using that mac by (auto simp: links_wf_def link_mac_def)
    with that show ?thesis
      using ascending_cong[of "da_list ls" "link_mac s'" "link_mac s"]
      by (auto simp: links_wf_def same)
  qed
  have hw: "\<exists>h'. hheap s' q = Some h' \<and> host_wf s' q h'" if q: "q \<in> set (host_list s)" for q
  proof -
    from wf q obtain h where h: "hheap s q = Some h" "host_wf s q h" by (auto elim: rt_wf_hostE)
    with upd[OF q h(1)] loc[OF q h(1)] lw show ?thesis by (auto simp: host_wf_def same)
  qed
  from wf obtain q h where q: "local_host s = Some q" "q \<in> set (host_list s)" "hheap s q = Some h"
    "h_type h = HT_LOCAL" by (rule rt_wf_localE)
  have dist: "map (host_mac s') (host_list s) = map (host_mac s) (host_list s)"
    using mac by simp
  show ?thesis
    using hp rt_wf_da[OF wf] rt_wf_distinct[OF wf] asc hw q upd[OF q(2,3)]
    by (auto simp: rt_wf_def same dist)
qed

lemma rt_wf_frame_ip:
  assumes "rt_wf s"
  shows "rt_wf (s\<lparr>ipheap := (ipheap s)(IP_Frame := v)\<rparr>)"
proof (rule rt_wf_retype[OF assms])
  let ?s = "s\<lparr>ipheap := (ipheap s)(IP_Frame := v)\<rparr>"
  show "heap_wf ?s" using rt_wf_heap[OF assms] by (simp add: heap_wf_def)
  fix q assume q: "q \<in> set (host_list s)"
  from rt_wf_hostE[OF assms q] obtain h where h: "hheap s q = Some h" "host_wf s q h" by auto
  then have "h_host h \<noteq> IP_Frame" by (cases "h_type h") (auto simp: host_wf_def)
  with h show "host_mac ?s q = host_mac s q" by (simp add: host_mac_def)
next
  fix q h assume "q \<in> set (host_list s)" "hheap s q = Some h"
  with rt_wf_host[OF assms this]
  show "\<exists>h'. hheap (s\<lparr>ipheap := (ipheap s)(IP_Frame := v)\<rparr>) q = Some h' \<and>
      ptr_fits (h_type h') (h_host h') \<and> h_links h' = h_links h \<and>
      (h_type h' = HT_LOCAL \<longleftrightarrow> h_type h = HT_LOCAL)"
    and "h_type h = HT_LOCAL \<Longrightarrow>
      direct_links (s\<lparr>ipheap := (ipheap s)(IP_Frame := v)\<rparr>) (h_links h)"
    by (auto simp: host_wf_def direct_links_def)
qed simp_all

text \<open>\<open>link_add\<close>: it returns, keeps the invariant, and on success adds exactly the new link.\<close>

lemma link_add_wf:
  assumes wf: "rt_wf s" and src: "src \<in> set (host_list s)" "hheap s src = Some h"
    and dst: "dst \<in> set (host_list s)" "dst \<noteq> src"
    and loc: "h_type h = HT_LOCAL \<Longrightarrow> dst \<notin> l_dst ` set (links_of h) \<and>
      (\<exists>g. hheap s dst = Some g \<and> h_type g = HT_DIRECT)"
  obtains (fail) al where "link_add s src dst rtt ts = Some (- 1, s\<lparr>allocs := al\<rparr>)"
  | (ok) al ls where "link_add s src dst rtt ts = Some (0, set_host src
        (h\<lparr>h_links := ls, h_l_max_ts_ms := max ts (h_l_max_ts_ms h)\<rparr>) (s\<lparr>allocs := al\<rparr>))"
      "mset (da_list ls) = add_mset \<lparr>l_dst = dst, l_rtt_us = rtt, l_ts_ms = ts\<rparr> (mset (links_of h))"
      "rt_wf (set_host src (h\<lparr>h_links := ls, h_l_max_ts_ms := max ts (h_l_max_ts_ms h)\<rparr>)
        (s\<lparr>allocs := al\<rparr>))"
proof -
  let ?l = "\<lparr>l_dst = dst, l_rtt_us = rtt, l_ts_ms = ts\<rparr>"
  obtain a b where macs: "host_mac s src = Some a" "host_mac s dst = Some b"
    using rt_wf_hostE[OF wf src(1)] rt_wf_hostE[OF wf dst(1)] by metis
  have lw: "links_wf s src (h_links h)" using rt_wf_links[OF wf src] .
  then have dw: "da_wf (h_links h)" by (simp add: links_wf_def)
  obtain fl links al where add: "DA_ADD_TO_END (h_links h) ?l (allocs s) = (fl, links, al)"
    by (cases "DA_ADD_TO_END (h_links h) ?l (allocs s)")
  show thesis
  proof (cases fl)
    case True
    show thesis by (rule fail[of al]) (use True add src macs in \<open>simp add: link_add_def\<close>)
  next
    case False
    with add dw have links: "da_wf links" "da_list links = links_of h @ [?l]"
      using da.add_ok[of "h_links h"] by auto
    have key: "keyed (link_mac s) (da_list links)"
      using lw macs by (auto simp: links links_wf_def ascending_def keyed_def link_mac_def)
    from link_order.qsort_total[OF key] obtain ls where ls: "da_qsort (link_cmp_addr s) links = Some ls"
      using da_qsort_total by blast
    note q = da_qsort_list[OF ls links(1)]
    have asc: "ascending (link_mac s) (da_list ls)"
      using link_order.qsort_ascending[OF key q(1)] .
    have mset: "mset (da_list ls) = add_mset ?l (mset (links_of h))"
      using qsort_mset[OF q(1)] by (simp add: links)
    have set: "set (da_list ls) = insert ?l (set (links_of h))"
      using qsort_set[OF q(1)] by (auto simp: links)
    have "links_wf s src ls"
      using lw asc q(2) dst by (auto simp: links_wf_def set)
    moreover have "direct_links s ls" if t: "h_type h = HT_LOCAL"
      using rt_wf_host[OF wf src] t loc[OF t]
      by (auto simp: host_wf_def direct_links_def set distinct_map_add[OF mset])
    ultimately have "rt_wf (set_host src (h\<lparr>h_links := ls, h_l_max_ts_ms := max ts (h_l_max_ts_ms h)\<rparr>) s)"
      using rt_wf_set_links[OF wf src] by blast
    then have "rt_wf (set_host src (h\<lparr>h_links := ls, h_l_max_ts_ms := max ts (h_l_max_ts_ms h)\<rparr>)
        (s\<lparr>allocs := al\<rparr>))"
      by (simp add: set_host_allocs)
    moreover have "(if ts > h_l_max_ts_ms h then ts else h_l_max_ts_ms h) = max ts (h_l_max_ts_ms h)"
      by (auto simp: max_def)
    ultimately show thesis
      using False add src macs ls mset by (intro ok) (auto simp: link_add_def Let_def)
  qed
qed

section \<open>Adding a host\<close>

text \<open>What \<open>host_add\<close> leaves as it was: all hosts there were and the memory they use.\<close>

definition extends :: "routing \<Rightarrow> routing \<Rightarrow> bool" where
  "extends s s' \<longleftrightarrow>
     local_host s' = local_host s \<and> m_ct s' = m_ct s \<and> mats s' = mats s \<and> edges s' = edges s \<and>
     lock s' = lock s \<and> brk s \<le> brk s' \<and>
     (\<forall>p<brk s. hheap s' p = hheap s p \<and> ipheap s' (IP_Heap p) = ipheap s (IP_Heap p)) \<and>
     (\<forall>d. ipheap s' (IP_Dp d) = ipheap s (IP_Dp d)) \<and> ipheap s' IP_Main = ipheap s IP_Main"

lemma extends_refl [simp]: "extends s s"
  by (simp add: extends_def)

lemma extends_allocs [simp]: "extends s (s\<lparr>allocs := al\<rparr>)"
  by (simp add: extends_def)

lemma heap_wf_less: "heap_wf s \<Longrightarrow> hheap s p = Some h \<Longrightarrow> p < brk s"
  by (metis heap_wf_def not_less option.discI)

lemma host_mac_extends:
  assumes "extends s s'" and "heap_wf s" and "hheap s p = Some h" and "host_mac s p = Some m"
    and "h_host h \<noteq> IP_Frame"
  shows "hheap s' p = Some h" and "host_mac s' p = Some m"
proof -
  from assms(2,3) have "p < brk s" by (rule heap_wf_less)
  with assms(1,3) show p: "hheap s' p = Some h" by (simp add: extends_def)
  from assms(3,4) obtain ip where ip: "ipheap s (h_host h) = Some ip" "m = ip_mac ip"
    by (auto simp: host_mac_def bind_Some_iff)
  have "ipheap s' (h_host h) = Some ip"
  proof (cases "h_host h")
    case (IP_Heap a)
    with ip assms(2) have "a < brk s" by (metis heap_wf_def not_less option.discI)
    with assms(1) IP_Heap ip show ?thesis by (simp add: extends_def)
  qed (use assms ip in \<open>auto simp: extends_def\<close>)
  with p ip show "host_mac s' p = Some m" by (simp add: host_mac_def)
qed

lemma rt_wf_extends:
  assumes wf: "rt_wf s" and ext: "extends s s'" and p: "p \<in> set (host_list s)"
  shows "hheap s' p = hheap s p" and "host_mac s' p = host_mac s p"
proof -
  from rt_wf_hostE[OF wf p] obtain g a where g: "hheap s p = Some g" "host_wf s p g"
    "host_mac s p = Some a" by blast
  then have "h_host g \<noteq> IP_Frame" by (cases "h_type g") (auto simp: host_wf_def)
  with host_mac_extends[OF ext rt_wf_heap[OF wf] g(1,3)] g
  show "hheap s' p = hheap s p" "host_mac s' p = host_mac s p" by simp_all
qed

text \<open>The three outcomes of \<open>host_alloc\<close> for a host whose address is at \<open>ip_host\<close>.\<close>

lemma host_alloc_cases:
  assumes "heap_wf s" and "ipheap s ip_host = Some ip"
  obtains (fail) ret al where "host_alloc s ip_host type = Some (ret, None, s\<lparr>allocs := al\<rparr>)"
  | (ok) s' h where "host_alloc s ip_host type = Some (0, Some (brk s), s')"
      "extends s s'" "heap_wf s'" "hosts s' = hosts s" "hheap s' = (hheap s)(brk s \<mapsto> h)"
      "h_type h = type" "da_wf (h_links h)" "links_of h = []" "h_l_max_ts_ms h = 0"
      "h_host h = (if type = HT_NORMAL then IP_Heap (brk s) else ip_host)"
      "host_mac s' (brk s) = Some (ip_mac ip)" "ipheap s' IP_Frame = ipheap s IP_Frame"
proof -
  obtain ok1 al1 where a1: "alloc (allocs s) = (ok1, al1)" by (cases "alloc (allocs s)")
  obtain fl ls al2 where a2: "(DA_INIT RT_LINK_INIT al1 :: bool \<times> rt_link da \<times> allocs) = (fl, ls, al2)"
    by (cases "DA_INIT RT_LINK_INIT al1 :: bool \<times> rt_link da \<times> allocs")
  obtain ok3 al3 where a3: "alloc al2 = (ok3, al3)" by (cases "alloc al2")
  note ls = DA_INIT_list[OF a2]
  have new: "ip_host \<noteq> IP_Heap (brk s)"
    using assms by (auto simp: heap_wf_def)
  consider (f1) "\<not> ok1" | (f2) "ok1" "fl" | (f3) "ok1" "\<not> fl" "type = HT_NORMAL" "\<not> ok3"
    | (s1) "ok1" "\<not> fl" "type = HT_NORMAL" "ok3" | (s2) "ok1" "\<not> fl" "type \<noteq> HT_NORMAL"
    by blast
  then show thesis
  proof cases
    case s1
    let ?h = "\<lparr>h_host = IP_Heap (brk s), h_type = type, h_l_max_ts_ms = 0, h_links = ls\<rparr>"
    let ?s = "set_host (brk s) ?h (s\<lparr>brk := brk s + 1, allocs := al3,
      ipheap := (ipheap s)(IP_Heap (brk s) \<mapsto> ip)\<rparr>)"
    show thesis
      by (rule ok[of ?s ?h]) (use s1 a1 a2 a3 ls assms in
        \<open>auto simp: host_alloc_def Let_def extends_def heap_wf_def host_mac_def\<close>)
  next
    case s2
    let ?h = "\<lparr>h_host = ip_host, h_type = type, h_l_max_ts_ms = 0, h_links = ls\<rparr>"
    let ?s = "set_host (brk s) ?h (s\<lparr>brk := brk s + 1, allocs := al2\<rparr>)"
    have "type = HT_DIRECT \<or> type = HT_LOCAL" using s2 by (cases type) auto
    then show thesis
      by (intro ok[of ?s ?h]) (use s2 a1 a2 ls assms in
        \<open>auto simp: host_alloc_def Let_def extends_def heap_wf_def host_mac_def\<close>)
  qed (use a1 a2 a3 in \<open>auto simp: host_alloc_def Let_def intro: fail\<close>)
qed

text \<open>Inserting a host that the table does not hold yet.\<close>

lemma host_insert_unchecked_cases:
  assumes "da_wf (hosts s)" and "keyed (host_mac s) (host_list s)" and "host_mac s p \<noteq> None"
  obtains (fail) al where "host_insert_unchecked s p = Some (- 1, s\<lparr>allocs := al\<rparr>)"
  | (ok) d al where "host_insert_unchecked s p = Some (0, s\<lparr>hosts := d, allocs := al\<rparr>)"
      "da_wf d" "mset (da_list d) = add_mset p (mset (host_list s))"
      "ascending (host_mac s) (da_list d)"
proof -
  obtain fl d al where add: "DA_ADD_TO_END (hosts s) p (allocs s) = (fl, d, al)"
    by (cases "DA_ADD_TO_END (hosts s) p (allocs s)")
  show thesis
  proof (cases fl)
    case True
    with add show thesis by (auto simp: host_insert_unchecked_def intro: fail)
  next
    case False
    with add assms(1) have d: "da_wf d" "da_list d = host_list s @ [p]"
      using da.add_ok[of "hosts s"] by auto
    have key: "keyed (host_mac s) (da_list d)"
      using assms(2,3) by (auto simp: d keyed_def)
    from host_order.qsort_total[OF key] obtain d' where d': "da_qsort (host_cmp_addr s) d = Some d'"
      using da_qsort_total by blast
    note q = da_qsort_list[OF d' d(1)]
    show thesis
      by (rule ok[where d = d' and al = al])
        (use False add d' q qsort_mset[OF q(1)] host_order.qsort_ascending[OF key q(1)] d(2)
          in \<open>auto simp: host_insert_unchecked_def\<close>)
  qed
qed

text \<open>A table that grew by one new host, not the local one, without links.\<close>

lemma rt_wf_insert:
  assumes wf: "rt_wf s" and ext: "extends s s'" and hp: "heap_wf s'"
    and h: "hheap s' (brk s) = Some h" "links_of h = []" "da_wf (h_links h)"
    "ptr_fits (h_type h) (h_host h)" "h_type h \<noteq> HT_LOCAL"
    and m: "host_mac s' (brk s) = Some m" "\<forall>p\<in>set (host_list s). host_mac s p \<noteq> Some m"
    and d: "da_wf (hosts s')" "mset (host_list s') = add_mset (brk s) (mset (host_list s))"
    "ascending (host_mac s') (host_list s')"
  shows "rt_wf s'"
proof -
  have set': "set (host_list s') = insert (brk s) (set (host_list s))"
    using d(2) by (rule set_add)
  have old: "hheap s' p = hheap s p \<and> host_mac s' p = host_mac s p" if p: "p \<in> set (host_list s)" for p
    using rt_wf_extends[OF wf ext p] by simp
  have lw: "links_wf s' p ls" if "links_wf s p ls" for p ls
  proof -
    have "\<forall>l\<in>set (da_list ls). link_mac s' l = link_mac s l"
      using that old by (auto simp: links_wf_def link_mac_def)
    with that show ?thesis
      using ascending_cong[of "da_list ls" "link_mac s'" "link_mac s"]
      by (auto simp: links_wf_def set')
  qed
  have "host_wf s' (brk s) h"
    using h by (simp add: host_wf_def links_wf_def ascending_def keyed_def)
  moreover have "\<exists>g. hheap s' p = Some g \<and> host_wf s' p g" if p: "p \<in> set (host_list s)" for p
  proof -
    from rt_wf_hostE[OF wf p] obtain g where g: "hheap s p = Some g" "host_wf s p g" by blast
    have "direct_links s' (h_links g)" if "h_type g = HT_LOCAL"
      using g that old by (fastforce simp: host_wf_def direct_links_def links_wf_def)
    with g old[OF p] lw ext show ?thesis by (auto simp: host_wf_def extends_def)
  qed
  ultimately have all: "\<forall>p\<in>set (host_list s'). \<exists>g. hheap s' p = Some g \<and> host_wf s' p g"
    using h(1) by (auto simp: set')
  have "map (host_mac s') (host_list s) = map (host_mac s) (host_list s)"
    using old by simp
  with rt_wf_distinct[OF wf] have "distinct (map (host_mac s') (host_list s))"
    by (simp only:)
  then have "distinct (map (host_mac s') (host_list s'))"
    using m old by (auto simp: distinct_map_add[OF d(2)])
  moreover from wf obtain q g where "local_host s = Some q" "q \<in> set (host_list s)" "hheap s q = Some g"
    "h_type g = HT_LOCAL" by (rule rt_wf_localE)
  with old ext have "\<exists>q g. local_host s' = Some q \<and> q \<in> set (host_list s') \<and> hheap s' q = Some g \<and>
      h_type g = HT_LOCAL" by (auto simp: set' extends_def)
  ultimately show ?thesis using hp d all by (simp add: rt_wf_def)
qed

text \<open>
  \<open>host_add\<close> for a host that is not the local one: a duplicate, a failed allocation, or a new
  host that the table now holds; the rest of the table is untouched.
\<close>

lemma host_add_cases:
  assumes wf: "rt_wf s" and ip: "ipheap s ip_host = Some ip"
    and type: "type \<noteq> HT_LOCAL" "type = HT_DIRECT \<Longrightarrow> ptr_fits HT_DIRECT ip_host"
  obtains (dup) p where "host_add s ip_host type = Some (1, None, s)"
      "p \<in> set (host_list s)" "host_mac s p = Some (ip_mac ip)"
  | (fail) ret s' where "host_add s ip_host type = Some (ret, None, s')" "ret < 0" "rt_wf s'"
      "hosts s' = hosts s" "extends s s'" "ipheap s' IP_Frame = ipheap s IP_Frame"
  | (ok) s' h where "host_add s ip_host type = Some (0, Some (brk s), s')" "rt_wf s'"
      "extends s s'" "mset (host_list s') = add_mset (brk s) (mset (host_list s))"
      "hheap s' (brk s) = Some h" "h_type h = type" "links_of h = []" "h_l_max_ts_ms h = 0"
      "host_mac s' (brk s) = Some (ip_mac ip)" "\<forall>p\<in>set (host_list s). host_mac s p \<noteq> Some (ip_mac ip)"
      "ipheap s' IP_Frame = ipheap s IP_Frame" "\<forall>q. q \<noteq> brk s \<longrightarrow> hheap s' q = hheap s q"
proof (cases rule: find_host_by_addr_cases[OF rt_wf_da[OF wf] rt_wf_ascending[OF wf], of "ip_mac ip"])
  case (1 i)
  then show thesis by (intro dup[of "host_list s ! i"]) (simp_all add: host_add_def ip)
next
  case missing: 2
  note hp = rt_wf_heap[OF wf]
  show thesis
  proof (cases rule: host_alloc_cases[OF hp ip, of type])
    case (1 ret al)
    then show thesis
      by (intro fail[of "- 3" "s\<lparr>allocs := al\<rparr>"]) (simp_all add: host_add_def ip missing wf)
  next
    case (2 s1 h)
    have key: "keyed (host_mac s1) (host_list s1)"
      using rt_wf_extends(2)[OF wf 2(2)] rt_wf_ascending[OF wf]
      by (auto simp: keyed_def ascending_def 2(4))
    have da: "da_wf (hosts s1)" using rt_wf_da[OF wf] by (simp add: 2)
    have some: "host_mac s1 (brk s) \<noteq> None" by (simp add: 2)
    show thesis
    proof (cases rule: host_insert_unchecked_cases[OF da key some])
      case (1 al)
      let ?s = "s1\<lparr>allocs := al, hheap := (hheap s1)(brk s := None)\<rparr>"
      have ext: "extends s ?s" using 2(2) by (simp add: extends_def)
      have none: "hheap s (brk s) = None" using hp by (simp add: heap_wf_def)
      have "rt_wf ?s"
      proof (rule rt_wf_retype[OF wf])
        show "heap_wf ?s" using 2(3) by (simp add: heap_wf_def)
        fix q assume "q \<in> set (host_list s)"
        then show "host_mac ?s q = host_mac s q" by (rule rt_wf_extends(2)[OF wf ext])
      next
        fix q g assume "q \<in> set (host_list s)" "hheap s q = Some g"
        with rt_wf_host[OF wf this] none
        show "\<exists>g'. hheap ?s q = Some g' \<and> ptr_fits (h_type g') (h_host g') \<and>
            h_links g' = h_links g \<and> (h_type g' = HT_LOCAL \<longleftrightarrow> h_type g = HT_LOCAL)"
          and "h_type g = HT_LOCAL \<Longrightarrow> direct_links ?s (h_links g)"
          by (auto simp: host_wf_def direct_links_def 2(5))
      qed (use 2(2,4) in \<open>simp_all add: extends_def\<close>)
      with 1 2 missing ext show thesis
        by (intro fail[of "- 1" ?s]) (simp_all add: host_add_def ip)
    next
      case (2 d al)
      let ?s = "s1\<lparr>hosts := d, allocs := al\<rparr>"
      note s1 = \<open>extends s s1\<close> \<open>heap_wf s1\<close> \<open>hosts s1 = hosts s\<close>
      have ext: "extends s ?s" using s1(1) by (simp add: extends_def)
      have "ptr_fits (h_type h) (h_host h)"
        using type \<open>h_type h = type\<close> \<open>h_host h = _\<close> by (cases type) auto
      then have wf': "rt_wf ?s"
        by (intro rt_wf_insert[OF wf ext, where h = h and m = "ip_mac ip"])
          (use s1 2 missing type \<open>hheap s1 = _\<close> \<open>links_of h = []\<close> \<open>da_wf (h_links h)\<close>
            \<open>h_type h = type\<close> \<open>host_mac s1 (brk s) = _\<close> in \<open>simp_all add: heap_wf_def\<close>)
      show thesis
        by (rule ok[of ?s h])
          (use 2 wf' ext s1 missing \<open>hheap s1 = _\<close> \<open>links_of h = []\<close> \<open>h_type h = type\<close>
            \<open>host_mac s1 (brk s) = _\<close> \<open>h_l_max_ts_ms h = 0\<close> \<open>host_alloc s ip_host type = _\<close>
            \<open>ipheap s1 IP_Frame = _\<close> in \<open>simp_all add: host_add_def ip\<close>)
    qed
  qed
qed

end
