(* ===== verification/Routing_Paths.thy ===== *)
theory Routing_Paths
  imports Routing_Inv
begin

text \<open>
  \<open>compute_paths\<close> of src/routing.c: the adjacency matrix of the known links and the triple
  loop over it, with the program's 32-bit saturating weights, its \<open>0\<close> for "no path" and its
  next-hop matrix.  The lemmas state what the loop computes: which pairs it connects, that the
  weights are those of real routes, and that following the next hops never runs in a circle.
\<close>

section \<open>Matrices\<close>

definition mget :: "'a list list \<Rightarrow> nat \<Rightarrow> nat \<Rightarrow> 'a" where
  "mget m i j = m ! i ! j"

definition mput :: "'a list list \<Rightarrow> nat \<Rightarrow> nat \<Rightarrow> 'a \<Rightarrow> 'a list list" where
  "mput m i j v = m[i := (m ! i)[j := v]]"

definition mdim :: "nat \<Rightarrow> 'a list list \<Rightarrow> bool" where
  "mdim n m \<longleftrightarrow> length m = n \<and> (\<forall>r\<in>set m. length r = n)"

lemma mdim_row: "mdim n m \<Longrightarrow> i < n \<Longrightarrow> length (m ! i) = n"
  by (simp add: mdim_def)

lemma mdim_mput: "mdim n m \<Longrightarrow> i < n \<Longrightarrow> mdim n (mput m i j v)"
  by (auto simp: mdim_def mput_def dest!: set_update_subset_insert[THEN subsetD])

lemma mget_mput:
  "mdim n m \<Longrightarrow> i < n \<Longrightarrow> j < n \<Longrightarrow>
     mget (mput m i j v) a b = (if a = i \<and> b = j then v else mget m a b)"
  by (auto simp: mget_def mput_def mdim_def nth_list_update)

lemma mdim_replicate: "mdim n (replicate n (replicate n v))"
  by (auto simp: mdim_def)

lemma mget_replicate: "i < n \<Longrightarrow> j < n \<Longrightarrow> mget (replicate n (replicate n v)) i j = v"
  by (simp add: mget_def)

section \<open>The loops of \<open>compute_paths\<close>\<close>

text \<open>The weight of a path joined from two: 32-bit addition, one less for two self-paths, saturating.\<close>

definition fw_weight :: "u32 \<Rightarrow> u32 \<Rightarrow> u32" where
  "fw_weight a b =
     (let x = a + b; x = (if a = 1 \<and> b = 1 then x - 1 else x)
      in if x < a \<or> x < b then PATH_MAX else x)"

text \<open>The body of the innermost loop.\<close>

definition fw_relax ::
  "nat \<Rightarrow> nat \<Rightarrow> nat \<Rightarrow> u32 list list \<times> nat list list \<Rightarrow> u32 list list \<times> nat list list" where
  "fw_relax k i j = (\<lambda>(path, next).
     if mget path i k = PATH_DISCON \<or> mget path k j = PATH_DISCON then (path, next)
     else let x = fw_weight (mget path i k) (mget path k j)
          in if x < mget path i j then (mput path i j x, mput next i j k) else (path, next))"

definition floyd_warshall ::
  "nat \<Rightarrow> u32 list list \<times> nat list list \<Rightarrow> u32 list list \<times> nat list list" where
  "floyd_warshall n = fold (\<lambda>k. fold (\<lambda>i. fold (fw_relax k i) [0..<n]) [0..<n]) [0..<n]"

text \<open>Setup of the adjacency matrix: row \<open>i\<close> gets the self-path and the links of host \<open>i\<close>.\<close>

definition adj_link :: "routing \<Rightarrow> nat \<Rightarrow> rt_link \<Rightarrow> u32 list list \<Rightarrow> u32 list list option" where
  "adj_link s i l path = do {
     mac \<leftarrow> link_mac s l;
     dstp \<leftarrow> find_host_by_addr s mac;
     dst_i \<leftarrow> dstp;
     Some (mput path i dst_i (l_rtt_us l))
   }"

definition adj_host :: "routing \<Rightarrow> nat \<Rightarrow> u32 list list \<Rightarrow> u32 list list option" where
  "adj_host s i path = do {
     p \<leftarrow> index_to_host s i;
     host \<leftarrow> hheap s p;
     foldM (adj_link s i) (links_of host) (mput path i i PATH_MIN)
   }"

definition adjacency :: "routing \<Rightarrow> u32 list list option" where
  "adjacency s =
     (let n = da_ct (hosts s)
      in foldM (adj_host s) [0..<n] (replicate n (replicate n PATH_DISCON)))"

text \<open>Allocation of the rows, two blocks each.\<close>

fun alloc_rows :: "nat \<Rightarrow> allocs \<Rightarrow> int \<times> allocs" where
  "alloc_rows 0 al = (0, al)"
| "alloc_rows (Suc n) al =
     (let (ok1, al1) = alloc al
      in if \<not> ok1 then (- 3, al1)
      else let (ok2, al2) = alloc al1
      in if \<not> ok2 then (- 4, al2) else alloc_rows n al2)"

text \<open>
  On a failed allocation the rows are already freed and the old \<open>rd->path\<close>, \<open>rd->next\<close> stay
  behind: dangling, unless they were still null.  The next call would free them again.
\<close>

fun mats_abandon :: "matrices \<Rightarrow> matrices" where
  "mats_abandon M_NULL = M_NULL"
| "mats_abandon _ = M_Dangling"

definition compute_paths :: "routing \<Rightarrow> (int \<times> routing) option" where
  "compute_paths s =
     (if mats s = M_Dangling then None
      else let n = da_ct (hosts s); (ok1, al1) = alloc (allocs s)
      in if \<not> ok1 then Some (- 1, s\<lparr>allocs := al1, mats := mats_abandon (mats s)\<rparr>)
      else let (ok2, al2) = alloc al1
      in if \<not> ok2 then Some (- 2, s\<lparr>allocs := al2, mats := mats_abandon (mats s)\<rparr>)
      else let (ret, al3) = alloc_rows n al2
      in if ret \<noteq> 0
         then Some (ret, s\<lparr>allocs := al3, mats := mats_abandon (mats s), m_ct := 0\<rparr>)
      else do {
        path \<leftarrow> adjacency s;
        let (path', next') = floyd_warshall n (path, replicate n (replicate n NEXT_DISCON));
        Some (0, s\<lparr>allocs := al3, m_ct := n, mats := M_Valid path' next'\<rparr>)
      })"

section \<open>Weights\<close>

lemma fw_weight_bounds:
  assumes "a \<noteq> 0" and "b \<noteq> 0"
  shows "a \<le> fw_weight a b" and "b \<le> fw_weight a b" and "fw_weight a b \<noteq> 0"
proof -
  let ?x = "if a = 1 \<and> b = 1 then a + b - 1 else a + b"
  have max: "c \<le> PATH_MAX" for c :: u32 by (simp add: PATH_MAX_def)
  have w: "fw_weight a b = (if ?x < a \<or> ?x < b then PATH_MAX else ?x)"
    by (simp add: fw_weight_def Let_def)
  then show "a \<le> fw_weight a b" "b \<le> fw_weight a b"
    using max by (auto simp: not_less split: if_splits)
  with assms show "fw_weight a b \<noteq> 0" by auto
qed

text \<open>Without overflow, and apart from two self-paths, the weight is the sum.\<close>

lemma fw_weight_sum:
  assumes "unat a + unat b < 2 ^ 32" and "\<not> (a = 1 \<and> b = 1)"
  shows "unat (fw_weight a b) = unat a + unat b"
proof -
  have sum: "unat (a + b) = unat a + unat b"
    using assms(1) by (simp add: unat_word_ariths)
  then have "\<not> a + b < a" "\<not> a + b < b" by (simp_all add: word_less_nat_alt)
  with assms(2) sum show ?thesis by (auto simp: fw_weight_def Let_def)
qed

lemma fw_weight_saturates:
  assumes "2 ^ 32 \<le> unat a + unat b"
  shows "fw_weight a b = PATH_MAX"
proof -
  have "unat a < 2 ^ 32" "unat b < 2 ^ 32"
    using unsigned_less[of a, where 'a = nat] unsigned_less[of b, where 'a = nat] by simp_all
  with assms have "unat (a + b) = unat a + unat b - 2 ^ 32"
    by (simp add: unat_word_ariths mod_if)
  with assms \<open>unat b < 2 ^ 32\<close> have "a + b < a" by (simp add: word_less_nat_alt)
  moreover have "\<not> (a = 1 \<and> b = 1)" using assms by auto
  ultimately show ?thesis by (auto simp: fw_weight_def Let_def)
qed

section \<open>What the triple loop keeps\<close>

text \<open>The next-hop graph towards \<open>j\<close>.\<close>

definition hop_rel :: "nat \<Rightarrow> nat list list \<Rightarrow> nat \<Rightarrow> (nat \<times> nat) set" where
  "hop_rel n nx j = {(i, mget nx i j) | i. i < n \<and> mget nx i j \<noteq> NEXT_DISCON}"

text \<open>One entry of the two matrices: \<open>p0\<close> is the adjacency matrix the loop started from.\<close>

definition fw_entry ::
  "nat \<Rightarrow> u32 list list \<Rightarrow> u32 list list \<Rightarrow> nat list list \<Rightarrow> nat \<Rightarrow> nat \<Rightarrow> bool" where
  "fw_entry n p0 p nx i j \<longleftrightarrow>
     (mget p i j = 0 \<longleftrightarrow> mget p0 i j = 0) \<and> mget p i j \<le> mget p0 i j \<and>
     (mget nx i j \<noteq> NEXT_DISCON \<longrightarrow>
        mget nx i j < n \<and> mget nx i j \<noteq> i \<and> mget nx i j \<noteq> j \<and>
        mget p i (mget nx i j) \<noteq> 0 \<and> mget p (mget nx i j) j \<noteq> 0 \<and>
        mget p (mget nx i j) j \<le> mget p i j)"

definition fw_inv :: "nat \<Rightarrow> u32 list list \<Rightarrow> u32 list list \<times> nat list list \<Rightarrow> bool" where
  "fw_inv n p0 = (\<lambda>(p, nx).
     mdim n p \<and> mdim n nx \<and> (\<forall>i<n. \<forall>j<n. fw_entry n p0 p nx i j) \<and>
     (\<forall>j<n. acyclic (hop_rel n nx j)))"

lemma fw_invD:
  assumes "fw_inv n p0 (p, nx)"
  shows "mdim n p" "mdim n nx" "i < n \<Longrightarrow> j < n \<Longrightarrow> fw_entry n p0 p nx i j"
    "j < n \<Longrightarrow> acyclic (hop_rel n nx j)"
  using assms by (auto simp: fw_inv_def)

lemma fw_inv_init:
  assumes "mdim n p0"
  shows "fw_inv n p0 (p0, replicate n (replicate n NEXT_DISCON))"
proof -
  have "hop_rel n (replicate n (replicate n NEXT_DISCON)) j = {}" if "j < n" for j
    using that by (auto simp: hop_rel_def mget_replicate)
  with assms show ?thesis
    by (auto simp: fw_inv_def fw_entry_def mdim_replicate mget_replicate acyclic_def)
qed

text \<open>Along the next hops towards \<open>j\<close> the weight to \<open>j\<close> does not grow.\<close>

lemma hop_rel_weight:
  assumes "fw_inv n p0 (p, nx)" and "j < n" and "(a, b) \<in> (hop_rel n nx j)\<^sup>*"
  shows "mget p b j \<le> mget p a j"
  using assms(3)
proof (induction rule: rtrancl_induct)
  case (step b c)
  then have "mget p c j \<le> mget p b j"
    using fw_invD(3)[OF assms(1), of b j] assms(2) by (auto simp: hop_rel_def fw_entry_def)
  with step.IH show ?case by (rule order_trans[rotated])
qed simp

lemma hop_rel_mput_other:
  assumes "mdim n nx" "i < n" "j < n" "c \<noteq> j"
  shows "hop_rel n (mput nx i j k) c = hop_rel n nx c"
  using assms by (auto simp: hop_rel_def mget_mput)

lemma hop_rel_mput:
  assumes "mdim n nx" "i < n" "j < n"
  shows "hop_rel n (mput nx i j k) j \<subseteq> insert (i, k) (hop_rel n nx j)"
  using assms by (auto simp: hop_rel_def mget_mput)

text \<open>Redirecting a route to a hop that is strictly nearer closes no circle.\<close>

lemma fw_update_acyclic:
  assumes inv: "fw_inv n p0 (p, nx)" and "i < n" "j < n"
    and near: "mget p k j < mget p i j" and c: "c < n"
  shows "acyclic (hop_rel n (mput nx i j k) c)"
proof (cases "c = j")
  case True
  have "(k, i) \<notin> (hop_rel n nx j)\<^sup>*"
    using hop_rel_weight[OF inv \<open>j < n\<close>, of k i] near by auto
  then have "acyclic (insert (i, k) (hop_rel n nx j))"
    using fw_invD(4)[OF inv \<open>j < n\<close>] by (simp add: acyclic_insert)
  then have "acyclic (hop_rel n (mput nx i j k) j)"
    using hop_rel_mput[OF fw_invD(2)[OF inv] \<open>i < n\<close> \<open>j < n\<close>] by (rule acyclic_subset)
  then show ?thesis by (simp add: True)
next
  case False
  with fw_invD(2,4)[OF inv] assms show ?thesis by (simp add: hop_rel_mput_other)
qed

lemma fw_relax_inv:
  assumes inv: "fw_inv n p0 pn" and k: "k < n" and i: "i < n" and j: "j < n"
  shows "fw_inv n p0 (fw_relax k i j pn)"
proof -
  obtain p nx where pn: "pn = (p, nx)" by (cases pn)
  let ?a = "mget p i k" and ?b = "mget p k j"
  let ?x = "fw_weight ?a ?b"
  show ?thesis
  proof (cases "?a \<noteq> 0 \<and> ?b \<noteq> 0 \<and> ?x < mget p i j")
    case False
    then have "fw_relax k i j pn = pn"
      by (auto simp: fw_relax_def pn Let_def PATH_DISCON_def)
    with inv show ?thesis by simp
  next
    case True
    note inv' = inv[unfolded pn]
    note dim = fw_invD(1,2)[OF inv']
    note w = fw_weight_bounds[of ?a ?b]
    from True have x: "?a \<le> ?x" "?b \<le> ?x" "?x \<noteq> 0" "?x < mget p i j" using w by auto
    then have ne: "k \<noteq> i" "k \<noteq> j" by auto
    have get: "mget (mput p i j ?x) a b = (if a = i \<and> b = j then ?x else mget p a b)"
      "mget (mput nx i j k) a b = (if a = i \<and> b = j then k else mget nx a b)" for a b
      using mget_mput dim i j by metis+
    have ij: "mget p i j \<noteq> 0" "mget p i j \<le> mget p0 i j" "mget p0 i j \<noteq> 0"
      using x fw_invD(3)[OF inv' i j] by (auto simp: fw_entry_def)
    have "fw_entry n p0 (mput p i j ?x) (mput nx i j k) a b" if ab: "a < n" "b < n" for a b
    proof (cases "a = i \<and> b = j")
      case True
      with x ne k ij \<open>_ \<and> _ \<and> _\<close> show ?thesis by (auto simp: fw_entry_def get)
    next
      case False
      have e: "fw_entry n p0 p nx a b" using fw_invD(3)[OF inv' ab] .
      have mono: "mget (mput p i j ?x) c d \<le> mget p c d" for c d
        using x by (simp add: get order.strict_implies_order)
      have nz: "mget (mput p i j ?x) c d = 0 \<longleftrightarrow> mget p c d = 0" for c d
        using x ij by (auto simp: get)
      from e False show ?thesis
        using mono order_trans[OF mono] by (auto simp: fw_entry_def nz get(2)) (auto simp: get(1))
    qed
    moreover have "acyclic (hop_rel n (mput nx i j k) c)" if "c < n" for c
      using fw_update_acyclic[OF inv' i j _ that, of k] x by auto
    ultimately show ?thesis
      using True dim i by (auto simp: fw_inv_def fw_relax_def pn Let_def PATH_DISCON_def mdim_mput)
  qed
qed

lemma floyd_warshall_rule:
  assumes "P pn"
    and "\<And>k i j pn. k < n \<Longrightarrow> i < n \<Longrightarrow> j < n \<Longrightarrow> P pn \<Longrightarrow> P (fw_relax k i j pn)"
  shows "P (floyd_warshall n pn)"
  unfolding floyd_warshall_def
  by (intro fold_invariant_set[where P = P] assms(1)) (auto intro: assms(2))

lemma floyd_warshall_inv: "fw_inv n p0 pn \<Longrightarrow> fw_inv n p0 (floyd_warshall n pn)"
  by (rule floyd_warshall_rule) (auto intro: fw_relax_inv)

text \<open>No route of a host to itself has a hop: nothing is shorter than \<open>PATH_MIN\<close>.\<close>

lemma word_less_one: "x < (1 :: u32) \<longleftrightarrow> x = 0"
  by (simp add: word_less_nat_alt unat_eq_zero)

lemma floyd_warshall_self:
  assumes dim: "mdim n p0" and self: "\<forall>i<n. mget p0 i i = PATH_MIN" and i: "i < n"
  shows "mget (snd (floyd_warshall n (p0, replicate n (replicate n NEXT_DISCON)))) i i = NEXT_DISCON"
proof -
  let ?P = "\<lambda>(p, nx). mdim n p \<and> mdim n nx \<and>
    (\<forall>i<n. mget p i i = PATH_MIN \<and> mget nx i i = NEXT_DISCON)"
  have "?P (floyd_warshall n (p0, replicate n (replicate n NEXT_DISCON)))"
  proof (rule floyd_warshall_rule)
    show "?P (p0, replicate n (replicate n NEXT_DISCON))"
      using dim self by (simp add: mdim_replicate mget_replicate)
    fix k i j pn assume b: "k < n" "i < n" "j < n" and P: "?P pn"
    obtain p nx where pn: "pn = (p, nx)" by (cases pn)
    let ?x = "fw_weight (mget p i k) (mget p k j)"
    show "?P (fw_relax k i j pn)"
    proof (cases "mget p i k \<noteq> 0 \<and> mget p k j \<noteq> 0 \<and> ?x < mget p i j")
      case True
      then have "?x \<noteq> 0" using fw_weight_bounds(3) by blast
      with True P b have "i \<noteq> j" by (auto simp: pn PATH_MIN_def word_less_one)
      with True P b show ?thesis
        by (auto simp: pn fw_relax_def Let_def PATH_DISCON_def mdim_mput mget_mput)
    next
      case False
      then have "fw_relax k i j pn = pn"
        by (auto simp: fw_relax_def pn Let_def PATH_DISCON_def)
      with P show ?thesis by simp
    qed
  qed
  with i show ?thesis by (auto simp: split_beta)
qed

text \<open>Every weight is that of a route composed of links.\<close>

inductive routed :: "nat \<Rightarrow> u32 list list \<Rightarrow> nat \<Rightarrow> nat \<Rightarrow> u32 \<Rightarrow> bool" for n p0 where
  direct: "i < n \<Longrightarrow> j < n \<Longrightarrow> mget p0 i j \<noteq> 0 \<Longrightarrow> routed n p0 i j (mget p0 i j)"
| via: "routed n p0 i k a \<Longrightarrow> routed n p0 k j b \<Longrightarrow> routed n p0 i j (fw_weight a b)"

definition fw_sound :: "nat \<Rightarrow> u32 list list \<Rightarrow> u32 list list \<times> nat list list \<Rightarrow> bool" where
  "fw_sound n p0 = (\<lambda>(p, nx). mdim n p \<and> mdim n nx \<and>
     (\<forall>i<n. \<forall>j<n. mget p i j \<noteq> 0 \<longrightarrow> routed n p0 i j (mget p i j)) \<and>
     (\<forall>i<n. \<forall>j<n. mget nx i j = NEXT_DISCON \<longrightarrow> mget p i j = mget p0 i j))"

lemma fw_relax_sound:
  assumes snd: "fw_sound n p0 pn" and k: "k < n" and i: "i < n" and j: "j < n"
    and n: "n \<le> NEXT_DISCON"
  shows "fw_sound n p0 (fw_relax k i j pn)"
proof -
  obtain p nx where pn: "pn = (p, nx)" by (cases pn)
  let ?a = "mget p i k" and ?b = "mget p k j"
  let ?x = "fw_weight ?a ?b"
  show ?thesis
  proof (cases "?a \<noteq> 0 \<and> ?b \<noteq> 0 \<and> ?x < mget p i j")
    case False
    then have "fw_relax k i j pn = pn"
      by (auto simp: fw_relax_def pn Let_def PATH_DISCON_def)
    with snd show ?thesis by simp
  next
    case True
    have dim: "mdim n p" "mdim n nx" using snd by (auto simp: fw_sound_def pn)
    have get: "mget (mput p i j ?x) a b = (if a = i \<and> b = j then ?x else mget p a b)"
      "mget (mput nx i j k) a b = (if a = i \<and> b = j then k else mget nx a b)" for a b
      using mget_mput dim i j by metis+
    have "routed n p0 i j ?x"
      using True snd i j k by (auto simp: fw_sound_def pn intro: routed.via)
    with snd dim i k n True show ?thesis
      by (auto simp: fw_sound_def fw_relax_def pn Let_def PATH_DISCON_def mdim_mput get)
  qed
qed

lemma floyd_warshall_sound:
  assumes "mdim n p0" and "n \<le> NEXT_DISCON"
  shows "fw_sound n p0 (floyd_warshall n (p0, replicate n (replicate n NEXT_DISCON)))"
proof (rule floyd_warshall_rule)
  show "fw_sound n p0 (p0, replicate n (replicate n NEXT_DISCON))"
    using assms(1) by (auto simp: fw_sound_def mdim_replicate mget_replicate intro: routed.direct)
qed (auto intro: fw_relax_sound assms(2))

section \<open>The adjacency matrix\<close>

text \<open>Host \<open>i\<close> of the table has a link to host \<open>j\<close> with round trip time \<open>w\<close>.\<close>

definition link_weight :: "routing \<Rightarrow> nat \<Rightarrow> nat \<Rightarrow> u32 \<Rightarrow> bool" where
  "link_weight s i j w \<longleftrightarrow>
     (\<exists>h l. hheap s (host_list s ! i) = Some h \<and> l \<in> set (links_of h) \<and>
        l_dst l = host_list s ! j \<and> l_rtt_us l = w)"

definition row_adj :: "routing \<Rightarrow> u32 list list \<Rightarrow> nat \<Rightarrow> bool" where
  "row_adj s p i \<longleftrightarrow>
     mget p i i = PATH_MIN \<and>
     (\<forall>j<length (host_list s). j \<noteq> i \<longrightarrow>
        (if \<exists>w. link_weight s i j w then link_weight s i j (mget p i j) else mget p i j = PATH_DISCON))"

lemma adj_link_step:
  assumes wf: "rt_wf s" and "l_dst l \<in> set (host_list s)"
  obtains d where "d < length (host_list s)" "host_list s ! d = l_dst l"
    "adj_link s i l path = Some (mput path i d (l_rtt_us l))"
proof -
  from assms(2) obtain d where d: "d < length (host_list s)" "host_list s ! d = l_dst l"
    by (metis in_set_conv_nth)
  from rt_wf_hostE[OF wf assms(2)] obtain m where m: "host_mac s (l_dst l) = Some m" by metis
  with d have "find_host_by_addr s m = Some (Some d)"
    by (intro find_host_by_addr_own[OF wf]) simp_all
  with m d show thesis by (intro that[of d]) (simp_all add: adj_link_def link_mac_def)
qed

lemma adj_links:
  assumes wf: "rt_wf s" and i: "i < length (host_list s)" and "mdim (length (host_list s)) path"
    and "\<forall>l\<in>set ls. l_dst l \<in> set (host_list s) \<and> l_dst l \<noteq> host_list s ! i"
  shows "\<exists>path'. foldM (adj_link s i) ls path = Some path' \<and> mdim (length (host_list s)) path' \<and>
    (\<forall>a b. a \<noteq> i \<longrightarrow> mget path' a b = mget path a b) \<and> mget path' i i = mget path i i \<and>
    (\<forall>j<length (host_list s).
       (\<exists>l\<in>set ls. l_dst l = host_list s ! j \<and> mget path' i j = l_rtt_us l) \<or>
       (\<forall>l\<in>set ls. l_dst l \<noteq> host_list s ! j) \<and> mget path' i j = mget path i j)"
  using assms(3,4)
proof (induction ls arbitrary: path)
  case (Cons l ls)
  let ?n = "length (host_list s)"
  from Cons.prems obtain d where d: "d < ?n" "host_list s ! d = l_dst l"
    "adj_link s i l path = Some (mput path i d (l_rtt_us l))"
    by (auto intro: adj_link_step[OF wf])
  let ?p = "mput path i d (l_rtt_us l)"
  have dim: "mdim ?n ?p" using Cons.prems(1) i by (rule mdim_mput)
  have get: "mget ?p a b = (if a = i \<and> b = d then l_rtt_us l else mget path a b)" for a b
    using Cons.prems(1) i d(1) by (rule mget_mput)
  have di: "d \<noteq> i" using d Cons.prems(2) by auto
  have inj: "j = d" if "host_list s ! j = l_dst l" "j < ?n" for j
    using rt_wf_index_inj[OF wf that(2) d(1)] that d by simp
  from Cons.IH[OF dim] Cons.prems(2) obtain path' where p': "foldM (adj_link s i) ls ?p = Some path'"
    "mdim ?n path'" "\<forall>a b. a \<noteq> i \<longrightarrow> mget path' a b = mget ?p a b" "mget path' i i = mget ?p i i"
    "\<forall>j<?n. (\<exists>l\<in>set ls. l_dst l = host_list s ! j \<and> mget path' i j = l_rtt_us l) \<or>
       (\<forall>l\<in>set ls. l_dst l \<noteq> host_list s ! j) \<and> mget path' i j = mget ?p i j"
    by auto
  show ?case
  proof (intro exI[of _ path'] conjI)
    show "foldM (adj_link s i) (l # ls) path = Some path'" using d(3) p'(1) by simp
    show "mget path' i i = mget path i i" using p'(4) di by (simp add: get)
    show "\<forall>j<?n. (\<exists>l\<in>set (l # ls). l_dst l = host_list s ! j \<and> mget path' i j = l_rtt_us l) \<or>
       (\<forall>l\<in>set (l # ls). l_dst l \<noteq> host_list s ! j) \<and> mget path' i j = mget path i j"
    proof (intro allI impI)
      fix j assume j: "j < ?n"
      show "(\<exists>l\<in>set (l # ls). l_dst l = host_list s ! j \<and> mget path' i j = l_rtt_us l) \<or>
       (\<forall>l\<in>set (l # ls). l_dst l \<noteq> host_list s ! j) \<and> mget path' i j = mget path i j"
      proof (cases "j = d")
        case True
        with p'(5)[rule_format, OF j] d(2) show ?thesis by (auto simp: get)
      next
        case False
        with inj[of j] j have "l_dst l \<noteq> host_list s ! j" by metis
        with False p'(5)[rule_format, OF j] show ?thesis by (auto simp: get)
      qed
    qed
  qed (use p'(2,3) in \<open>simp_all add: get\<close>)
qed simp

lemma index_to_host_list:
  assumes "da_wf (hosts s)" and "i < length (host_list s)"
  shows "index_to_host s i = Some (host_list s ! i)"
  using assms by (auto simp: index_to_host_def da_wf_def length_da_list da_list_nth)

text \<open>Row \<open>i\<close>: the self-path and one entry for each host that host \<open>i\<close> links to.\<close>

lemma adj_host_row:
  assumes wf: "rt_wf s" and i: "i < length (host_list s)" and dim: "mdim (length (host_list s)) path"
    and zero: "\<forall>j<length (host_list s). mget path i j = PATH_DISCON"
  shows "\<exists>path'. adj_host s i path = Some path' \<and> mdim (length (host_list s)) path' \<and>
    (\<forall>a b. a \<noteq> i \<longrightarrow> mget path' a b = mget path a b) \<and> row_adj s path' i"
proof -
  let ?n = "length (host_list s)" and ?p = "mput path i i PATH_MIN"
  have p: "host_list s ! i \<in> set (host_list s)" using i by simp
  from rt_wf_hostE[OF wf p] obtain h where h: "hheap s (host_list s ! i) = Some h"
    "host_wf s (host_list s ! i) h" by blast
  then have lk: "\<forall>l\<in>set (links_of h). l_dst l \<in> set (host_list s) \<and> l_dst l \<noteq> host_list s ! i"
    by (simp add: host_wf_def links_wf_def)
  have get: "mget ?p a b = (if a = i \<and> b = i then PATH_MIN else mget path a b)" for a b
    using dim i i by (rule mget_mput)
  from adj_links[OF wf i mdim_mput[OF dim i] lk] obtain path' where
    p': "foldM (adj_link s i) (links_of h) ?p = Some path'" "mdim ?n path'"
    "\<forall>a b. a \<noteq> i \<longrightarrow> mget path' a b = mget ?p a b" "mget path' i i = mget ?p i i"
    "\<forall>j<?n. (\<exists>l\<in>set (links_of h). l_dst l = host_list s ! j \<and> mget path' i j = l_rtt_us l) \<or>
       (\<forall>l\<in>set (links_of h). l_dst l \<noteq> host_list s ! j) \<and> mget path' i j = mget ?p i j"
    by blast
  have "row_adj s path' i"
    using p'(4,5) zero h(1) by (fastforce simp: row_adj_def link_weight_def get)
  moreover have "adj_host s i path = Some path'"
    using p'(1) h(1) index_to_host_list[OF rt_wf_da[OF wf] i] by (simp add: adj_host_def)
  ultimately show ?thesis using p'(2,3) by (auto simp: get)
qed

lemma adjacency_rows:
  assumes wf: "rt_wf s" and "m \<le> length (host_list s)"
  shows "\<exists>p. foldM (adj_host s) [0..<m]
      (replicate (length (host_list s)) (replicate (length (host_list s)) PATH_DISCON)) = Some p \<and>
    mdim (length (host_list s)) p \<and> (\<forall>i<m. row_adj s p i) \<and>
    (\<forall>i j. m \<le> i \<and> i < length (host_list s) \<and> j < length (host_list s) \<longrightarrow> mget p i j = PATH_DISCON)"
  using assms(2)
proof (induction m)
  case 0
  then show ?case by (simp add: mdim_replicate mget_replicate)
next
  case (Suc m)
  then obtain p where p: "foldM (adj_host s) [0..<m]
      (replicate (length (host_list s)) (replicate (length (host_list s)) PATH_DISCON)) = Some p"
    "mdim (length (host_list s)) p" "\<forall>i<m. row_adj s p i"
    "\<forall>i j. m \<le> i \<and> i < length (host_list s) \<and> j < length (host_list s) \<longrightarrow> mget p i j = PATH_DISCON"
    by auto
  from Suc.prems have m: "m < length (host_list s)" by simp
  with p obtain p' where p': "adj_host s m p = Some p'" "mdim (length (host_list s)) p'"
    "\<forall>a b. a \<noteq> m \<longrightarrow> mget p' a b = mget p a b" "row_adj s p' m"
    using adj_host_row[OF wf m p(2)] by auto
  have "row_adj s p' i" if "i < Suc m" for i
    using that p(3) p'(3,4) by (cases "i = m") (auto simp: row_adj_def)
  moreover have "mget p' i j = PATH_DISCON"
    if "Suc m \<le> i" "i < length (host_list s)" "j < length (host_list s)" for i j
    using that p(4) p'(3) by simp
  ultimately show ?case using p(1) p'(1,2) by (auto simp: foldM_append)
qed

lemma adjacency_correct:
  assumes "rt_wf s"
  obtains p where "adjacency s = Some p" "mdim (length (host_list s)) p"
    "\<forall>i<length (host_list s). row_adj s p i"
proof -
  have "da_ct (hosts s) = length (host_list s)"
    using rt_wf_da[OF assms] by (simp add: length_da_list)
  with adjacency_rows[OF assms order_refl] that show thesis
    by (auto simp: adjacency_def Let_def)
qed

section \<open>\<open>compute_paths\<close> as a whole\<close>

lemma find_host_by_addr_frame [simp]:
  "find_host_by_addr (s\<lparr>m_ct := c\<rparr>) = find_host_by_addr s"
  "find_host_by_addr (s\<lparr>mats := d\<rparr>) = find_host_by_addr s"
  "find_host_by_addr (s\<lparr>edges := e\<rparr>) = find_host_by_addr s"
  "find_host_by_addr (s\<lparr>lock := f\<rparr>) = find_host_by_addr s"
  "find_host_by_addr (s\<lparr>allocs := al\<rparr>) = find_host_by_addr s"
  by (simp_all add: find_host_by_addr_def fun_eq_iff)

lemma index_to_host_frame [simp]:
  "index_to_host (s\<lparr>m_ct := c\<rparr>) = index_to_host s" "index_to_host (s\<lparr>mats := d\<rparr>) = index_to_host s"
  "index_to_host (s\<lparr>edges := e\<rparr>) = index_to_host s" "index_to_host (s\<lparr>lock := f\<rparr>) = index_to_host s"
  "index_to_host (s\<lparr>allocs := al\<rparr>) = index_to_host s"
  by (simp_all add: index_to_host_def fun_eq_iff)

lemma adj_link_frame [simp]:
  "adj_link (s\<lparr>m_ct := c\<rparr>) = adj_link s" "adj_link (s\<lparr>mats := d\<rparr>) = adj_link s"
  "adj_link (s\<lparr>edges := e\<rparr>) = adj_link s" "adj_link (s\<lparr>lock := f\<rparr>) = adj_link s"
  "adj_link (s\<lparr>allocs := al\<rparr>) = adj_link s"
  by (simp_all add: adj_link_def fun_eq_iff)

lemma adj_host_frame [simp]:
  "adj_host (s\<lparr>m_ct := c\<rparr>) = adj_host s" "adj_host (s\<lparr>mats := d\<rparr>) = adj_host s"
  "adj_host (s\<lparr>edges := e\<rparr>) = adj_host s" "adj_host (s\<lparr>lock := f\<rparr>) = adj_host s"
  "adj_host (s\<lparr>allocs := al\<rparr>) = adj_host s"
  by (simp_all add: adj_host_def fun_eq_iff)

lemma adjacency_frame [simp]:
  "adjacency (s\<lparr>m_ct := c\<rparr>) = adjacency s" "adjacency (s\<lparr>mats := d\<rparr>) = adjacency s"
  "adjacency (s\<lparr>edges := e\<rparr>) = adjacency s" "adjacency (s\<lparr>lock := f\<rparr>) = adjacency s"
  "adjacency (s\<lparr>allocs := al\<rparr>) = adjacency s"
  by (simp_all add: adjacency_def)

text \<open>The matrices are the result of the loop on the present hosts and links.\<close>

definition paths_current :: "routing \<Rightarrow> bool" where
  "paths_current s \<longleftrightarrow>
     (\<exists>p0 p nx. adjacency s = Some p0 \<and> mats s = M_Valid p nx \<and> m_ct s = da_ct (hosts s) \<and>
        floyd_warshall (da_ct (hosts s))
          (p0, replicate (da_ct (hosts s)) (replicate (da_ct (hosts s)) NEXT_DISCON)) = (p, nx))"

lemma alloc_rows_ret: "alloc_rows n al = (ret, al') \<Longrightarrow> ret \<noteq> 0 \<Longrightarrow> ret < 0"
  by (induction n al rule: alloc_rows.induct) (auto split: prod.splits if_splits)

lemma compute_paths_cases:
  assumes wf: "rt_wf s" and live: "mats s \<noteq> M_Dangling"
  obtains (fail) ret al c where "ret < 0"
      "compute_paths s = Some (ret, s\<lparr>allocs := al, mats := mats_abandon (mats s), m_ct := c\<rparr>)"
  | (ok) al p nx where
      "compute_paths s = Some (0, s\<lparr>allocs := al, m_ct := da_ct (hosts s), mats := M_Valid p nx\<rparr>)"
      "paths_current (s\<lparr>allocs := al, m_ct := da_ct (hosts s), mats := M_Valid p nx\<rparr>)"
proof -
  obtain ok1 al1 where a1: "alloc (allocs s) = (ok1, al1)" by (cases "alloc (allocs s)")
  obtain ok2 al2 where a2: "alloc al1 = (ok2, al2)" by (cases "alloc al1")
  obtain ret al3 where a3: "alloc_rows (da_ct (hosts s)) al2 = (ret, al3)"
    by (cases "alloc_rows (da_ct (hosts s)) al2")
  note neg = alloc_rows_ret[OF a3]
  consider "\<not> ok1" | "ok1" "\<not> ok2" | "ok1" "ok2" "ret \<noteq> 0" | "ok1" "ok2" "ret = 0" by blast
  then show thesis
  proof cases
    case 4
    from adjacency_correct[OF wf] obtain p0 where p0: "adjacency s = Some p0" by blast
    obtain p nx where fw: "floyd_warshall (da_ct (hosts s))
        (p0, replicate (da_ct (hosts s)) (replicate (da_ct (hosts s)) NEXT_DISCON)) = (p, nx)"
      by fastforce
    show thesis
      by (rule that(2)[where al = al3 and p = p and nx = nx])
        (use 4 a1 a2 a3 assms p0 fw in \<open>auto simp: compute_paths_def Let_def paths_current_def\<close>)
  next
    case 1
    with a1 live show thesis
      by (intro that(1)[where ret = "- 1" and al = al1 and c = "m_ct s"]) (simp_all add: compute_paths_def)
  next
    case 2
    with a1 a2 live show thesis
      by (intro that(1)[where ret = "- 2" and al = al2 and c = "m_ct s"]) (simp_all add: compute_paths_def)
  next
    case 3
    with a1 a2 a3 live neg show thesis
      by (intro that(1)[where ret = ret and al = al3 and c = 0]) (simp_all add: compute_paths_def)
  qed
qed

text \<open>What current matrices say about the hosts and links.\<close>

lemma paths_currentE:
  assumes "rt_wf s" and "paths_current s"
  obtains p0 p nx where "mats s = M_Valid p nx" "m_ct s = length (host_list s)"
    "fw_inv (length (host_list s)) p0 (p, nx)" "\<forall>i<length (host_list s). row_adj s p0 i"
    "mdim (length (host_list s)) p0"
    "(p, nx) = floyd_warshall (length (host_list s)) (p0, replicate (length (host_list s))
       (replicate (length (host_list s)) NEXT_DISCON))"
proof -
  have n: "da_ct (hosts s) = length (host_list s)"
    using rt_wf_da[OF assms(1)] by (simp add: length_da_list)
  from assms(2) obtain p0 p nx where p: "adjacency s = Some p0" "mats s = M_Valid p nx"
    "m_ct s = length (host_list s)" "(p, nx) = floyd_warshall (length (host_list s))
       (p0, replicate (length (host_list s)) (replicate (length (host_list s)) NEXT_DISCON))"
    by (auto simp: paths_current_def n)
  from adjacency_correct[OF assms(1)] p(1) have a: "mdim (length (host_list s)) p0"
    "\<forall>i<length (host_list s). row_adj s p0 i" by auto
  have "fw_inv (length (host_list s)) p0 (p, nx)"
    unfolding p(4) by (rule floyd_warshall_inv[OF fw_inv_init[OF a(1)]])
  with p a that show thesis by blast
qed

text \<open>
  The loop connects exactly the pairs that a link connects already: for a pair without one,
  \<open>path[i][j]\<close> is \<open>PATH_DISCON = 0\<close> and no sum is less than \<open>0\<close>.
\<close>

lemma path_entry:
  assumes "rt_wf s" and "paths_current s" and "mats s = M_Valid p nx"
    and i: "i < length (host_list s)" and j: "j < length (host_list s)"
  obtains (self) "i = j" "mget p i j = PATH_MIN"
  | (linked) w where "i \<noteq> j" "link_weight s i j w" "mget p i j = 0 \<longleftrightarrow> w = 0" "mget p i j \<le> w"
  | (apart) "i \<noteq> j" "\<nexists>w. link_weight s i j w" "mget p i j = PATH_DISCON"
proof -
  from paths_currentE[OF assms(1,2)] assms(3) obtain p0 where
    inv: "fw_inv (length (host_list s)) p0 (p, nx)" and row: "\<forall>i<length (host_list s). row_adj s p0 i"
    by (metis matrices.inject)
  have e: "mget p i j = 0 \<longleftrightarrow> mget p0 i j = 0" "mget p i j \<le> mget p0 i j"
    using fw_invD(3)[OF inv i j] by (auto simp: fw_entry_def)
  have r: "row_adj s p0 i" using row i by blast
  consider "i = j" | "i \<noteq> j" "\<exists>w. link_weight s i j w" | "i \<noteq> j" "\<nexists>w. link_weight s i j w" by blast
  then show thesis
  proof cases
    case 1
    with r e have "mget p i j \<noteq> 0" "mget p i j \<le> 1" by (auto simp: row_adj_def PATH_MIN_def)
    then have "unat (mget p i j) = 1" by (simp add: word_le_nat_alt le_Suc_eq unat_eq_zero)
    then have "mget p i j = 1" by (metis unat_1 word_unat_eq_iff)
    with 1 show thesis by (auto simp: PATH_MIN_def intro: self)
  next
    case 2
    with r j have "link_weight s i j (mget p0 i j)" by (auto simp: row_adj_def)
    with 2 e show thesis by (auto intro: linked)
  next
    case 3
    with r j e show thesis by (auto simp: row_adj_def PATH_DISCON_def intro: apart)
  qed
qed

end
