(* ===== verification/Routing_Cache.thy ===== *)
theory Routing_Cache
  imports Routing_Paths
begin

text \<open>
  \<open>update_cache\<close> of src/routing.c, which every change of the routing data ends with: trimming of
  the hosts that the previous matrices show unreachable, recomputation of the matrices, and the
  list of edges that is sent to the peers.  \<open>print_matrix\<close>, which \<open>update_cache\<close> calls last,
  only prints the matrices and is left out.
\<close>

section \<open>Definitions\<close>

text \<open>\<open>rd->path[i][j]\<close> and \<open>rd->next[i][j]\<close>\<close>

definition path_at :: "routing \<Rightarrow> nat \<Rightarrow> nat \<Rightarrow> u32 option" where
  "path_at s i j =
     (case mats s of
        M_Valid p nx \<Rightarrow> if i < length p \<and> j < length (p ! i) then Some (mget p i j) else None
      | _ \<Rightarrow> None)"

definition next_at :: "routing \<Rightarrow> nat \<Rightarrow> nat \<Rightarrow> nat option" where
  "next_at s i j =
     (case mats s of
        M_Valid p nx \<Rightarrow> if i < length nx \<and> j < length (nx ! i) then Some (mget nx i j) else None
      | _ \<Rightarrow> None)"

text \<open>The loop of \<open>trim_host\<close>: each host loses a link to the host at \<open>h\<close>, if it has one.\<close>

definition trim_links :: "hptr \<Rightarrow> nat \<Rightarrow> routing \<Rightarrow> routing option" where
  "trim_links h i s = do {
     pos_src \<leftarrow> index_to_host s i;
     src \<leftarrow> hheap s pos_src;
     mac \<leftarrow> host_mac s h;
     link \<leftarrow> find_link_by_addr s (h_links src) mac;
     case link of None \<Rightarrow> Some s | Some j \<Rightarrow> link_remove s pos_src j
   }"

text \<open>
  \<open>trim_host (rd, h)\<close> with \<open>h\<close> the slot \<open>i\<close> of the table.  After \<open>host_remove\<close> the slot is read
  again, for \<open>free_host (*h)\<close>.
\<close>

definition trim_host :: "routing \<Rightarrow> nat \<Rightarrow> routing option" where
  "trim_host s i = do {
     p \<leftarrow> index_to_host s i;
     h \<leftarrow> hheap s p;
     if h_type h \<noteq> HT_NORMAL then do { _ \<leftarrow> host_mac s p; Some s }
     else do {
       s1 \<leftarrow> foldM (trim_links p) [0..<da_ct (hosts s)] s;
       let s2 = host_remove s1 i;
       q \<leftarrow> index_to_host s2 i;
       free_host s2 q
     }
   }"

text \<open>The body of the loop of \<open>trim_disjoint_hosts\<close>; \<open>rd->hosts.ct\<close> is read anew each time.\<close>

definition trim_step :: "nat \<Rightarrow> nat \<Rightarrow> routing \<Rightarrow> routing option" where
  "trim_step src_i dst_i s =
     (if dst_i < da_ct (hosts s) then do {
        path \<leftarrow> path_at s src_i dst_i;
        if path = 0 \<and> dst_i \<noteq> src_i then do {
          h \<leftarrow> index_to_host s dst_i;
          _ \<leftarrow> host_mac s h;
          trim_host s dst_i
        } else Some s
      } else Some s)"

definition trim_disjoint_hosts :: "routing \<Rightarrow> (int \<times> routing) option" where
  "trim_disjoint_hosts s = do {
     lp \<leftarrow> local_host s;
     mac \<leftarrow> host_mac s lp;
     src \<leftarrow> find_host_by_addr s mac;
     if m_ct s \<noteq> da_ct (hosts s) then Some (1, s)
     else do {
       src_i \<leftarrow> src;
       s' \<leftarrow> foldM (trim_step src_i) [0..<da_ct (hosts s)] s;
       Some (0, s')
     }
   }"

text \<open>
  \<open>update_exported_edges\<close>: the state of the loops is the value to return, nonzero once an
  append failed, and the routing data.
\<close>

definition export_link ::
  "nat \<Rightarrow> pkt_ipv4_host \<Rightarrow> nat \<times> rt_link \<Rightarrow> int \<times> routing \<Rightarrow> (int \<times> routing) option" where
  "export_link i src = (\<lambda>(j, link) (ret, s).
     if ret \<noteq> 0 then Some (ret, s)
     else do {
       x \<leftarrow> path_at s i j;
       if x = 0 then Some (0, s)
       else do {
         d \<leftarrow> hheap s (l_dst link);
         dip \<leftarrow> ipheap s (h_host d);
         let new_edge = \<lparr>e_src = src, e_dst = pkt_ipv4_pack dip,
                         e_rtt_us = htonl (l_rtt_us link), e_ts_ms = htonll (l_ts_ms link)\<rparr>;
         let (fail, es, al) = DA_ADD_TO_END (edges s) new_edge (allocs s);
         Some (if fail then - 1 else 0, s\<lparr>edges := es, allocs := al\<rparr>)
       }
     })"

definition export_host :: "nat \<Rightarrow> int \<times> routing \<Rightarrow> (int \<times> routing) option" where
  "export_host i = (\<lambda>(ret, s).
     if ret \<noteq> 0 then Some (ret, s)
     else do {
       p \<leftarrow> index_to_host s i;
       h \<leftarrow> hheap s p;
       ip \<leftarrow> ipheap s (h_host h);
       foldM (export_link i (pkt_ipv4_pack ip)) (enumerate 0 (links_of h)) (0, s)
     })"

definition update_exported_edges :: "routing \<Rightarrow> (int \<times> routing) option" where
  "update_exported_edges s = foldM export_host [0..<da_ct (hosts s)] (0, s)"

definition update_cache :: "routing \<Rightarrow> (int \<times> routing) option" where
  "update_cache s = do {
     (ret, s1) \<leftarrow> trim_disjoint_hosts s;
     if ret < 0 then Some (ret, s1)
     else do {
       (ret, s2) \<leftarrow> compute_paths s1;
       if ret < 0 then Some (ret, s2)
       else do {
         (ret, s3) \<leftarrow> update_exported_edges s2;
         if ret < 0 then Some (ret, s3) else Some (0, s3)
       }
     }
   }"

section \<open>Trimming\<close>

text \<open>The fields that trimming does not touch.\<close>

definition same_cache :: "routing \<Rightarrow> routing \<Rightarrow> bool" where
  "same_cache s s' \<longleftrightarrow>
     local_host s' = local_host s \<and> m_ct s' = m_ct s \<and> mats s' = mats s \<and> edges s' = edges s \<and>
     lock s' = lock s \<and> allocs s' = allocs s \<and> brk s' = brk s"

lemma same_cache_refl [simp]: "same_cache s s"
  by (simp add: same_cache_def)

lemma same_cache_trans: "same_cache s t \<Longrightarrow> same_cache t u \<Longrightarrow> same_cache s u"
  by (simp add: same_cache_def)

lemma link_remove_same_cache:
  "link_remove s p j = Some s' \<Longrightarrow> same_cache s s' \<and> hosts s' = hosts s \<and> ipheap s' = ipheap s"
  by (auto simp: link_remove_def bind_Some_iff same_cache_def)

lemma trim_links_same_cache:
  "trim_links h i s = Some s' \<Longrightarrow> same_cache s s' \<and> hosts s' = hosts s"
  by (auto simp: trim_links_def bind_Some_iff link_remove_same_cache split: option.splits)

lemma free_hostE:
  assumes "free_host s p = Some s'"
  obtains h a where "hheap s p = Some h" "h_host h = IP_Heap a"
    "s' = s\<lparr>ipheap := (ipheap s)(IP_Heap a := None), hheap := (hheap s)(p := None)\<rparr>"
proof -
  from assms obtain h where "hheap s p = Some h" by (auto simp: free_host_def bind_Some_iff)
  with assms that show thesis
    by (cases "h_host h") (auto simp: free_host_def bind_Some_iff)
qed

lemma free_host_same_cache:
  "free_host s p = Some s' \<Longrightarrow> same_cache s s' \<and> hosts s' = hosts s"
  by (auto simp: same_cache_def elim: free_hostE)

lemma trim_host_same_cache:
  assumes "trim_host s i = Some s'"
  shows "same_cache s s'"
proof -
  have "same_cache s s1" if "foldM (trim_links p) xs s = Some s1" for p xs s1
    using that
    by (rule foldM_invariant) (auto intro: same_cache_trans dest: trim_links_same_cache)
  then have "same_cache s (host_remove s1 i)" if "foldM (trim_links p) xs s = Some s1" for p xs s1
    using that by (fastforce simp: host_remove_def same_cache_def)
  then show ?thesis
    using assms
    by (auto simp: trim_host_def bind_Some_iff Let_def
        dest!: free_host_same_cache split: if_splits) (meson same_cache_trans)
qed

lemma trim_step_same_cache: "trim_step a b s = Some s' \<Longrightarrow> same_cache s s'"
  by (auto simp: trim_step_def bind_Some_iff trim_host_same_cache split: if_splits)

text \<open>What a pass of \<open>trim_links\<close> leaves of every host: all but links.\<close>

definition same_hosts :: "routing \<Rightarrow> routing \<Rightarrow> bool" where
  "same_hosts s s' \<longleftrightarrow>
     hosts s' = hosts s \<and> ipheap s' = ipheap s \<and>
     (\<forall>q. hheap s q = None \<longrightarrow> hheap s' q = None) \<and>
     (\<forall>q g. hheap s q = Some g \<longrightarrow>
        (\<exists>g'. hheap s' q = Some g' \<and> h_host g' = h_host g \<and> h_type g' = h_type g))"

lemma same_hosts_refl [simp]: "same_hosts s s"
  by (simp add: same_hosts_def)

lemma same_hosts_step:
  assumes same: "same_hosts s t" and p: "hheap t p = Some g"
  shows "same_hosts s (set_host p (g\<lparr>h_links := ls\<rparr>) t)"
proof -
  have "q \<noteq> p" if "hheap s q = None" for q
    using that same p by (auto simp: same_hosts_def)
  moreover have "h_host g = h_host f \<and> h_type g = h_type f" if "hheap s p = Some f" for f
    using that same p by (fastforce simp: same_hosts_def)
  ultimately show ?thesis using same by (simp add: same_hosts_def)
qed

lemma trim_links_wf:
  assumes wf: "rt_wf t" and same: "same_hosts s t" and h: "h \<in> set (host_list t)"
    and i: "i < length (host_list t)"
  shows "\<exists>t'. trim_links h i t = Some t' \<and> rt_wf t' \<and> same_hosts s t'"
proof -
  let ?p = "host_list t ! i"
  have p: "?p \<in> set (host_list t)" using i by simp
  from rt_wf_hostE[OF wf p] obtain g where g: "hheap t ?p = Some g" "host_wf t ?p g" by blast
  from rt_wf_hostE[OF wf h] obtain m where m: "host_mac t h = Some m" by metis
  have idx: "index_to_host t i = Some ?p" using rt_wf_da[OF wf] i by (rule index_to_host_list)
  from g(2) have ls: "da_wf (h_links g)" "ascending (link_mac t) (links_of g)"
    by (auto simp: host_wf_def links_wf_def)
  show ?thesis
  proof (cases rule: find_link_by_addr_cases[OF ls, of m])
    case (1 j)
    from link_remove_wf[OF wf p g(1) 1(2)] obtain t' where t': "link_remove t ?p j = Some t'" "rt_wf t'"
      by blast
    then have "same_hosts s t'"
      using g(1) same_hosts_step[OF same g(1)] by (auto simp: link_remove_def)
    with t' 1 g(1) m idx show ?thesis by (auto simp: trim_links_def)
  next
    case 2
    with g(1) m idx wf same show ?thesis by (auto simp: trim_links_def)
  qed
qed

lemma trim_loop_wf:
  assumes wf: "rt_wf s" and h: "h \<in> set (host_list s)"
  shows "\<exists>s1. foldM (trim_links h) [0..<da_ct (hosts s)] s = Some s1 \<and> rt_wf s1 \<and> same_hosts s s1"
proof -
  have "\<exists>s1. foldM (trim_links h) [0..<da_ct (hosts s)] s = Some s1 \<and> (rt_wf s1 \<and> same_hosts s s1)"
  proof (rule foldM_total)
    fix i t assume "i \<in> set [0..<da_ct (hosts s)]" and t: "rt_wf t \<and> same_hosts s t"
    then have "hosts t = hosts s" "i < length (host_list t)"
      using rt_wf_da[OF wf] by (auto simp: same_hosts_def length_da_list)
    with t h show "\<exists>t'. trim_links h i t = Some t' \<and> rt_wf t' \<and> same_hosts s t'"
      by (intro trim_links_wf) auto
  qed (simp add: wf)
  then show ?thesis by blast
qed

text \<open>A table that holds a freed host: everything that follows fails on it.\<close>

definition broken :: "nat \<Rightarrow> hptr \<Rightarrow> routing \<Rightarrow> bool" where
  "broken i q s \<longleftrightarrow> i < da_ct (hosts s) \<and> index_to_host s i = Some q \<and> hheap s q = None"

lemma broken_adjacency: "broken i q s \<Longrightarrow> adjacency s = None"
  unfolding adjacency_def Let_def
  by (rule foldM_None[where x = i and P = "\<lambda>_. True"]) (auto simp: broken_def adj_host_def)

lemma broken_trim_links:
  assumes "broken i q s" and "trim_links h j s = Some s'"
  shows "broken i q s'"
proof -
  have "hheap s' q = None"
    using assms by (auto simp: trim_links_def broken_def link_remove_def bind_Some_iff
        split: option.splits)
  then show ?thesis
    using assms(1) trim_links_same_cache[OF assms(2)]
    by (auto simp: broken_def index_to_host_def split: if_splits)
qed

lemma broken_trim_host:
  assumes b: "broken i q s" and "trim_host s d = Some s'"
  shows "s' = s"
proof (rule ccontr)
  assume "s' \<noteq> s"
  with assms(2) obtain p s1 where "foldM (trim_links p) [0..<da_ct (hosts s)] s = Some s1"
    by (auto simp: trim_host_def bind_Some_iff split: if_splits)
  moreover have "foldM (trim_links p) [0..<da_ct (hosts s)] s = None"
  proof (rule foldM_None[where x = i and P = "broken i q"])
    show "i \<in> set [0..<da_ct (hosts s)]" using b by (simp add: broken_def)
    show "trim_links p i t = None" if "broken i q t" for t
      using that by (simp add: broken_def trim_links_def)
  qed (use b broken_trim_links in blast)+
  ultimately show False by simp
qed

lemma broken_trim_step: "broken i q s \<Longrightarrow> trim_step a b s = Some s' \<Longrightarrow> s' = s"
  by (auto simp: trim_step_def bind_Some_iff dest: broken_trim_host split: if_splits)

text \<open>Taking a host that nobody links to out of the table and freeing it.\<close>

lemma rt_wf_drop:
  assumes wf: "rt_wf s" and i: "i < length (host_list s)" and p: "p = host_list s ! i"
    and h: "hheap s p = Some h" "h_host h = IP_Heap a" "h_type h = HT_NORMAL"
    and nolink: "\<And>q g l. q \<in> set (host_list s) \<Longrightarrow> q \<noteq> p \<Longrightarrow> hheap s q = Some g \<Longrightarrow>
      l \<in> set (links_of g) \<Longrightarrow> l_dst l \<noteq> p"
  shows "rt_wf (s\<lparr>hosts := DA_REMOVE (hosts s) i, ipheap := (ipheap s)(IP_Heap a := None),
    hheap := (hheap s)(p := None)\<rparr>)" (is "rt_wf ?s")
proof -
  note rm = da.remove_elems[OF rt_wf_da[OF wf] i]
  have set': "set (host_list ?s) = set (host_list s) - {p}"
    using rm set_remove_nth_distinct[OF rt_wf_distinct_hosts[OF wf] i] by (simp add: p)
  have mem: "p \<in> set (host_list s)" using i by (simp add: p)
  have hp: "hheap ?s q = hheap s q" "host_mac ?s q = host_mac s q"
    if q: "q \<in> set (host_list s)" "q \<noteq> p" for q
  proof -
    show "hheap ?s q = hheap s q" using q by simp
    from rt_wf_hostE[OF wf q(1)] obtain g where g: "hheap s q = Some g" by blast
    have "h_host g \<noteq> IP_Heap a"
      using rt_wf_ip_inj[OF wf q(1) mem g h(1)] q(2) h(2) by auto
    with g q show "host_mac ?s q = host_mac s q" by (simp add: host_mac_def)
  qed
  have lw: "links_wf ?s q (h_links g)" and dl: "h_type g = HT_LOCAL \<Longrightarrow> direct_links ?s (h_links g)"
    if q: "q \<in> set (host_list s)" "q \<noteq> p" "hheap s q = Some g" for q g
  proof -
    have dst: "l_dst l \<in> set (host_list s)" "l_dst l \<noteq> p" "l_dst l \<noteq> q" if "l \<in> set (links_of g)" for l
      using rt_wf_links[OF wf q(1,3)] nolink[OF q] that by (auto simp: links_wf_def)
    have "\<forall>l\<in>set (links_of g). link_mac ?s l = link_mac s l"
      using dst hp(2) by (simp add: link_mac_def)
    then have "ascending (link_mac ?s) (links_of g)"
      using rt_wf_links[OF wf q(1,3)] ascending_cong[of "links_of g" "link_mac ?s" "link_mac s"]
      by (simp add: links_wf_def)
    then show "links_wf ?s q (h_links g)"
      unfolding links_wf_def set' using rt_wf_links[OF wf q(1,3)] dst by (simp add: links_wf_def)
    show "direct_links ?s (h_links g)" if "h_type g = HT_LOCAL"
      using rt_wf_host[OF wf q(1,3)] that dst by (simp add: host_wf_def direct_links_def)
  qed
  have hw: "\<exists>g. hheap ?s q = Some g \<and> host_wf ?s q g" if "q \<in> set (host_list ?s)" for q
  proof -
    have q: "q \<in> set (host_list s)" "q \<noteq> p" using that by (simp_all only: set') auto
    from rt_wf_hostE[OF wf q(1)] obtain g where g: "hheap s q = Some g" "host_wf s q g" by blast
    with lw[OF q g(1)] dl[OF q g(1)] q(2) show ?thesis by (auto simp: host_wf_def)
  qed
  have "keyed (host_mac ?s) (host_list ?s)"
    using rt_wf_ascending[OF wf] hp(2) unfolding keyed_def ascending_def set' by auto
  moreover have eq: "map (host_mac ?s) (host_list ?s) = remove_nth i (map (host_mac s) (host_list s))"
  proof -
    have "map (host_mac ?s) (host_list ?s) = map (host_mac s) (host_list ?s)"
      by (rule map_cong[OF refl]) (use hp(2) in \<open>simp only: set'\<close>, blast)
    with rm show ?thesis by (simp add: map_remove_nth)
  qed
  moreover have "map (the \<circ> host_mac ?s) (host_list ?s) = remove_nth i (map (the \<circ> host_mac s) (host_list s))"
    using arg_cong[OF eq, of "map the"] by (simp add: map_remove_nth)
  ultimately have "ascending (host_mac ?s) (host_list ?s)" "distinct (map (host_mac ?s) (host_list ?s))"
    using rt_wf_ascending[OF wf] rt_wf_distinct[OF wf]
    by (simp_all only: ascending_def remove_nth_sorted remove_nth_distinct simp_thms)
  moreover from wf obtain q g where q: "local_host s = Some q" "q \<in> set (host_list s)"
    "hheap s q = Some g" "h_type g = HT_LOCAL" by (rule rt_wf_localE)
  then have "local_host ?s = Some q \<and> q \<in> set (host_list ?s) \<and> hheap ?s q = Some g \<and> h_type g = HT_LOCAL"
    unfolding set' using h by auto
  moreover have "heap_wf ?s" using rt_wf_heap[OF wf] by (simp add: heap_wf_def)
  ultimately show ?thesis using rm hw unfolding rt_wf_def by auto
qed

text \<open>A link to a freed host makes the adjacency matrix fail.\<close>

lemma dangling_adjacency:
  assumes "index_to_host s k = Some q" and "k < da_ct (hosts s)" and "hheap s q = Some g"
    and "l \<in> set (links_of g)" and "hheap s (l_dst l) = None"
  shows "adjacency s = None"
  unfolding adjacency_def Let_def
proof (rule foldM_None[where x = k and P = "\<lambda>_. True"])
  fix path
  have "foldM (adj_link s k) (links_of g) (mput path k k PATH_MIN) = None"
    by (rule foldM_None[where x = l and P = "\<lambda>_. True"])
      (use assms in \<open>auto simp: adj_link_def link_mac_def host_mac_def\<close>)
  with assms(1,3) show "adj_host s k path = None" by (simp add: adj_host_def)
qed (use assms(2) in auto)

text \<open>Trimming the last host of the table: the state that \<open>trim_host\<close> leaves.\<close>

abbreviation dropped :: "routing \<Rightarrow> nat \<Rightarrow> hptr \<Rightarrow> nat \<Rightarrow> routing" where
  "dropped s i p a \<equiv> s\<lparr>hosts := DA_REMOVE (hosts s) i, ipheap := (ipheap s)(IP_Heap a := None),
     hheap := (hheap s)(p := None)\<rparr>"

lemma trim_host_last_form:
  assumes wf: "rt_wf s" and i: "i + 1 = length (host_list s)"
    and h: "hheap s (host_list s ! i) = Some h" "h_type h = HT_NORMAL"
  obtains s1 g a where "foldM (trim_links (host_list s ! i)) [0..<da_ct (hosts s)] s = Some s1"
    "rt_wf s1" "same_hosts s s1" "hheap s1 (host_list s ! i) = Some g" "h_type g = HT_NORMAL"
    "h_host g = IP_Heap a" "trim_host s i = Some (dropped s1 i (host_list s ! i) a)"
proof -
  let ?p = "host_list s ! i"
  have i': "i < length (host_list s)" and mem: "?p \<in> set (host_list s)" using i by simp_all
  have ct: "da_ct (hosts s) = i + 1" using rt_wf_da[OF wf] i by (simp add: length_da_list)
  from trim_loop_wf[OF wf mem] obtain s1 where s1: "rt_wf s1" "same_hosts s s1"
    "foldM (trim_links ?p) [0..<da_ct (hosts s)] s = Some s1" by blast
  from s1(2) have hs: "hosts s1 = hosts s" by (simp add: same_hosts_def)
  from s1(2) h obtain g where g: "hheap s1 ?p = Some g" "h_type g = HT_NORMAL"
    by (fastforce simp: same_hosts_def)
  with rt_wf_host[OF s1(1), of ?p g] mem obtain a where a: "h_host g = IP_Heap a"
    by (auto simp: hs host_wf_def split: ip_ptr.splits)
  have "?p \<in> set (host_list s1)" using mem by (simp add: hs)
  from rt_wf_hostE[OF s1(1) this] obtain m where "host_mac s1 ?p = Some m" by blast
  with g a have ip: "ipheap s1 (IP_Heap a) \<noteq> None" by (auto simp: host_mac_def bind_Some_iff)
  have slot: "index_to_host (host_remove s1 i) i = Some ?p"
    using DA_REMOVE_slot[OF rt_wf_da[OF wf], of i] da_wf_slot[OF rt_wf_da[OF wf], of i] ct
    by (simp add: index_to_host_def host_remove_def hs)
  have idx: "index_to_host s i = Some ?p" using index_to_host_list[OF rt_wf_da[OF wf] i'] .
  have "trim_host s i = Some (dropped s1 i ?p a)"
    using idx h s1(3) slot g(1) a ip
    by (auto simp: trim_host_def free_host_def host_remove_def)
  with s1 g a show thesis by (intro that)
qed

lemma trim_host_last:
  assumes wf: "rt_wf s" and i: "i + 1 = length (host_list s)"
    and h: "hheap s (host_list s ! i) = Some h" "h_type h = HT_NORMAL"
  shows "\<exists>s'. trim_host s i = Some s' \<and> da_ct (hosts s') = i \<and> (rt_wf s' \<or> adjacency s' = None)"
proof -
  let ?p = "host_list s ! i"
  obtain s1 g a where s1: "rt_wf s1" "same_hosts s s1" "hheap s1 ?p = Some g" "h_type g = HT_NORMAL"
    "h_host g = IP_Heap a" and res: "trim_host s i = Some (dropped s1 i ?p a)"
    by (rule trim_host_last_form[OF assms])
  from s1(2) have hs: "hosts s1 = hosts s" by (simp add: same_hosts_def)
  let ?s = "dropped s1 i ?p a"
  have i': "i < length (host_list s)" using i by simp
  have ct': "da_ct (hosts ?s) = i"
    using rt_wf_da[OF wf] i by (simp add: hs DA_REMOVE_ct length_da_list)
  show ?thesis
  proof (cases "\<exists>q g' l. q \<in> set (host_list s1) \<and> q \<noteq> ?p \<and> hheap s1 q = Some g' \<and>
      l \<in> set (links_of g') \<and> l_dst l = ?p")
    case True
    then obtain q g' l where q: "q \<in> set (host_list s1)" "q \<noteq> ?p" "hheap s1 q = Some g'"
      "l \<in> set (links_of g')" "l_dst l = ?p" by blast
    have rm: "da_wf (hosts ?s)" "host_list ?s = remove_nth i (host_list s)"
      using da.remove_elems[OF rt_wf_da[OF wf] i'] by (simp_all add: hs)
    have "q \<in> set (host_list ?s)"
      using q(1,2) set_remove_nth_distinct[OF rt_wf_distinct_hosts[OF wf] i'] rm(2) by (simp add: hs)
    then obtain k where k: "k < length (host_list ?s)" "host_list ?s ! k = q"
      by (metis in_set_conv_nth)
    have "adjacency ?s = None"
      by (rule dangling_adjacency[of _ k q g' l])
        (use q k index_to_host_list[OF rm(1) k(1)] length_da_list[OF rm(1)] in simp_all)
    with res ct' show ?thesis by blast
  next
    case False
    with s1 i' have "rt_wf ?s" by (intro rt_wf_drop[OF s1(1)]) (auto simp: hs)
    with res ct' show ?thesis by blast
  qed
qed

text \<open>
  Trimming any other host frees the next one: the removal has moved it into the slot that
  \<open>free_host (*h)\<close> reads.
\<close>

lemma trim_host_inner_form:
  assumes wf: "rt_wf s" and i: "i + 1 < length (host_list s)"
    and h: "hheap s (host_list s ! i) = Some h" "h_type h = HT_NORMAL"
  obtains s1 where "rt_wf s1" "same_hosts s s1" "index_to_host (host_remove s1 i) i = Some (host_list s ! (i + 1))"
    "trim_host s i = free_host (host_remove s1 i) (host_list s ! (i + 1))"
proof -
  let ?p = "host_list s ! i" and ?q = "host_list s ! (i + 1)"
  have i': "i < length (host_list s)" and mem: "?p \<in> set (host_list s)" using i by simp_all
  have ct: "i + 1 < da_ct (hosts s)" using rt_wf_da[OF wf] i by (simp add: length_da_list)
  from trim_loop_wf[OF wf mem] obtain s1 where s1: "rt_wf s1" "same_hosts s s1"
    "foldM (trim_links ?p) [0..<da_ct (hosts s)] s = Some s1" by blast
  from s1(2) have hs: "hosts s1 = hosts s" by (simp add: same_hosts_def)
  have slot: "index_to_host (host_remove s1 i) i = Some ?q"
    using DA_REMOVE_slot[OF rt_wf_da[OF wf], of i] da_wf_slot[OF rt_wf_da[OF wf], of i] ct
    by (simp add: index_to_host_def host_remove_def hs)
  have "trim_host s i = free_host (host_remove s1 i) ?q"
    using index_to_host_list[OF rt_wf_da[OF wf] i'] h s1(3) slot by (simp add: trim_host_def)
  with s1 slot show thesis by (intro that)
qed

lemma trim_host_inner:
  assumes wf: "rt_wf s" and i: "i + 1 < length (host_list s)"
    and h: "hheap s (host_list s ! i) = Some h" "h_type h = HT_NORMAL"
    and res: "trim_host s i = Some s'"
  shows "broken i (host_list s ! (i + 1)) s'"
proof -
  let ?q = "host_list s ! (i + 1)"
  obtain s1 where s1: "rt_wf s1" "same_hosts s s1" "index_to_host (host_remove s1 i) i = Some ?q"
    "trim_host s i = free_host (host_remove s1 i) ?q" by (rule trim_host_inner_form[OF wf i h])
  have ct: "i + 1 < da_ct (hosts s1)" using rt_wf_da[OF wf] i s1(2) by (simp add: length_da_list same_hosts_def)
  have "hosts s' = hosts (host_remove s1 i)" "hheap s' ?q = None" using res s1(4) by (auto elim: free_hostE)
  with s1(3) ct show ?thesis
    by (auto simp: broken_def index_to_host_def host_remove_def DA_REMOVE_ct split: if_splits)
qed

text \<open>
  The trimmed host itself stays allocated.  A successor whose address is not in a block of its own
  cannot be freed at all.
\<close>

lemma trim_host_leaks:
  assumes wf: "rt_wf s" and i: "i + 1 < length (host_list s)"
    and h: "hheap s (host_list s ! i) = Some h" "h_type h = HT_NORMAL"
    and g: "hheap s (host_list s ! (i + 1)) = Some g"
  shows "if h_type g = HT_NORMAL
    then \<exists>s'. trim_host s i = Some s' \<and> host_list s' = remove_nth i (host_list s) \<and>
      hheap s' (host_list s ! (i + 1)) = None \<and> hheap s' (host_list s ! i) \<noteq> None
    else trim_host s i = None"
proof -
  let ?p = "host_list s ! i" and ?q = "host_list s ! (i + 1)"
  obtain s1 where s1: "rt_wf s1" "same_hosts s s1" "trim_host s i = free_host (host_remove s1 i) ?q"
    by (rule trim_host_inner_form[OF wf i h])
  from s1(2) have hs: "hosts s1 = hosts s" by (simp add: same_hosts_def)
  have mem: "?q \<in> set (host_list s1)" using i by (simp add: hs)
  from s1(2) g obtain g' where g': "hheap s1 ?q = Some g'" "h_host g' = h_host g" "h_type g' = h_type g"
    unfolding same_hosts_def by blast
  have p: "hheap s1 ?p \<noteq> None" using s1(2) h(1) unfolding same_hosts_def by blast
  have fit: "ptr_fits (h_type g') (h_host g')" using rt_wf_host[OF s1(1) mem g'(1)] by (simp add: host_wf_def)
  have i': "i < length (host_list s)" using i by simp
  have ne: "?p \<noteq> ?q" using rt_wf_distinct_hosts[OF wf] i by (auto simp: nth_eq_iff_index_eq)
  show ?thesis
  proof (cases "h_type g")
    case HT_NORMAL
    with fit g'(3) obtain a where a: "h_host g' = IP_Heap a" by (auto split: ip_ptr.splits)
    from rt_wf_hostE[OF s1(1) mem] obtain m where "host_mac s1 ?q = Some m" by blast
    with g'(1) a have "ipheap s1 (IP_Heap a) \<noteq> None" by (auto simp: host_mac_def bind_Some_iff)
    with g'(1) a ne p HT_NORMAL s1(3) da.remove_elems[OF rt_wf_da[OF wf] i'] show ?thesis
      by (auto simp: free_host_def host_remove_def hs)
  qed (use fit g' s1(3) in \<open>auto simp: free_host_def host_remove_def split: ip_ptr.splits\<close>)
qed

text \<open>The loop of \<open>trim_disjoint_hosts\<close>, step by step.\<close>

lemma trim_loop_outcome:
  assumes wf: "rt_wf s" and "k \<le> da_ct (hosts s)" and "foldM (trim_step a) [0..<k] s = Some s'"
  shows "s' = s \<or> (\<exists>i q. broken i q s') \<or>
    (da_ct (hosts s') \<le> k \<and> (rt_wf s' \<or> adjacency s' = None))"
  using assms(2,3)
proof (induction k arbitrary: s')
  case (Suc k)
  then obtain t where t: "foldM (trim_step a) [0..<k] s = Some t" "trim_step a k t = Some s'"
    by (auto simp: foldM_append bind_Some_iff)
  from Suc.IH[OF _ t(1)] Suc.prems(1)
  consider "t = s" | i q where "broken i q t"
    | "da_ct (hosts t) \<le> k" "rt_wf t \<or> adjacency t = None" by fastforce
  then show ?case
  proof cases
    case 1
    have k: "k < length (host_list s)" using Suc.prems(1) rt_wf_da[OF wf] by (simp add: length_da_list)
    from rt_wf_hostE[OF wf, of "host_list s ! k"] k obtain h where h: "hheap s (host_list s ! k) = Some h"
      by auto
    show ?thesis
    proof (cases "s' = s")
      case False
      with t(2) 1 have res: "trim_host s k = Some s'"
        by (auto simp: trim_step_def bind_Some_iff split: if_splits)
      with False h have normal: "h_type h = HT_NORMAL"
        using index_to_host_list[OF rt_wf_da[OF wf] k]
        by (auto simp: trim_host_def bind_Some_iff split: if_splits)
      show ?thesis
      proof (cases "k + 1 = length (host_list s)")
        case True
        from trim_host_last[OF wf True h normal] res show ?thesis by auto
      next
        case False
        with k have "k + 1 < length (host_list s)" by simp
        from trim_host_inner[OF wf this h normal res] show ?thesis by blast
      qed
    qed simp
  next
    case 2
    with broken_trim_step[OF 2 t(2)] show ?thesis by auto
  next
    case 3
    with t(2) show ?thesis by (auto simp: trim_step_def)
  qed
qed simp

lemma trim_disjoint_hosts_outcome:
  assumes "rt_wf s" and "trim_disjoint_hosts s = Some (ret, s')"
  shows "same_cache s s'" and "rt_wf s' \<or> adjacency s' = None" and "ret = 0 \<or> ret = 1 \<and> s' = s"
proof -
  from assms(2) consider "ret = 1" "s' = s" | a where "ret = 0"
    "foldM (trim_step a) [0..<da_ct (hosts s)] s = Some s'"
    by (auto simp: trim_disjoint_hosts_def bind_Some_iff split: if_splits)
  note cases = this
  then show "ret = 0 \<or> ret = 1 \<and> s' = s" by cases auto
  from cases show "rt_wf s' \<or> adjacency s' = None"
  proof cases
    case (2 a)
    from trim_loop_outcome[OF assms(1) order_refl 2(2)] assms(1)
    show ?thesis by (auto dest: broken_adjacency)
  qed (use assms(1) in simp)
  from cases show "same_cache s s'"
    by cases (auto elim!: foldM_invariant intro: same_cache_trans trim_step_same_cache)
qed

subsection \<open>What trimming leaves alone\<close>

text \<open>The local host with its links, and every host that is not \<open>HT_NORMAL\<close>.\<close>

definition keeps_direct :: "routing \<Rightarrow> routing \<Rightarrow> bool" where
  "keeps_direct s s' \<longleftrightarrow>
     local_host s' = local_host s \<and>
     (\<forall>p. local_host s = Some p \<longrightarrow> hheap s' p = hheap s p) \<and>
     (\<forall>q g. q \<in> set (host_list s) \<longrightarrow> hheap s q = Some g \<longrightarrow> h_type g \<noteq> HT_NORMAL \<longrightarrow>
        q \<in> set (host_list s') \<and> host_mac s' q = host_mac s q \<and>
        (\<exists>g'. hheap s' q = Some g' \<and> h_type g' = h_type g \<and> h_host g' = h_host g))"

lemma keeps_direct_refl [simp]: "keeps_direct s s"
  by (simp add: keeps_direct_def)

lemma keeps_direct_frame [simp]:
  "keeps_direct s (s'\<lparr>edges := es\<rparr>) = keeps_direct s s'" "keeps_direct s (s'\<lparr>allocs := al\<rparr>) = keeps_direct s s'"
  "keeps_direct s (s'\<lparr>m_ct := c\<rparr>) = keeps_direct s s'" "keeps_direct s (s'\<lparr>mats := m\<rparr>) = keeps_direct s s'"
  "keeps_direct s (s'\<lparr>lock := l\<rparr>) = keeps_direct s s'"
  by (simp_all add: keeps_direct_def)

lemma trim_links_local:
  assumes wf: "rt_wf t" and h: "h \<in> set (host_list t)" "hheap t h = Some g" "h_type g = HT_NORMAL"
    and loc: "local_host t = Some p" and i: "i < length (host_list t)"
    and res: "trim_links h i t = Some t'"
  shows "hheap t' p = hheap t p"
proof (cases "host_list t ! i = p")
  case True
  obtain f where f: "p \<in> set (host_list t)" "hheap t p = Some f" "h_type f = HT_LOCAL"
    by (rule rt_wf_localE[OF wf]) (use loc in auto)
  have dl: "direct_links t (h_links f)" and lw: "links_wf t p (h_links f)"
    using rt_wf_host[OF wf f(1,2)] f(3) by (auto simp: host_wf_def)
  obtain m where m: "host_mac t h = Some m" by (rule rt_wf_hostE[OF wf h(1)])
  have "link_mac t l \<noteq> Some m" if "l \<in> set (links_of f)" for l
  proof
    assume "link_mac t l = Some m"
    then have "l_dst l = h"
      using rt_wf_mac_inj[OF wf _ h(1), of "l_dst l"] m that lw by (simp add: link_mac_def links_wf_def)
    with dl that h show False by (auto simp: direct_links_def)
  qed
  then have "find_link_by_addr t (h_links f) m = Some None"
    using find_link_by_addr_cases[of "h_links f" t m] lw by (metis links_wf_def nth_mem)
  with True res f(2) m show ?thesis
    using index_to_host_list[OF rt_wf_da[OF wf] i] by (simp add: trim_links_def)
next
  case False
  with res index_to_host_list[OF rt_wf_da[OF wf] i] show ?thesis
    by (auto simp: trim_links_def link_remove_def bind_Some_iff split: option.splits)
qed

lemma trim_links_loop_local:
  assumes wf: "rt_wf s" and h: "h \<in> set (host_list s)" "hheap s h = Some g" "h_type g = HT_NORMAL"
    and loc: "local_host s = Some p" and res: "foldM (trim_links h) [0..<da_ct (hosts s)] s = Some s'"
  shows "hheap s' p = hheap s p \<and> local_host s' = local_host s"
proof -
  have "rt_wf s' \<and> same_hosts s s' \<and> local_host s' = local_host s \<and> hheap s' p = hheap s p"
    using res
  proof (rule foldM_invariant)
    fix i t t' assume i: "i \<in> set [0..<da_ct (hosts s)]" and r: "trim_links h i t = Some t'"
      and t: "rt_wf t \<and> same_hosts s t \<and> local_host t = local_host s \<and> hheap t p = hheap s p"
    from t have hs: "hosts t = hosts s" by (simp add: same_hosts_def)
    from t h obtain g' where g': "hheap t h = Some g'" "h_type g' = HT_NORMAL"
      by (fastforce simp: same_hosts_def)
    have i': "i < length (host_list t)" using i rt_wf_da[OF wf] by (simp add: hs length_da_list)
    have "rt_wf t' \<and> same_hosts s t'"
      using trim_links_wf[of t s h i] t h(1) i' r hs by auto
    moreover have "hheap t' p = hheap t p"
      by (rule trim_links_local[OF _ _ g' _ i' r]) (use t h(1) hs loc in auto)
    ultimately show "rt_wf t' \<and> same_hosts s t' \<and> local_host t' = local_host s \<and> hheap t' p = hheap s p"
      using t trim_links_same_cache[OF r] by (simp add: same_cache_def)
  qed (use wf in simp)
  then show ?thesis by blast
qed

lemma trim_host_last_keeps:
  assumes wf: "rt_wf s" and i: "i + 1 = length (host_list s)"
    and h: "hheap s (host_list s ! i) = Some h" "h_type h = HT_NORMAL"
    and res: "trim_host s i = Some s'"
  shows "keeps_direct s s'"
proof -
  let ?p = "host_list s ! i"
  obtain s1 g a where s1: "foldM (trim_links ?p) [0..<da_ct (hosts s)] s = Some s1" "rt_wf s1"
    "same_hosts s s1" "hheap s1 ?p = Some g" "h_host g = IP_Heap a"
    and r: "trim_host s i = Some (dropped s1 i ?p a)"
    by (rule trim_host_last_form[OF wf i h])
  from res r have s': "s' = dropped s1 i ?p a" by simp
  have i': "i < length (host_list s)" and mem: "?p \<in> set (host_list s)" using i by simp_all
  obtain lp lh where lp: "local_host s = Some lp" "hheap s lp = Some lh" "h_type lh = HT_LOCAL"
    by (rule rt_wf_localE[OF wf])
  note loc = trim_links_loop_local[OF wf mem h lp(1) s1(1)]
  have hs: "hosts s1 = hosts s" "ipheap s1 = ipheap s" using s1(3) by (simp_all add: same_hosts_def)
  have set: "set (host_list s') = set (host_list s) - {?p}"
    using da.remove_elems[OF rt_wf_da[OF wf] i'] set_remove_nth_distinct[OF rt_wf_distinct_hosts[OF wf] i']
    by (simp add: s' hs)
  have "q \<in> set (host_list s') \<and> host_mac s' q = host_mac s q \<and>
      (\<exists>f'. hheap s' q = Some f' \<and> h_type f' = h_type f \<and> h_host f' = h_host f)"
    if q: "q \<in> set (host_list s)" "hheap s q = Some f" "h_type f \<noteq> HT_NORMAL" for q f
  proof -
    have ne: "q \<noteq> ?p" using q h by auto
    from s1(3) q(2) obtain f' where f': "hheap s1 q = Some f'" "h_host f' = h_host f" "h_type f' = h_type f"
      unfolding same_hosts_def by blast
    have "h_host f \<noteq> IP_Heap a"
      using rt_wf_ip_inj[OF s1(2), of q ?p f' g] q(1) mem f' s1(4,5) ne by (auto simp: hs)
    with ne f' q set show ?thesis by (simp add: s' host_mac_def hs)
  qed
  then show ?thesis
    using loc lp h by (auto simp: keeps_direct_def s')
qed

lemma trim_loop_keeps:
  assumes wf: "rt_wf s" and "k \<le> da_ct (hosts s)" and "foldM (trim_step a) [0..<k] s = Some s'"
    and adj: "adjacency s' \<noteq> None"
  shows "s' = s \<or> keeps_direct s s' \<and> da_ct (hosts s') \<le> k"
  using assms(2-)
proof (induction k arbitrary: s')
  case (Suc k)
  then obtain t where t: "foldM (trim_step a) [0..<k] s = Some t" "trim_step a k t = Some s'"
    by (auto simp: foldM_append bind_Some_iff)
  from trim_loop_outcome[OF wf _ t(1)] Suc.prems(1)
  consider "t = s" | i q where "broken i q t" | "da_ct (hosts t) \<le> k" by fastforce
  then show ?case
  proof cases
    case 1
    have k: "k < length (host_list s)" using Suc.prems(1) rt_wf_da[OF wf] by (simp add: length_da_list)
    from rt_wf_hostE[OF wf, of "host_list s ! k"] k obtain h where h: "hheap s (host_list s ! k) = Some h"
      by auto
    show ?thesis
    proof (cases "s' = s")
      case False
      with t(2) 1 have res: "trim_host s k = Some s'"
        by (auto simp: trim_step_def bind_Some_iff split: if_splits)
      with False h have normal: "h_type h = HT_NORMAL"
        using index_to_host_list[OF rt_wf_da[OF wf] k]
        by (auto simp: trim_host_def bind_Some_iff split: if_splits)
      have last: "k + 1 = length (host_list s)"
        using trim_host_inner[OF wf _ h normal res] broken_adjacency Suc.prems(3) k by fastforce
      from trim_host_last_keeps[OF wf last h normal res] trim_host_last[OF wf last h normal] res
      show ?thesis by auto
    qed simp
  next
    case 2
    with broken_trim_step[OF 2 t(2)] broken_adjacency[OF 2] Suc.prems(3) show ?thesis by simp
  next
    case 3
    with t(2) have "s' = t" by (auto simp: trim_step_def)
    with Suc.IH[OF _ t(1)] Suc.prems show ?thesis by auto
  qed
qed simp

lemma trim_disjoint_hosts_keeps:
  assumes "rt_wf s" and "trim_disjoint_hosts s = Some (ret, s')" and "adjacency s' \<noteq> None"
  shows "keeps_direct s s'"
proof -
  from assms(2) consider "s' = s" | a where "foldM (trim_step a) [0..<da_ct (hosts s)] s = Some s'"
    by (auto simp: trim_disjoint_hosts_def bind_Some_iff split: if_splits)
  then show ?thesis
  proof cases
    case (2 a)
    with trim_loop_keeps[OF assms(1) order_refl 2 assms(3)] show ?thesis by auto
  qed simp
qed

section \<open>Exported edges\<close>

text \<open>The edges that one pass appends, as a list.\<close>

definition edge_of :: "routing \<Rightarrow> pkt_ipv4_host \<Rightarrow> rt_link \<Rightarrow> pkt_edge option" where
  "edge_of s src link = do {
     d \<leftarrow> hheap s (l_dst link);
     dip \<leftarrow> ipheap s (h_host d);
     Some \<lparr>e_src = src, e_dst = pkt_ipv4_pack dip, e_rtt_us = htonl (l_rtt_us link),
           e_ts_ms = htonll (l_ts_ms link)\<rparr>
   }"

definition link_edges :: "routing \<Rightarrow> nat \<Rightarrow> pkt_ipv4_host \<Rightarrow> (nat \<times> rt_link) list \<Rightarrow> pkt_edge list" where
  "link_edges s i src xs =
     concat (map (\<lambda>(j, l). if path_at s i j = Some 0 then [] else [the (edge_of s src l)]) xs)"

definition host_edges :: "routing \<Rightarrow> nat \<Rightarrow> pkt_edge list" where
  "host_edges s i = the (do {
     p \<leftarrow> index_to_host s i;
     h \<leftarrow> hheap s p;
     ip \<leftarrow> ipheap s (h_host h);
     Some (link_edges s i (pkt_ipv4_pack ip) (enumerate 0 (links_of h)))
   })"

definition exported :: "routing \<Rightarrow> pkt_edge list" where
  "exported s = concat (map (host_edges s) [0..<da_ct (hosts s)])"

text \<open>The state of the loops: only the edges and the allocator change, and edges are only appended.\<close>

abbreviation with_edges :: "routing \<Rightarrow> pkt_edge da \<Rightarrow> allocs \<Rightarrow> routing" where
  "with_edges s es al \<equiv> s\<lparr>edges := es, allocs := al\<rparr>"

lemma path_at_frame [simp]:
  "path_at (s\<lparr>edges := es\<rparr>) = path_at s" "path_at (s\<lparr>allocs := al\<rparr>) = path_at s"
  "path_at (s\<lparr>lock := l\<rparr>) = path_at s"
  by (simp_all add: path_at_def fun_eq_iff)

lemma export_stopped: "ret \<noteq> 0 \<Longrightarrow> foldM (export_link i src) xs (ret, t) = Some (ret, t)"
  "ret \<noteq> 0 \<Longrightarrow> foldM export_host ks (ret, t) = Some (ret, t)"
  by (rule foldM_idle, simp add: export_link_def split: prod.split) (rule foldM_idle, simp add: export_host_def)

lemma export_link_step:
  assumes "export_link i src (j, l) (0, with_edges s es al) = Some (ret, t)" and "da_wf es"
  obtains es' al' where "t = with_edges s es' al'" "da_wf es'"
    "ret = 0 \<and> da_list es' = da_list es @ link_edges s i src [(j, l)] \<or> ret = - 1 \<and> es' = es"
proof -
  from assms(1) obtain x where x: "path_at s i j = Some x"
    by (auto simp: export_link_def bind_Some_iff)
  show thesis
  proof (cases "x = 0")
    case True
    with x assms show thesis
      by (intro that[where es' = es and al' = al]) (auto simp: export_link_def link_edges_def)
  next
    case False
    with x assms(1) obtain d dip where d: "hheap s (l_dst l) = Some d" "ipheap s (h_host d) = Some dip"
      by (auto simp: export_link_def bind_Some_iff)
    let ?e = "\<lparr>e_src = src, e_dst = pkt_ipv4_pack dip, e_rtt_us = htonl (l_rtt_us l),
      e_ts_ms = htonll (l_ts_ms l)\<rparr>"
    obtain fl es' al' where add: "DA_ADD_TO_END es ?e al = (fl, es', al')"
      by (cases "DA_ADD_TO_END es ?e al")
    with x False d assms(1) have t: "t = with_edges s es' al'" "ret = (if fl then - 1 else 0)"
      by (simp_all add: export_link_def)
    have "edge_of s src l = Some ?e" using d by (simp add: edge_of_def)
    with False x t add assms(2) show thesis
      using da.add_ok[OF assms(2)] da.add_fail[OF assms(2)] da.add_inv[OF assms(2) add]
      by (intro that[where es' = es' and al' = al']) (auto simp: link_edges_def)
  qed
qed

lemma link_edges_Cons: "link_edges s i src (x # xs) = link_edges s i src [x] @ link_edges s i src xs"
  by (simp add: link_edges_def)

lemma export_links_append:
  assumes "foldM (export_link i src) xs (0, with_edges s es al) = Some (ret, t)" and "da_wf es"
  shows "\<exists>es' al' ys. t = with_edges s es' al' \<and> da_wf es' \<and> da_list es' = da_list es @ ys \<and>
    (ret = 0 \<and> ys = link_edges s i src xs \<or> ret = - 1)"
  using assms
proof (induction xs arbitrary: es al)
  case Nil
  then show ?case by (auto simp: link_edges_def)
next
  case (Cons x xs)
  obtain j l where x: "x = (j, l)" by (cases x)
  from Cons.prems(1) obtain r u where u: "export_link i src (j, l) (0, with_edges s es al) = Some (r, u)"
    "foldM (export_link i src) xs (r, u) = Some (ret, t)" by (auto simp: x bind_Some_iff)
  from export_link_step[OF u(1) Cons.prems(2)] obtain es1 al1 where es1: "u = with_edges s es1 al1"
    "da_wf es1" "r = 0 \<and> da_list es1 = da_list es @ link_edges s i src [(j, l)] \<or> r = - 1 \<and> es1 = es" .
  from es1(3) show ?case
  proof
    assume r: "r = 0 \<and> da_list es1 = da_list es @ link_edges s i src [(j, l)]"
    from Cons.IH[where es = es1 and al = al1] u(2) r es1(1,2) show ?case
      by (auto simp: x link_edges_Cons[of s i src "(j, l)" xs])
  next
    assume "r = - 1 \<and> es1 = es"
    with u(2) es1(1,2) show ?case by (auto simp: export_stopped)
  qed
qed

lemma export_hosts_append:
  assumes "foldM export_host ks (0, with_edges s es al) = Some (ret, t)" and "da_wf es"
  shows "\<exists>es' al' ys. t = with_edges s es' al' \<and> da_wf es' \<and> da_list es' = da_list es @ ys \<and>
    (ret = 0 \<and> ys = concat (map (host_edges s) ks) \<or> ret = - 1)"
  using assms
proof (induction ks arbitrary: es al)
  case (Cons i ks)
  from Cons.prems(1) obtain r u where u: "export_host i (0, with_edges s es al) = Some (r, u)"
    "foldM export_host ks (r, u) = Some (ret, t)" by (auto simp: bind_Some_iff)
  from u(1) obtain p h ip where p: "index_to_host s i = Some p" "hheap s p = Some h"
    "ipheap s (h_host h) = Some ip"
    "foldM (export_link i (pkt_ipv4_pack ip)) (enumerate 0 (links_of h)) (0, with_edges s es al) = Some (r, u)"
    by (auto simp: export_host_def bind_Some_iff)
  from export_links_append[OF p(4) Cons.prems(2)] obtain es1 al1 ys where es1: "u = with_edges s es1 al1"
    "da_wf es1" "da_list es1 = da_list es @ ys" "r = 0 \<and> ys = host_edges s i \<or> r = - 1"
    using p by (auto simp: host_edges_def)
  from es1(4) show ?case
  proof
    assume "r = 0 \<and> ys = host_edges s i"
    with Cons.IH[where es = es1 and al = al1] u(2) es1 show ?case by auto
  next
    assume "r = - 1"
    with u(2) es1 show ?case by (auto simp: export_stopped)
  qed
qed auto

text \<open>Nothing ever empties \<open>rd->edges\<close>: each pass appends all edges to those of the passes before.\<close>

lemma update_exported_edges_append:
  assumes "update_exported_edges s = Some (ret, s')" and "da_wf (edges s)"
  obtains es al ys where "s' = with_edges s es al" "da_wf es" "da_list es = da_list (edges s) @ ys"
    "ret = 0 \<and> ys = exported s \<or> ret = - 1"
  using export_hosts_append[where s = s and es = "edges s" and al = "allocs s" and
      ks = "[0..<da_ct (hosts s)]"] assms that
  by (auto simp: update_exported_edges_def exported_def)


text \<open>
  A pass indexes \<open>path[i][j]\<close> with \<open>j\<close> the position of a link, so it stays inside the matrix
  when no host has more links than there are hosts.
\<close>

definition few_links :: "routing \<Rightarrow> bool" where
  "few_links s \<longleftrightarrow>
     (\<forall>p\<in>set (host_list s). \<forall>h. hheap s p = Some h \<longrightarrow>
        length (links_of h) \<le> length (host_list s))"

lemma path_at_current:
  assumes "rt_wf s" and "paths_current s" and "i < length (host_list s)" and "j < length (host_list s)"
  obtains p nx where "mats s = M_Valid p nx" "path_at s i j = Some (mget p i j)"
    "next_at s i j = Some (mget nx i j)"
proof -
  obtain p0 p nx where m: "mats s = M_Valid p nx"
    and inv: "fw_inv (length (host_list s)) p0 (p, nx)"
    by (rule paths_currentE[OF assms(1,2)]) (rule that)
  have "mdim (length (host_list s)) p" "mdim (length (host_list s)) nx"
    using fw_invD(1,2)[OF inv] by blast+
  with m assms(3,4) show thesis
    by (intro that[OF m]) (simp_all add: path_at_def next_at_def mdim_def)
qed

lemma export_link_total:
  assumes "path_at s i j = Some x" and "hheap s (l_dst l) = Some d" and "ipheap s (h_host d) = Some ip"
  shows "\<exists>ret' es' al'. export_link i src (j, l) (ret, with_edges s es al) = Some (ret', with_edges s es' al')"
proof (cases "ret = 0 \<and> x \<noteq> 0")
  case True
  let ?e = "\<lparr>e_src = src, e_dst = pkt_ipv4_pack ip, e_rtt_us = htonl (l_rtt_us l),
      e_ts_ms = htonll (l_ts_ms l)\<rparr>"
  obtain fl es' al' where "DA_ADD_TO_END es ?e al = (fl, es', al')" by (cases "DA_ADD_TO_END es ?e al")
  with True assms show ?thesis by (auto simp: export_link_def)
qed (use assms in \<open>auto simp: export_link_def\<close>)

lemma rt_wf_host_ipE:
  assumes "rt_wf s" and "p \<in> set (host_list s)"
  obtains h ip where "hheap s p = Some h" "host_wf s p h" "ipheap s (h_host h) = Some ip"
    "host_mac s p = Some (ip_mac ip)"
  by (rule rt_wf_hostE[OF assms]) (auto simp: host_mac_def bind_Some_iff intro: that)

text \<open>
  The edges by where they come from: a link at place \<open>j\<close> in the list of the host at place \<open>i\<close> of the
  table, provided that \<open>path[i][j]\<close> is not 0.
\<close>

definition exports :: "routing \<Rightarrow> nat \<Rightarrow> nat \<Rightarrow> pkt_edge \<Rightarrow> bool" where
  "exports s i j e \<longleftrightarrow> (\<exists>h src d dst l. i < length (host_list s) \<and> hheap s (host_list s ! i) = Some h \<and>
     ipheap s (h_host h) = Some src \<and> j < length (links_of h) \<and> l = links_of h ! j \<and>
     hheap s (l_dst l) = Some d \<and> ipheap s (h_host d) = Some dst \<and> path_at s i j \<noteq> Some 0 \<and>
     e = \<lparr>e_src = pkt_ipv4_pack src, e_dst = pkt_ipv4_pack dst, e_rtt_us = htonl (l_rtt_us l),
          e_ts_ms = htonll (l_ts_ms l)\<rparr>)"

lemma set_link_edges:
  "e \<in> set (link_edges s i src (enumerate 0 ls)) \<longleftrightarrow>
     (\<exists>j<length ls. path_at s i j \<noteq> Some 0 \<and> e = the (edge_of s src (ls ! j)))"
proof -
  have "e \<in> set (link_edges s i src (enumerate 0 ls)) \<longleftrightarrow>
      (\<exists>x\<in>set (enumerate 0 ls). path_at s i (fst x) \<noteq> Some 0 \<and> e = the (edge_of s src (snd x)))"
    by (simp add: link_edges_def split_beta cong: conj_cong) blast
  also have "\<dots> \<longleftrightarrow> (\<exists>j<length ls. path_at s i j \<noteq> Some 0 \<and> e = the (edge_of s src (ls ! j)))"
    by (auto simp: in_set_enumerate_eq Bex_def intro: exI[of _ "(j, ls ! j)" for j])
  finally show ?thesis .
qed

lemma set_exported:
  assumes wf: "rt_wf s"
  shows "e \<in> set (exported s) \<longleftrightarrow> (\<exists>i j. exports s i j e)"
proof -
  have ct: "da_ct (hosts s) = length (host_list s)" using length_da_list[OF rt_wf_da[OF wf]] by simp
  have "e \<in> set (host_edges s i) \<longleftrightarrow> (\<exists>j. exports s i j e)" if i: "i < length (host_list s)" for i
  proof -
    have mem: "host_list s ! i \<in> set (host_list s)" using i by simp
    obtain h src where h: "hheap s (host_list s ! i) = Some h" "ipheap s (h_host h) = Some src"
      by (rule rt_wf_host_ipE[OF wf mem])
    have dst: "\<exists>d ip. hheap s (l_dst l) = Some d \<and> ipheap s (h_host d) = Some ip" if "l \<in> set (links_of h)" for l
      using rt_wf_links[OF wf mem h(1)] that rt_wf_host_ipE[OF wf, of "l_dst l"] by (metis links_wf_def)
    have "e \<in> set (host_edges s i) \<longleftrightarrow> (\<exists>j<length (links_of h). path_at s i j \<noteq> Some 0 \<and>
        e = the (edge_of s (pkt_ipv4_pack src) (links_of h ! j)))"
      using h index_to_host_list[OF rt_wf_da[OF wf] i] by (simp add: host_edges_def set_link_edges)
    also have "\<dots> \<longleftrightarrow> (\<exists>j. exports s i j e)"
    proof -
      have "exports s i j e \<longleftrightarrow> path_at s i j \<noteq> Some 0 \<and> e = the (edge_of s (pkt_ipv4_pack src) (links_of h ! j))"
        if j: "j < length (links_of h)" for j
      proof -
        obtain d ip where "hheap s (l_dst (links_of h ! j)) = Some d" "ipheap s (h_host d) = Some ip"
          using dst[of "links_of h ! j"] j by auto
        with h i j show ?thesis by (simp add: exports_def edge_of_def)
      qed
      moreover have "j < length (links_of h)" if "exports s i j e" for j using that h(1) by (auto simp: exports_def)
      ultimately show ?thesis by blast
    qed
    finally show ?thesis .
  qed
  moreover have "i < length (host_list s)" if "exports s i j e" for i j using that by (auto simp: exports_def)
  ultimately show ?thesis by (auto simp: exported_def ct)
qed

lemma export_host_total:
  assumes wf: "rt_wf s" and cur: "paths_current s" and few: "few_links s"
    and i: "i < length (host_list s)"
  shows "\<exists>ret' es' al'. export_host i (ret, with_edges s es al) = Some (ret', with_edges s es' al')"
proof (cases "ret = 0")
  case True
  let ?p = "host_list s ! i"
  have p: "?p \<in> set (host_list s)" using i by simp
  from rt_wf_host_ipE[OF wf p] obtain h ip where h: "hheap s ?p = Some h" "host_wf s ?p h"
    "ipheap s (h_host h) = Some ip" by blast
  have "\<exists>rt. foldM (export_link i (pkt_ipv4_pack ip)) (enumerate 0 (links_of h)) (0, with_edges s es al)
      = Some rt \<and> (\<exists>ret' es' al'. rt = (ret', with_edges s es' al'))"
  proof (rule foldM_total)
    fix x and rt :: "int \<times> routing"
    assume x: "x \<in> set (enumerate 0 (links_of h))"
      and rt: "\<exists>ret' es' al'. rt = (ret', with_edges s es' al')"
    obtain j l where x': "x = (j, l)" by (cases x)
    with x have l: "x = (j, l)" "j < length (links_of h)" "l \<in> set (links_of h)"
      by (auto simp: in_set_enumerate_eq)
    with few p h(1) have j: "j < length (host_list s)" unfolding few_links_def by fastforce
    from path_at_current[OF wf cur i j] obtain y where y: "path_at s i j = Some y" by blast
    from h(2) l(3) have "l_dst l \<in> set (host_list s)" by (simp add: host_wf_def links_wf_def)
    from rt_wf_host_ipE[OF wf this] obtain d dip where
      d: "hheap s (l_dst l) = Some d" "ipheap s (h_host d) = Some dip" by blast
    show "\<exists>s'. export_link i (pkt_ipv4_pack ip) x rt = Some s' \<and>
        (\<exists>ret' es' al'. s' = (ret', with_edges s es' al'))"
      using rt export_link_total[OF y d] unfolding l(1) by blast
  qed blast
  with True h i index_to_host_list[OF rt_wf_da[OF wf] i] show ?thesis
    by (auto simp: export_host_def)
qed (simp add: export_host_def, blast)

lemma update_exported_edges_total:
  assumes "rt_wf s" and "paths_current s" and "few_links s"
  shows "\<exists>ret s'. update_exported_edges s = Some (ret, s')"
proof -
  have "\<exists>rt. foldM export_host [0..<da_ct (hosts s)] (0, with_edges s (edges s) (allocs s)) = Some rt \<and>
      (\<exists>ret' es' al'. rt = (ret', with_edges s es' al'))"
  proof (rule foldM_total)
    fix i and rt :: "int \<times> routing"
    assume "i \<in> set [0..<da_ct (hosts s)]"
      and rt: "\<exists>ret' es' al'. rt = (ret', with_edges s es' al')"
    then have "i < length (host_list s)" using rt_wf_da[OF assms(1)] by (simp add: length_da_list)
    from export_host_total[OF assms this] rt
    show "\<exists>s'. export_host i rt = Some s' \<and> (\<exists>ret' es' al'. s' = (ret', with_edges s es' al'))"
      by blast
  qed blast
  then show ?thesis by (auto simp: update_exported_edges_def)
qed

section \<open>\<open>update_cache\<close>\<close>

lemma exported_frame [simp]: "exported (with_edges s es al) = exported s"
  by (simp add: exported_def host_edges_def [abs_def] link_edges_def edge_of_def cong: if_cong)

lemma paths_current_frame [simp]:
  "paths_current (s\<lparr>edges := es\<rparr>) = paths_current s" "paths_current (s\<lparr>allocs := al\<rparr>) = paths_current s"
  "paths_current (s\<lparr>lock := l\<rparr>) = paths_current s"
  by (simp_all add: paths_current_def)

text \<open>The values that the steps return.\<close>

lemma compute_paths_ret:
  assumes "compute_paths s = Some (ret, s')"
  shows "ret \<le> 0" and "ret = 0 \<Longrightarrow> adjacency s \<noteq> None \<and> mats s \<noteq> M_Dangling"
proof -
  obtain ok1 al1 where a1: "alloc (allocs s) = (ok1, al1)" by (cases "alloc (allocs s)")
  obtain ok2 al2 where a2: "alloc al1 = (ok2, al2)" by (cases "alloc al1")
  obtain r al3 where a3: "alloc_rows (da_ct (hosts s)) al2 = (r, al3)"
    by (cases "alloc_rows (da_ct (hosts s)) al2")
  note assms = assms[unfolded compute_paths_def Let_def a1 a2 a3 prod.case]
  show "ret \<le> 0" "ret = 0 \<Longrightarrow> adjacency s \<noteq> None \<and> mats s \<noteq> M_Dangling"
    using assms alloc_rows_ret[OF a3]
    by (auto simp: bind_Some_iff split_beta split: if_splits)
qed

lemma export_link_ret:
  assumes "export_link i src x (0, s) = Some (ret, s')"
  shows "ret = 0 \<or> ret = - 1"
  using assms by (auto simp: export_link_def bind_Some_iff split_beta Let_def split: if_splits)

lemma export_loop_ret:
  assumes "foldM f xs (ret, s) = Some (ret', s')" and "ret = 0 \<or> ret = - 1"
    and "\<And>x s ret s'. f x (0, s) = Some (ret, s') \<Longrightarrow> ret = 0 \<or> ret = - 1"
    and "\<And>x s. f x (- 1, s) = Some (- 1, s)"
  shows "ret' = (0 :: int) \<or> ret' = - 1"
proof -
  have "fst (ret', s') = 0 \<or> fst (ret', s') = - 1"
    using assms(1)
  proof (rule foldM_invariant)
    fix x and u v :: "int \<times> 'a"
    assume "fst u = 0 \<or> fst u = - 1" "f x u = Some v"
    then show "fst v = 0 \<or> fst v = - 1"
      using assms(3,4) by (cases u; cases v) fastforce
  qed (use assms(2) in simp)
  then show ?thesis by simp
qed

lemma update_exported_edges_ret:
  assumes "update_exported_edges s = Some (ret, s')"
  shows "ret = 0 \<or> ret = - 1"
proof (rule export_loop_ret)
  show "foldM export_host [0..<da_ct (hosts s)] (0, s) = Some (ret, s')"
    using assms by (simp add: update_exported_edges_def)
  fix i t ret t' assume "export_host i (0, t) = Some (ret, t')"
  then obtain h ip where "foldM (export_link i (pkt_ipv4_pack ip)) (enumerate 0 (links_of h)) (0, t) = Some (ret, t')"
    by (auto simp: export_host_def bind_Some_iff)
  then show "ret = 0 \<or> ret = - 1"
    by (rule export_loop_ret) (simp, erule export_link_ret, simp add: export_link_def split: prod.split)
qed (simp_all add: export_host_def)

lemma update_cache_steps:
  assumes wf: "rt_wf s" and res: "update_cache s = Some (0, s')"
  obtains r1 s1 s2 where "trim_disjoint_hosts s = Some (r1, s1)" "compute_paths s1 = Some (0, s2)"
    "update_exported_edges s2 = Some (0, s')"
proof -
  from res obtain r1 s1 where 1: "trim_disjoint_hosts s = Some (r1, s1)"
    by (auto simp: update_cache_def bind_Some_iff)
  have "\<not> r1 < 0" using trim_disjoint_hosts_outcome(3)[OF wf 1] by auto
  with res 1 obtain r2 s2 where 2: "compute_paths s1 = Some (r2, s2)" "\<not> r2 < 0"
    by (auto simp: update_cache_def bind_Some_iff split: if_splits)
  with res 1 \<open>\<not> r1 < 0\<close> obtain r3 where 3: "update_exported_edges s2 = Some (r3, s')" "\<not> r3 < 0"
    by (auto simp: update_cache_def bind_Some_iff split: if_splits)
  have "r2 = 0" "r3 = 0"
    using compute_paths_ret(1)[OF 2(1)] 2(2) update_exported_edges_ret[OF 3(1)] 3(2) by auto
  with that 1 2 3 show thesis by blast
qed

text \<open>
  A call that reports success has restored the invariant: the matrices are those of the present
  table, whatever was trimmed, and the edges are the old ones followed by all present ones.
\<close>

lemma update_cache_ok:
  assumes wf: "rt_wf s" and es: "da_wf (edges s)" and res: "update_cache s = Some (0, s')"
  shows "rt_wf s'" and "paths_current s'" and "da_wf (edges s')"
    and "da_list (edges s') = da_list (edges s) @ exported s'" and "lock s' = lock s"
    and "keeps_direct s s'"
proof -
  from update_cache_steps[OF wf res] obtain r1 s1 s2 where c: "trim_disjoint_hosts s = Some (r1, s1)"
    "compute_paths s1 = Some (0, s2)" "update_exported_edges s2 = Some (0, s')" .
  note trim = trim_disjoint_hosts_outcome[OF wf c(1)]
  have adj: "adjacency s1 \<noteq> None" and live: "mats s1 \<noteq> M_Dangling"
    using compute_paths_ret(2)[OF c(2)] by simp_all
  with trim(2) have wf1: "rt_wf s1" by blast
  have keep: "keeps_direct s s1" by (rule trim_disjoint_hosts_keeps[OF wf c(1) adj])
  have s2: "rt_wf s2 \<and> paths_current s2 \<and> edges s2 = edges s1 \<and> lock s2 = lock s1 \<and> keeps_direct s s2"
    by (rule compute_paths_cases[OF wf1 live]) (use c(2) wf1 keep in auto)
  from trim(1) s2 have eq: "edges s2 = edges s" "lock s2 = lock s" by (simp_all add: same_cache_def)
  have "da_wf (edges s2)" using es eq by simp
  then obtain es al where
    s': "s' = with_edges s2 es al" "da_wf es" "da_list es = da_list (edges s) @ exported s2"
    by (rule update_exported_edges_append[OF c(3)]) (simp add: eq)
  with s2 eq show "rt_wf s'" "paths_current s'" "da_wf (edges s')" "lock s' = lock s"
    "da_list (edges s') = da_list (edges s) @ exported s'" "keeps_direct s s'" by simp_all
qed

subsection \<open>Which hosts are trimmed\<close>

definition is_normal :: "routing \<Rightarrow> nat \<Rightarrow> bool" where
  "is_normal s i \<longleftrightarrow> (\<exists>h. hheap s (host_list s ! i) = Some h \<and> h_type h = HT_NORMAL)"

lemma rt_wf_local_index:
  assumes "rt_wf s"
  obtains c p h m where "c < length (host_list s)" "host_list s ! c = p" "local_host s = Some p"
    "hheap s p = Some h" "h_type h = HT_LOCAL" "host_mac s p = Some m" "host_wf s p h"
    "find_host_by_addr s m = Some (Some c)"
proof -
  obtain p h where p: "local_host s = Some p" "p \<in> set (host_list s)" "hheap s p = Some h"
    "h_type h = HT_LOCAL" by (rule rt_wf_localE[OF assms])
  obtain m where m: "host_mac s p = Some m" by (rule rt_wf_hostE[OF assms p(2)])
  from p(2) obtain c where c: "c < length (host_list s)" "host_list s ! c = p"
    by (auto simp: in_set_conv_nth)
  have "find_host_by_addr s m = Some (Some c)"
    using find_host_by_addr_own[OF assms c(1)] c m by simp
  with p m c rt_wf_host[OF assms p(2,3)] show thesis by (intro that)
qed

text \<open>
  The local host links to direct peers only, and the matrices connect only hosts that are
  linked, so every host that is not a direct peer is recorded as out of reach.
\<close>

lemma normal_unreached:
  assumes wf: "rt_wf s" and cur: "paths_current s"
    and c: "c < length (host_list s)" "local_host s = Some (host_list s ! c)"
    and i: "i < length (host_list s)" "is_normal s i"
  shows "path_at s c i = Some 0" and "i \<noteq> c"
proof -
  obtain p h where p: "local_host s = Some p" "p \<in> set (host_list s)" "hheap s p = Some h"
    "h_type h = HT_LOCAL" by (rule rt_wf_localE[OF wf])
  with c have pc: "host_list s ! c = p" by simp
  with i(2) p show ne: "i \<noteq> c" by (auto simp: is_normal_def)
  from rt_wf_host[OF wf p(2,3)] p(4) have "direct_links s (h_links h)" by (simp add: host_wf_def)
  then have "\<not> link_weight s c i w" for w
    using i(2) p(3) by (auto simp: link_weight_def pc is_normal_def direct_links_def)
  moreover obtain pm nx where m: "mats s = M_Valid pm nx" "path_at s c i = Some (mget pm c i)"
    by (rule path_at_current[OF wf cur c(1) i(1)])
  ultimately show "path_at s c i = Some 0"
    using path_entry[OF wf cur m(1) c(1) i(1)] ne by (auto simp: PATH_DISCON_def)
qed

lemma trim_step_keeps:
  assumes wf: "rt_wf s" and "paths_current s" and c: "c < length (host_list s)"
    and i: "i < length (host_list s)" "\<not> is_normal s i"
  shows "trim_step c i s = Some s"
proof -
  have mem: "host_list s ! i \<in> set (host_list s)" using i(1) by simp
  obtain h m where h: "hheap s (host_list s ! i) = Some h" "host_mac s (host_list s ! i) = Some m"
    by (rule rt_wf_hostE[OF wf mem])
  obtain x where "path_at s c i = Some x" by (rule path_at_current[OF assms(1-3) i(1)])
  moreover have "trim_host s i = Some s"
    using h i(2) index_to_host_list[OF rt_wf_da[OF wf] i(1)] by (auto simp: trim_host_def is_normal_def)
  ultimately show ?thesis
    using h index_to_host_list[OF rt_wf_da[OF wf] i(1)] by (simp add: trim_step_def)
qed

lemma trim_disjoint_hosts_idle:
  assumes wf: "rt_wf s" and "m_ct s = da_ct (hosts s) \<Longrightarrow> paths_current s \<and> (\<forall>i<length (host_list s). \<not> is_normal s i)"
  shows "\<exists>ret. trim_disjoint_hosts s = Some (ret, s) \<and> \<not> ret < 0"
proof -
  obtain c p m where c: "c < length (host_list s)" "host_list s ! c = p" "local_host s = Some p"
    "host_mac s p = Some m" "find_host_by_addr s m = Some (Some c)"
    by (rule rt_wf_local_index[OF wf])
  have "foldM (trim_step c) [0..<da_ct (hosts s)] s = Some s" if "m_ct s = da_ct (hosts s)"
    using assms(2)[OF that] c(1) length_da_list[OF rt_wf_da[OF wf]]
    by (intro foldM_idle ballI trim_step_keeps[OF wf]) auto
  with c show ?thesis by (auto simp: trim_disjoint_hosts_def)
qed

text \<open>Where no host is to be trimmed the call returns.\<close>

lemma update_cache_returns:
  assumes wf: "rt_wf s" and live: "mats s \<noteq> M_Dangling" and few: "few_links s"
    and "m_ct s = da_ct (hosts s) \<Longrightarrow> paths_current s \<and> (\<forall>i<length (host_list s). \<not> is_normal s i)"
  shows "\<exists>ret s'. update_cache s = Some (ret, s')"
proof -
  from trim_disjoint_hosts_idle[OF wf assms(4)] obtain r where
    r: "trim_disjoint_hosts s = Some (r, s)" "\<not> r < 0" by blast
  show ?thesis
  proof (cases rule: compute_paths_cases[OF wf live])
    case (1 ret al c)
    with r show ?thesis by (simp add: update_cache_def)
  next
    case (2 al p nx)
    let ?t = "s\<lparr>allocs := al, m_ct := da_ct (hosts s), mats := M_Valid p nx\<rparr>"
    have "few_links ?t" using few by (simp add: few_links_def)
    with update_exported_edges_total[OF _ 2(2)] wf obtain ret s' where
      "update_exported_edges ?t = Some (ret, s')" by auto
    with r 2(1) show ?thesis by (auto simp: update_cache_def)
  qed
qed

text \<open>
  Where the matrices are current and a host that is not a direct peer is followed by another
  one in the table, the call reads freed memory: the host is trimmed, which frees its successor.
\<close>

lemma trim_loop_broken:
  assumes wf: "rt_wf s" and cur: "paths_current s"
    and c: "c < length (host_list s)" "local_host s = Some (host_list s ! c)"
    and i: "i + 1 < length (host_list s)" "is_normal s i"
    and res: "foldM (trim_step c) [0..<length (host_list s)] s = Some s'"
  shows "\<exists>k q. broken k q s'"
proof -
  obtain k where k: "is_normal s k" "k \<le> i" "\<forall>j<k. \<not> is_normal s j"
    using exists_least_iff[of "is_normal s"] i(2) by (metis not_le)
  let ?n = "length (host_list s)"
  have kn: "k + 1 < ?n" using k(2) i(1) by simp
  have "[0..<?n] = [0..<k] @ k # [k + 1..<?n]"
    using kn upt_add_eq_append[of 0 k "?n - k"] upt_conv_Cons[of k ?n] by simp
  moreover have "foldM (trim_step c) [0..<k] s = Some s"
    using k(3) kn c(1) by (intro foldM_idle ballI trim_step_keeps[OF wf cur]) auto
  ultimately obtain t where t: "trim_step c k s = Some t" "foldM (trim_step c) [k + 1..<?n] t = Some s'"
    using res by (auto simp: foldM_append bind_Some_iff)
  have "k < ?n" using kn by simp
  note un = normal_unreached[OF wf cur c this k(1)]
  from k(1) obtain h where h: "hheap s (host_list s ! k) = Some h" "h_type h = HT_NORMAL"
    by (auto simp: is_normal_def)
  have "trim_host s k = Some t"
    using t(1) un kn length_da_list[OF rt_wf_da[OF wf]]
    by (auto simp: trim_step_def bind_Some_iff split: if_splits)
  from trim_host_inner[OF wf kn h this] have b: "broken k (host_list s ! (k + 1)) t" .
  have "s' = t"
    using t(2)
  proof (rule foldM_invariant)
    fix x u u' assume "u = t" "trim_step c x u = Some u'"
    with broken_trim_step[OF b] show "u' = t" by blast
  qed simp
  with b show ?thesis by blast
qed

lemma compute_paths_broken:
  assumes "allocs s = []" and "adjacency s = None"
  shows "compute_paths s = None"
proof -
  have "alloc_rows n [] = (0, [])" for n by (induction n) auto
  with assms show ?thesis by (simp add: compute_paths_def)
qed

lemma trim_disjoint_hosts_broken:
  assumes wf: "rt_wf s" and cur: "paths_current s" and i: "i + 1 < length (host_list s)" "is_normal s i"
    and res: "trim_disjoint_hosts s = Some (ret, s')"
  shows "ret = 0" and "\<exists>k q. broken k q s'"
proof -
  obtain c p m where c: "c < length (host_list s)" "host_list s ! c = p" "local_host s = Some p"
    "host_mac s p = Some m" "find_host_by_addr s m = Some (Some c)"
    by (rule rt_wf_local_index[OF wf])
  have "m_ct s = da_ct (hosts s)" using cur by (auto simp: paths_current_def)
  with res c have r: "ret = 0" "foldM (trim_step c) [0..<length (host_list s)] s = Some s'"
    using length_da_list[OF rt_wf_da[OF wf]] by (auto simp: trim_disjoint_hosts_def bind_Some_iff)
  show "ret = 0" by (rule r(1))
  show "\<exists>k q. broken k q s'" using trim_loop_broken[OF wf cur c(1) _ i r(2)] c(2,3) by simp
qed

lemma update_cache_frees_successor:
  assumes wf: "rt_wf s" and cur: "paths_current s" and "allocs s = []"
    and i: "i + 1 < length (host_list s)" "is_normal s i"
  shows "update_cache s = None"
proof (cases "trim_disjoint_hosts s")
  case (Some rs)
  obtain ret s' where rs: "rs = (ret, s')" by (cases rs)
  note broken = trim_disjoint_hosts_broken[OF wf cur i Some[unfolded rs]]
  moreover have "allocs s' = []"
    using trim_disjoint_hosts_outcome(1)[OF wf Some[unfolded rs]] assms(3) by (simp add: same_cache_def)
  ultimately have "compute_paths s' = None" by (blast intro: compute_paths_broken broken_adjacency)
  with Some rs broken(1) show ?thesis by (simp add: update_cache_def)
qed (simp add: update_cache_def)

end
