(* ===== verification/Routing_Update.thy ===== *)
theory Routing_Update
  imports Routing_Cache
begin

text \<open>
  The operations of src/routing.c that change the routing data: \<open>rt_init\<close>, \<open>rt_destroy\<close>,
  \<open>rt_lhost_add\<close>, \<open>rt_dhost_add_link\<close>, \<open>rt_update_edges\<close>, \<open>rt_dhost_remove\<close>.  Each of them
  holds the write lock from its first to its last line, so that it is one atomic step for all
  other threads.
\<close>

section \<open>The reader-writer lock\<close>

text \<open>
  \<open>None\<close> stands for a call that blocks for ever where no other thread holds the lock, and for
  the undefined release of a lock that is not held.
\<close>

definition wrlock :: "routing \<Rightarrow> routing option" where
  "wrlock s = (if lock s = RW_Free then Some (s\<lparr>lock := RW_Write\<rparr>) else None)"

definition rdlock :: "routing \<Rightarrow> routing option" where
  "rdlock s =
     (case lock s of
        RW_Free \<Rightarrow> Some (s\<lparr>lock := RW_Read 1\<rparr>)
      | RW_Read n \<Rightarrow> Some (s\<lparr>lock := RW_Read (n + 1)\<rparr>)
      | RW_Write \<Rightarrow> None)"

definition unlock :: "routing \<Rightarrow> routing option" where
  "unlock s =
     (case lock s of
        RW_Free \<Rightarrow> None
      | RW_Read n \<Rightarrow> Some (s\<lparr>lock := if n \<le> 1 then RW_Free else RW_Read (n - 1)\<rparr>)
      | RW_Write \<Rightarrow> Some (s\<lparr>lock := RW_Free\<rparr>))"

text \<open>\<open>pthread_rwlock_unlock (&rd->lock); return ret;\<close>\<close>

definition unlock_ret :: "int \<Rightarrow> routing \<Rightarrow> (int \<times> routing) option" where
  "unlock_ret ret s = do { s' \<leftarrow> unlock s; Some (ret, s') }"

section \<open>Definitions\<close>

text \<open>
  \<open>rt_init\<close>: the fields that it does not set keep the values of the memory block it is given;
  \<open>rd->local\<close> stays unset.  \<open>pthread_rwlock_init\<close> never returns a negative number.
\<close>

definition rt_init :: "routing \<Rightarrow> int \<times> routing" where
  "rt_init s =
     (let s0 = s\<lparr>lock := RW_Free\<rparr>;
          (fail, hs, al1) = DA_INIT RT_HOST_INIT (allocs s);
          s1 = s0\<lparr>hosts := hs, allocs := al1\<rparr>
      in if fail then (- 1, s1)
      else let (fail, es, al2) = DA_INIT DA_INIT_MEM al1;
               s2 = s1\<lparr>edges := es, allocs := al2\<rparr>
      in if fail then (- 2, s2) else (0, s2\<lparr>mats := M_NULL, m_ct := 0\<rparr>))"

definition rt_destroy :: "routing \<Rightarrow> routing" where
  "rt_destroy s = s\<lparr>hosts := DA_DESTROY (hosts s), edges := DA_DESTROY (edges s)\<rparr>"

definition rt_lhost_add :: "routing \<Rightarrow> ip_ptr \<Rightarrow> (int \<times> routing) option" where
  "rt_lhost_add s ip_host = do {
     s \<leftarrow> wrlock s;
     (p, h, s) \<leftarrow> host_add s ip_host HT_LOCAL;
     unlock_ret p (if p = 0 then s\<lparr>local_host := h\<rparr> else s)
   }"

text \<open>The two branches of \<open>rt_dhost_add_link\<close>: a new link from the local host \<open>sh\<close>, or a fresh
  measurement for the link at position \<open>j\<close>.\<close>

definition new_dhost_link :: "u64 \<Rightarrow> routing \<Rightarrow> hptr \<Rightarrow> ip_ptr \<Rightarrow> ether_addr \<Rightarrow> u32 \<Rightarrow> (int \<times> routing) option" where
  "new_dhost_link ts s sh dst_ip_host mac rtt_us = do {
     dst_host_p \<leftarrow> find_host_by_addr s mac;
     (ret, dst_host, s) \<leftarrow>
       (case dst_host_p of
          None \<Rightarrow> host_add s dst_ip_host HT_DIRECT
        | Some i \<Rightarrow> do {
            p \<leftarrow> index_to_host s i;
            s \<leftarrow> ihost_to_dhost s p dst_ip_host;
            Some (0, Some p, s)
          });
     if ret \<noteq> 0 then Some (- 2, s)
     else do {
       dst \<leftarrow> dst_host;
       (ret, s) \<leftarrow> link_add s sh dst rtt_us ts;
       Some (if ret \<noteq> 0 then - 3 else 0, s)
     }
   }"

definition refresh_link :: "u64 \<Rightarrow> routing \<Rightarrow> hptr \<Rightarrow> nat \<Rightarrow> u32 \<Rightarrow> routing option" where
  "refresh_link ts s sh j rtt_us = do {
     h \<leftarrow> hheap s sh;
     let ls = h_links h;
     Some (set_host sh (h\<lparr>h_links := ls\<lparr>da_items :=
       (da_items ls)[j := (da_items ls ! j)\<lparr>l_rtt_us := rtt_us, l_ts_ms := ts\<rparr>]\<rparr>\<rparr>) s)
   }"

text \<open>\<open>now\<close> is the answer of \<open>gettimeofday\<close>.\<close>

definition rt_dhost_add_link :: "timeval \<Rightarrow> routing \<Rightarrow> ip_ptr \<Rightarrow> u32 \<Rightarrow> (int \<times> routing) option" where
  "rt_dhost_add_link now s dst_ip_host rtt_us = do {
     s \<leftarrow> wrlock s;
     lp \<leftarrow> local_host s;
     lmac \<leftarrow> host_mac s lp;
     src_host_p \<leftarrow> find_host_by_addr s lmac;
     case src_host_p of
       None \<Rightarrow> unlock_ret (- 1) s
     | Some i \<Rightarrow> do {
         sh \<leftarrow> index_to_host s i;
         smac \<leftarrow> host_mac s sh;
         dst \<leftarrow> ipheap s dst_ip_host;
         if mac_cmp smac (ip_mac dst) = 0 then unlock_ret (- 2) s
         else do {
           h \<leftarrow> hheap s sh;
           stod \<leftarrow> find_link_by_addr s (h_links h) (ip_mac dst);
           let ts = word_of_int (tv_ms now);
           (ret, s) \<leftarrow>
             (case stod of
                None \<Rightarrow> new_dhost_link ts s sh dst_ip_host (ip_mac dst) rtt_us
              | Some j \<Rightarrow> do { s \<leftarrow> refresh_link ts s sh j rtt_us; Some (0, s) });
           if ret \<noteq> 0 then unlock_ret ret s
           else do {
             (ret, s) \<leftarrow> update_cache s;
             unlock_ret (if ret \<noteq> 0 then - 5 else 0) s
           }
         }
       }
   }"

text \<open>Received edges are ordered by source and then, as stored, by time stamp.\<close>

definition pkt_edges_cmp_src :: "pkt_edge \<Rightarrow> pkt_edge \<Rightarrow> int" where
  "pkt_edges_cmp_src e1 e2 =
     (let ret = mac_cmp (p_mac (e_src e1)) (p_mac (e_src e2))
      in if ret = 0
         then (if e_ts_ms e1 > e_ts_ms e2 then - 1 else if e_ts_ms e1 < e_ts_ms e2 then 1 else 0)
         else ret)"

text \<open>The second half of the loop body: the destination is found or created, and the link added.
  The result of \<open>host_add\<close> is not looked at; where it fails, \<open>dst_host\<close> has no value.\<close>

definition edge_link :: "routing \<Rightarrow> hptr \<Rightarrow> ipv4_host \<Rightarrow> u32 \<Rightarrow> u64 \<Rightarrow> (int \<times> routing) option" where
  "edge_link s cur_host_src dst rtt_us ts_ms = do {
     dst_hostp \<leftarrow> find_host_by_addr s (ip_mac dst);
     (dst_host, s) \<leftarrow>
       (case dst_hostp of
          None \<Rightarrow> do {
            (ret, dst_host, s) \<leftarrow>
              host_add (s\<lparr>ipheap := (ipheap s)(IP_Frame \<mapsto> dst)\<rparr>) IP_Frame HT_NORMAL;
            Some (dst_host, s)
          }
        | Some i \<Rightarrow> do { p \<leftarrow> index_to_host s i; Some (Some p, s) });
     dst_host \<leftarrow> dst_host;
     link_add s cur_host_src dst_host rtt_us ts_ms
   }"

text \<open>
  The first half, for an edge of a new source: the source is created, or its links are dropped
  if this edge is newer than all of them, or the source is skipped.  \<open>Inl ret\<close> leaves the
  function; \<open>Inr (h, skip)\<close> is the source and whether to go on to the next one.
\<close>

definition edge_source :: "routing \<Rightarrow> ipv4_host \<Rightarrow> u64 \<Rightarrow> ((int + hptr \<times> bool) \<times> routing) option" where
  "edge_source s src ts_ms = do {
     hsrcp \<leftarrow> find_host_by_addr s (ip_mac src);
     case hsrcp of
       None \<Rightarrow> do {
         (ret, h, s) \<leftarrow> host_add (s\<lparr>ipheap := (ipheap s)(IP_Frame \<mapsto> src)\<rparr>) IP_Frame HT_NORMAL;
         if ret \<noteq> 0 then Some (Inl (- 1), s) else do { p \<leftarrow> h; Some (Inr (p, False), s) }
       }
     | Some i \<Rightarrow> do {
         p \<leftarrow> index_to_host s i;
         h \<leftarrow> hheap s p;
         if h_type h \<noteq> HT_LOCAL \<and> h_l_max_ts_ms h < ts_ms
         then Some (Inr (p, False), set_host p (h\<lparr>h_links := (h_links h)\<lparr>da_ct := 0\<rparr>\<rparr>) s)
         else Some (Inr (p, True), s)
       }
   }"

text \<open>The loop, with its variables \<open>cur_ip_src\<close>, \<open>cur_host_src\<close> and \<open>cont_to_new_src\<close>.\<close>

fun update_edges_loop ::
  "pkt_edge list \<Rightarrow> ipv4_host \<Rightarrow> hptr option \<Rightarrow> bool \<Rightarrow> routing \<Rightarrow> (int \<times> routing) option" where
  "update_edges_loop [] cur_ip_src cur_host_src cont_to_new_src s = Some (0, s)"
| "update_edges_loop (e # es) cur_ip_src cur_host_src cont_to_new_src s =
     (let src = pkt_ipv4_unpack (e_src e); dst = pkt_ipv4_unpack (e_dst e);
          rtt_us = ntohl (e_rtt_us e); ts_ms = ntohll (e_ts_ms e)
      in if ipv4_cmp_mac src dst = 0 \<or> cont_to_new_src \<and> ipv4_cmp_mac src cur_ip_src = 0
         then update_edges_loop es cur_ip_src cur_host_src cont_to_new_src s
         else if cur_host_src = None \<or> ipv4_cmp_mac src cur_ip_src \<noteq> 0
         then do {
           (r, s) \<leftarrow> edge_source s src ts_ms;
           case r of
             Inl ret \<Rightarrow> Some (ret, s)
           | Inr (p, True) \<Rightarrow> update_edges_loop es src (Some p) True s
           | Inr (p, False) \<Rightarrow> do {
               (ret, s) \<leftarrow> edge_link s p dst rtt_us ts_ms;
               if ret \<noteq> 0 then Some (- 2, s) else update_edges_loop es src (Some p) False s
             }
         }
         else do {
           p \<leftarrow> cur_host_src;
           (ret, s) \<leftarrow> edge_link s p dst rtt_us ts_ms;
           if ret \<noteq> 0 then Some (- 2, s) else update_edges_loop es cur_ip_src cur_host_src False s
         })"

definition no_ip_host :: ipv4_host where
  "no_ip_host = \<lparr>ip_mac = Ether_Addr 0 0 0 0 0 0,
     ip_in = \<lparr>sin_family = 0, sin_port = 0, sin_addr = 0\<rparr>\<rparr>"

definition rt_update_edges :: "routing \<Rightarrow> pkt_edge list \<Rightarrow> (int \<times> routing) option" where
  "rt_update_edges s es = do {
     s \<leftarrow> wrlock s;
     es' \<leftarrow> qsort (\<lambda>e1 e2. Some (pkt_edges_cmp_src e1 e2)) es;
     (ret, s) \<leftarrow> update_edges_loop es' no_ip_host None False s;
     if ret \<noteq> 0 then unlock_ret ret s
     else do {
       (ret, s) \<leftarrow> update_cache s;
       unlock_ret (if ret \<noteq> 0 then - 5 else 0) s
     }
   }"

text \<open>
  The middle part of \<open>rt_dhost_remove\<close>: \<open>h\<close>, the destination of link \<open>j\<close> of the local host
  \<open>sh\<close>, gets a copy of its own of the peer's address and is linked no more.
\<close>

definition detach_dhost :: "routing \<Rightarrow> hptr \<Rightarrow> nat \<Rightarrow> hptr \<Rightarrow> (int \<times> routing) option" where
  "detach_dhost s sh j h =
     (let (ok, al) = alloc (allocs s)
      in if \<not> ok then Some (- 3, s\<lparr>allocs := al\<rparr>)
      else do {
        hd \<leftarrow> hheap s h;
        v \<leftarrow> ipheap s (h_host hd);
        let a = brk s;
        let s1 = set_host h (hd\<lparr>h_host := IP_Heap a, h_type := HT_NORMAL\<rparr>)
          (s\<lparr>brk := a + 1, allocs := al, ipheap := (ipheap s)(IP_Heap a \<mapsto> v)\<rparr>);
        s2 \<leftarrow> link_remove s1 sh j;
        Some (0, s2)
      })"

definition rt_dhost_remove :: "routing \<Rightarrow> ether_addr \<Rightarrow> (int \<times> routing) option" where
  "rt_dhost_remove s dmac = do {
     s \<leftarrow> wrlock s;
     lp \<leftarrow> local_host s;
     lmac \<leftarrow> host_mac s lp;
     shp \<leftarrow> find_host_by_addr s lmac;
     case shp of
       None \<Rightarrow> unlock_ret (- 10) s
     | Some i \<Rightarrow> do {
         sh \<leftarrow> index_to_host s i;
         shd \<leftarrow> hheap s sh;
         l \<leftarrow> find_link_by_addr s (h_links shd) dmac;
         case l of
           None \<Rightarrow> unlock_ret 1 s
         | Some j \<Rightarrow> do {
             let h = l_dst (da_items (h_links shd) ! j);
             hd \<leftarrow> hheap s h;
             if h_type hd \<noteq> HT_DIRECT then unlock_ret (- 5) s
             else do {
               (ret, s) \<leftarrow> detach_dhost s sh j h;
               if ret \<noteq> 0 then unlock_ret ret s
               else do {
                 (ret, s) \<leftarrow> update_cache s;
                 unlock_ret (if ret \<noteq> 0 then - 2 else 0) s
               }
             }
           }
       }
   }"

section \<open>Lock discipline\<close>

text \<open>None of the steps in between touches the lock; so each operation returns with it released.\<close>

named_theorems lock_kept "steps that do not touch the lock"

lemma set_host_lock [simp]: "lock (set_host p h s) = lock s"
  by (simp add: set_host_def)

lemma host_alloc_lock [lock_kept]: "host_alloc s a ty = Some (r, p, s') \<Longrightarrow> lock s' = lock s"
  by (auto simp: host_alloc_def Let_def bind_Some_iff split: prod.splits if_splits)

lemma host_insert_unchecked_lock [lock_kept]: "host_insert_unchecked s p = Some (r, s') \<Longrightarrow> lock s' = lock s"
  by (auto simp: host_insert_unchecked_def Let_def bind_Some_iff split: prod.splits if_splits)

lemma host_add_lock [lock_kept]: "host_add s a ty = Some (r, p, s') \<Longrightarrow> lock s' = lock s"
  by (auto simp: host_add_def bind_Some_iff split: if_splits option.splits dest!: lock_kept)

lemma link_add_lock [lock_kept]:
  assumes "link_add s a b c d = Some (r, s')"
  shows "lock s' = lock s"
proof -
  from assms obtain h where h: "hheap s a = Some h" by (auto simp: link_add_def bind_Some_iff)
  obtain fl ls al where "DA_ADD_TO_END (h_links h) \<lparr>l_dst = b, l_rtt_us = c, l_ts_ms = d\<rparr> (allocs s)
      = (fl, ls, al)" by (rule prod_cases3)
  with assms h show ?thesis by (cases fl) (auto simp: link_add_def bind_Some_iff)
qed

lemma ihost_to_dhost_lock [lock_kept]: "ihost_to_dhost s p a = Some s' \<Longrightarrow> lock s' = lock s"
  by (auto simp: ihost_to_dhost_def bind_Some_iff split: if_splits ip_ptr.splits)

lemma link_remove_lock [lock_kept]: "link_remove s p j = Some s' \<Longrightarrow> lock s' = lock s"
  by (auto simp: link_remove_def bind_Some_iff)

lemma refresh_link_lock [lock_kept]: "refresh_link ts s p j r = Some s' \<Longrightarrow> lock s' = lock s"
  by (auto simp: refresh_link_def bind_Some_iff Let_def)

lemma new_dhost_link_lock [lock_kept]: "new_dhost_link ts s sh d m rtt = Some (r, s') \<Longrightarrow> lock s' = lock s"
  by (auto simp: new_dhost_link_def bind_Some_iff split: if_splits option.splits dest!: lock_kept)

lemma edge_link_lock [lock_kept]: "edge_link s p d rtt ts = Some (r, s') \<Longrightarrow> lock s' = lock s"
  by (auto simp: edge_link_def bind_Some_iff split: option.splits dest!: lock_kept)

lemma edge_source_lock [lock_kept]: "edge_source s src ts = Some (r, s') \<Longrightarrow> lock s' = lock s"
  by (auto simp: edge_source_def bind_Some_iff split: option.splits if_splits dest!: lock_kept)

text \<open>The ways a run of the loop can take one edge.\<close>

lemma update_edges_loop_Cons:
  fixes e defines "src \<equiv> pkt_ipv4_unpack (e_src e)" and "dst \<equiv> pkt_ipv4_unpack (e_dst e)"
    and "rtt \<equiv> ntohl (e_rtt_us e)" and "ts \<equiv> ntohll (e_ts_ms e)"
  assumes res: "update_edges_loop (e # es) ip p c s = Some (r, s')"
  obtains (skip) "update_edges_loop es ip p c s = Some (r, s')"
    "ip_mac src = ip_mac dst \<or> c \<and> ip_mac src = ip_mac ip"
  | (no_src) "edge_source s src ts = Some (Inl r, s')" "ip_mac src \<noteq> ip_mac dst"
      "p = None \<or> ip_mac src \<noteq> ip_mac ip"
  | (pass) q t where "edge_source s src ts = Some (Inr (q, True), t)"
      "update_edges_loop es src (Some q) True t = Some (r, s')" "ip_mac src \<noteq> ip_mac dst"
      "p = None \<or> ip_mac src \<noteq> ip_mac ip"
  | (new_src) q t k u where "edge_source s src ts = Some (Inr (q, False), t)"
      "edge_link t q dst rtt ts = Some (k, u)"
      "k \<noteq> 0 \<and> r = - 2 \<and> s' = u \<or> k = 0 \<and> update_edges_loop es src (Some q) False u = Some (r, s')"
      "ip_mac src \<noteq> ip_mac dst" "p = None \<or> ip_mac src \<noteq> ip_mac ip"
  | (same_src) q k u where "p = Some q" "\<not> c" "ip_mac src = ip_mac ip"
      "edge_link s q dst rtt ts = Some (k, u)"
      "k \<noteq> 0 \<and> r = - 2 \<and> s' = u \<or> k = 0 \<and> update_edges_loop es ip p False u = Some (r, s')"
      "ip_mac src \<noteq> ip_mac dst"
proof -
  note res = res[unfolded update_edges_loop.simps(2) Let_def ipv4_cmp_mac_def mac_cmp_eq,
      folded src_def dst_def rtt_def ts_def]
  consider "ip_mac src = ip_mac dst \<or> c \<and> ip_mac src = ip_mac ip"
    | "ip_mac src \<noteq> ip_mac dst" "p = None \<or> ip_mac src \<noteq> ip_mac ip" "\<not> (c \<and> ip_mac src = ip_mac ip)"
    | q where "ip_mac src \<noteq> ip_mac dst" "p = Some q" "ip_mac src = ip_mac ip" "\<not> c"
    by (cases p) blast+
  then show thesis
  proof cases
    case 2
    with res obtain x t where x: "edge_source s src ts = Some (x, t)" by (auto simp: bind_Some_iff)
    from 2 res x show thesis
    proof (cases x)
      case (Inr y)
      obtain q d where "y = (q, d)" by (cases y)
      with Inr 2 res x pass new_src show thesis by (cases d) (auto simp: bind_Some_iff split: if_splits)
    qed (auto intro: no_src)
  next
    case (3 q)
    with res same_src show thesis by (auto simp: bind_Some_iff split: if_splits)
  qed (use res skip in auto)
qed

lemma update_edges_loop_lock [lock_kept]:
  "update_edges_loop es ip p c s = Some (r, s') \<Longrightarrow> lock s' = lock s"
proof (induction es arbitrary: ip p c s)
  case (Cons e es)
  from Cons.prems show ?case
    by (cases rule: update_edges_loop_Cons) (auto dest!: Cons.IH lock_kept)
qed simp

lemma detach_dhost_lock [lock_kept]: "detach_dhost s sh j h = Some (r, s') \<Longrightarrow> lock s' = lock s"
  by (auto simp: detach_dhost_def Let_def bind_Some_iff split: if_splits prod.splits dest!: lock_kept)

lemma trim_disjoint_hosts_lock [lock_kept]: "trim_disjoint_hosts s = Some (r, s') \<Longrightarrow> lock s' = lock s"
proof -
  have "same_cache s s'" if "foldM (trim_step a) xs s = Some s'" for a xs
    using that by (rule foldM_invariant) (auto intro: same_cache_trans trim_step_same_cache)
  then show "trim_disjoint_hosts s = Some (r, s') \<Longrightarrow> lock s' = lock s"
    by (auto simp: trim_disjoint_hosts_def bind_Some_iff same_cache_def split: if_splits)
qed

lemma compute_paths_lock [lock_kept]: "compute_paths s = Some (r, s') \<Longrightarrow> lock s' = lock s"
  by (auto simp: compute_paths_def Let_def bind_Some_iff split_beta split: if_splits)

lemma export_link_lock: "export_link i src x (r, s) = Some (r', s') \<Longrightarrow> lock s' = lock s"
  by (auto simp: export_link_def Let_def bind_Some_iff split_beta split: if_splits)

lemma export_host_lock: "export_host i (r, s) = Some (r', s') \<Longrightarrow> lock s' = lock s"
  by (auto simp: export_host_def bind_Some_iff split: if_splits
      dest!: foldM_invariant[where P = "\<lambda>rt. lock (snd rt) = lock s"] dest: export_link_lock)

lemma update_exported_edges_lock [lock_kept]:
  "update_exported_edges s = Some (r, s') \<Longrightarrow> lock s' = lock s"
  unfolding update_exported_edges_def
  by (drule foldM_invariant[where P = "\<lambda>rt. lock (snd rt) = lock s"]) (auto dest: export_host_lock)

lemma update_cache_lock [lock_kept]: "update_cache s = Some (r, s') \<Longrightarrow> lock s' = lock s"
  by (auto simp: update_cache_def bind_Some_iff split: if_splits dest!: lock_kept)

lemma unlock_ret_Write: "lock s = RW_Write \<Longrightarrow> unlock_ret r s = Some (r, s\<lparr>lock := RW_Free\<rparr>)"
  by (simp add: unlock_ret_def unlock_def)

lemma wrlock_Some: "wrlock s = Some t \<longleftrightarrow> lock s = RW_Free \<and> t = s\<lparr>lock := RW_Write\<rparr>"
  by (auto simp: wrlock_def)

lemma unlock_ret_lock:
  "unlock_ret r s = Some (r', s') \<Longrightarrow> lock s = RW_Write \<Longrightarrow> r' = r \<and> s' = s\<lparr>lock := RW_Free\<rparr>"
  by (simp add: unlock_ret_Write)

lemma rt_dhost_add_link_lock:
  assumes "rt_dhost_add_link now s d rtt = Some (r, s')"
  shows "lock s = RW_Free \<and> lock s' = RW_Free"
  using assms
  by (auto simp: rt_dhost_add_link_def Let_def bind_Some_iff wrlock_Some
      split: option.splits if_splits dest!: lock_kept unlock_ret_lock)

lemma rt_update_edges_lock:
  assumes "rt_update_edges s es = Some (r, s')"
  shows "lock s = RW_Free \<and> lock s' = RW_Free"
  using assms
  by (auto simp: rt_update_edges_def bind_Some_iff wrlock_Some
      split: if_splits dest!: lock_kept unlock_ret_lock)

lemma rt_dhost_remove_lock:
  assumes "rt_dhost_remove s m = Some (r, s')"
  shows "lock s = RW_Free \<and> lock s' = RW_Free"
  using assms
  by (auto simp: rt_dhost_remove_def Let_def bind_Some_iff wrlock_Some
      split: option.splits if_splits dest!: lock_kept unlock_ret_lock)

lemma rt_lhost_add_lock:
  assumes "rt_lhost_add s a = Some (r, s')"
  shows "lock s = RW_Free \<and> lock s' = RW_Free"
  using assms
  by (auto simp: rt_lhost_add_def bind_Some_iff wrlock_Some
      split: if_splits dest!: lock_kept unlock_ret_lock)

section \<open>Links of the local host\<close>

definition local_link :: "routing \<Rightarrow> ether_addr \<Rightarrow> u32 \<Rightarrow> u64 \<Rightarrow> bool" where
  "local_link s mac rtt ts \<longleftrightarrow>
     (\<exists>p h l. local_host s = Some p \<and> hheap s p = Some h \<and> l \<in> set (links_of h) \<and>
        link_mac s l = Some mac \<and> l_rtt_us l = rtt \<and> l_ts_ms l = ts)"

lemma local_link_keeps:
  assumes wf: "rt_wf s" and keep: "keeps_direct s s'"
  shows "local_link s' mac rtt ts \<longleftrightarrow> local_link s mac rtt ts"
proof -
  obtain p h where p: "local_host s = Some p" "p \<in> set (host_list s)" "hheap s p = Some h" "h_type h = HT_LOCAL"
    by (rule rt_wf_localE[OF wf])
  have "link_mac s' l = link_mac s l" if l: "l \<in> set (links_of h)" for l
  proof -
    from rt_wf_host[OF wf p(2,3)] p(4) l obtain f where "l_dst l \<in> set (host_list s)"
      "hheap s (l_dst l) = Some f" "h_type f = HT_DIRECT"
      by (auto simp: host_wf_def direct_links_def links_wf_def)
    with keep show ?thesis by (auto simp: keeps_direct_def link_mac_def)
  qed
  moreover have "local_host s' = Some p" "hheap s' p = Some h"
    using keep p by (auto simp: keeps_direct_def)
  ultimately show ?thesis using p by (auto simp: local_link_def)
qed

text \<open>The links of the local host to other addresses than \<open>mac\<close> are what they were.\<close>

definition keeps_links :: "ether_addr \<Rightarrow> routing \<Rightarrow> routing \<Rightarrow> bool" where
  "keeps_links mac s s' \<longleftrightarrow> (\<forall>m rtt ts. m \<noteq> mac \<longrightarrow> (local_link s' m rtt ts \<longleftrightarrow> local_link s m rtt ts))"

lemma keeps_links_trans: "keeps_links m s t \<Longrightarrow> keeps_links m t u \<Longrightarrow> keeps_links m s u"
  by (simp add: keeps_links_def)

lemma keeps_links_refl [simp]: "keeps_links m s s"
  by (simp add: keeps_links_def)

lemma keeps_links_lock [simp]:
  "keeps_links m (s\<lparr>lock := l\<rparr>) t = keeps_links m s t" "keeps_links m s (t\<lparr>lock := l\<rparr>) = keeps_links m s t"
  by (simp_all add: keeps_links_def local_link_def)

lemma keeps_linksI:
  assumes "local_host s = Some sh" "local_host s' = Some sh" "hheap s sh = Some f" "hheap s' sh = Some f'"
    and "\<forall>l\<in>set (links_of f). link_mac s' l = link_mac s l"
    and "\<forall>l\<in>set (links_of f'). l \<in> set (links_of f) \<or> link_mac s' l = Some mac"
    and "\<forall>l\<in>set (links_of f). l \<in> set (links_of f') \<or> link_mac s l = Some mac"
  shows "keeps_links mac s s'"
  unfolding keeps_links_def
proof (intro allI impI)
  fix m rtt ts assume m: "m \<noteq> mac"
  have "local_link s' m rtt ts \<longleftrightarrow> (\<exists>l\<in>set (links_of f'). link_mac s' l = Some m \<and> l_rtt_us l = rtt \<and> l_ts_ms l = ts)"
    using assms(2,4) by (auto simp: local_link_def)
  also have "\<dots> \<longleftrightarrow> (\<exists>l\<in>set (links_of f). link_mac s l = Some m \<and> l_rtt_us l = rtt \<and> l_ts_ms l = ts)"
    using assms(5-7) m by force
  also have "\<dots> \<longleftrightarrow> local_link s m rtt ts" using assms(1,3) by (auto simp: local_link_def)
  finally show "local_link s' m rtt ts \<longleftrightarrow> local_link s m rtt ts" .
qed

text \<open>Turning a known host into a direct peer.\<close>

lemma ihost_to_dhost_wf:
  assumes wf: "rt_wf s" and p: "p \<in> set (host_list s)" "local_host s \<noteq> Some p"
    and ip: "ipheap s d = Some ip" "ptr_fits HT_DIRECT d" "host_mac s p = Some (ip_mac ip)"
  obtains s' g where "ihost_to_dhost s p d = Some s'" "rt_wf s'" "hosts s' = hosts s"
    "local_host s' = local_host s" "edges s' = edges s" "hheap s' p = Some g" "h_type g = HT_DIRECT"
    "\<forall>q. q \<noteq> p \<longrightarrow> hheap s' q = hheap s q" "\<forall>q\<in>set (host_list s). host_mac s' q = host_mac s q"
proof -
  from rt_wf_hostE[OF wf p(1)] obtain h where h: "hheap s p = Some h" "host_wf s p h" by blast
  show thesis
  proof (cases "h_type h")
    case HT_NORMAL
    with h(2) obtain a where a: "h_host h = IP_Heap a" by (auto simp: host_wf_def split: ip_ptr.splits)
    from h(1) ip(3) a have live: "ipheap s (IP_Heap a) \<noteq> None" by (auto simp: host_mac_def bind_Some_iff)
    let ?g = "h\<lparr>h_host := d, h_type := HT_DIRECT\<rparr>"
    let ?s = "set_host p ?g (s\<lparr>ipheap := (ipheap s)(IP_Heap a := None)\<rparr>)"
    have dp: "d \<noteq> IP_Heap a" using ip(2) by auto
    have mac: "host_mac ?s q = host_mac s q" if q: "q \<in> set (host_list s)" for q
    proof (cases "q = p")
      case True
      with ip dp show ?thesis by (simp add: host_mac_def)
    next
      case False
      from rt_wf_hostE[OF wf q] obtain g where g: "hheap s q = Some g" by blast
      have "h_host g \<noteq> IP_Heap a" using rt_wf_ip_inj[OF wf q p(1) g h(1)] False a by auto
      with False g show ?thesis by (simp add: host_mac_def)
    qed
    have "rt_wf ?s"
    proof (rule rt_wf_retype[OF wf])
      show "heap_wf ?s" using rt_wf_heap[OF wf] h(1) by (auto simp: heap_wf_def)
      fix q g assume q: "q \<in> set (host_list s)" "hheap s q = Some g"
      show "\<exists>g'. hheap ?s q = Some g' \<and> ptr_fits (h_type g') (h_host g') \<and> h_links g' = h_links g \<and>
          (h_type g' = HT_LOCAL \<longleftrightarrow> h_type g = HT_LOCAL)"
        using rt_wf_host[OF wf q] q h HT_NORMAL ip(2) by (auto simp: host_wf_def)
      show "direct_links ?s (h_links g)" if "h_type g = HT_LOCAL"
        using rt_wf_host[OF wf q] that h by (fastforce simp: host_wf_def direct_links_def)
    qed (simp_all add: mac)
    moreover have "ihost_to_dhost s p d = Some ?s"
      using h(1) HT_NORMAL a live by (auto simp: ihost_to_dhost_def)
    ultimately show thesis using mac by (intro that[of ?s ?g]) simp_all
  next
    case HT_DIRECT
    with h wf show thesis by (intro that[of s h]) (simp_all add: ihost_to_dhost_def)
  next
    case HT_LOCAL
    with h p(2) show thesis by (simp add: host_wf_def)
  qed
qed

text \<open>The preconditions that the callers of \<open>new_dhost_link\<close> establish.\<close>

lemma link_add_local:
  assumes wf: "rt_wf s" and sh: "local_host s = Some sh" "hheap s sh = Some h"
    and dst: "dst \<in> set (host_list s)" "hheap s dst = Some g" "h_type g = HT_DIRECT"
    and m: "host_mac s dst = Some mac" and new: "\<forall>l\<in>set (links_of h). link_mac s l \<noteq> Some mac"
  obtains (fail) al where "link_add s sh dst rtt ts = Some (- 1, s\<lparr>allocs := al\<rparr>)"
  | (ok) s' f where "link_add s sh dst rtt ts = Some (0, s')" "rt_wf s'" "edges s' = edges s"
      "local_link s' mac rtt ts" "local_host s' = Some sh" "hheap s' = (hheap s)(sh \<mapsto> f)" "h_host f = h_host h"
      "l_dst ` set (links_of f) = insert dst (l_dst ` set (links_of h))" "keeps_links mac s s'"
proof -
  obtain q f where q: "local_host s = Some q" "q \<in> set (host_list s)" "hheap s q = Some f" "h_type f = HT_LOCAL"
    by (rule rt_wf_localE[OF wf])
  with sh have sh': "sh \<in> set (host_list s)" "h_type h = HT_LOCAL" by auto
  have ne: "dst \<noteq> sh" using dst sh sh' by auto
  have loc: "dst \<notin> l_dst ` set (links_of h) \<and> (\<exists>g. hheap s dst = Some g \<and> h_type g = HT_DIRECT)"
    using new m dst by (auto simp: link_mac_def)
  show thesis
  proof (cases rule: link_add_wf[OF wf sh'(1) sh(2) dst(1) ne loc, of rtt ts])
    case (1 al)
    then show thesis by (rule fail)
  next
    case (2 al ls)
    let ?h = "h\<lparr>h_links := ls, h_l_max_ts_ms := max ts (h_l_max_ts_ms h)\<rparr>"
    let ?s = "set_host sh ?h (s\<lparr>allocs := al\<rparr>)"
    have "\<lparr>l_dst = dst, l_rtt_us = rtt, l_ts_ms = ts\<rparr> \<in> set (da_list ls)"
      using set_add[OF 2(2)] by simp
    moreover have "host_mac ?s dst = Some mac"
      using m ne by (simp add: host_mac_def)
    ultimately have "local_link ?s mac rtt ts"
      using sh(1) by (force simp: local_link_def link_mac_def)
    moreover have "keeps_links mac s ?s"
      by (rule keeps_linksI[of _ sh _ h ?h])
        (use sh set_add[OF 2(2)] \<open>host_mac ?s dst = Some mac\<close> in \<open>auto simp: link_mac_def host_mac_def set_host_def\<close>)
    ultimately show thesis using 2 sh(1) set_add[OF 2(2)] by (intro ok[of ?s ?h]) (simp_all add: set_host_def)
  qed
qed

text \<open>The new link anchors its destination.\<close>

lemma anchored_link:
  assumes "anchored s" and "local_host s = Some sh" "hheap s sh = Some h"
    and "\<forall>q. q \<noteq> p \<longrightarrow> hheap s1 q = hheap s q" "sh \<noteq> p"
    and "hheap s' = (hheap s1)(sh \<mapsto> f)" "h_host f = h_host h" "local_host s' = Some sh"
    and "l_dst ` set (links_of f) = insert p (l_dst ` set (links_of h))"
  shows "anchored s'"
  using assms by (auto simp: anchored_def)

lemma new_dhost_link_wf:
  assumes wf: "rt_wf s" and sh: "local_host s = Some sh" "hheap s sh = Some h"
    and ip: "ipheap s d = Some ip" "ptr_fits HT_DIRECT d" and ne: "host_mac s sh \<noteq> Some (ip_mac ip)"
    and new: "\<forall>l\<in>set (links_of h). link_mac s l \<noteq> Some (ip_mac ip)"
  obtains r s' where "new_dhost_link ts s sh d (ip_mac ip) rtt = Some (r, s')" "rt_wf s'"
    "edges s' = edges s" "r \<in> {0, - 2, - 3}" "r = 0 \<Longrightarrow> local_link s' (ip_mac ip) rtt ts"
    "r = 0 \<Longrightarrow> anchored s \<Longrightarrow> anchored s'" "r = 0 \<Longrightarrow> keeps_links (ip_mac ip) s s'"
proof -
  have shl: "sh \<in> set (host_list s)" "h_type h = HT_LOCAL"
    by (rule rt_wf_localE[OF wf], use sh in auto)+
  have lw: "\<forall>l\<in>set (links_of h). l_dst l \<in> set (host_list s)"
    using rt_wf_links[OF wf shl(1) sh(2)] by (simp add: links_wf_def)
  show thesis
  proof (cases rule: find_host_by_addr_cases[OF rt_wf_da[OF wf] rt_wf_ascending[OF wf], of "ip_mac ip"])
    case (1 i)
    let ?p = "host_list s ! i"
    have p: "?p \<in> set (host_list s)" "local_host s \<noteq> Some ?p" using 1 sh(1) ne by auto
    obtain s1 g where s1: "ihost_to_dhost s ?p d = Some s1" "rt_wf s1" "hosts s1 = hosts s"
      "local_host s1 = local_host s" "edges s1 = edges s" "hheap s1 ?p = Some g" "h_type g = HT_DIRECT"
      "\<forall>q. q \<noteq> ?p \<longrightarrow> hheap s1 q = hheap s q" "\<forall>q\<in>set (host_list s). host_mac s1 q = host_mac s q"
      by (rule ihost_to_dhost_wf[OF wf p ip 1(3)])
    have "sh \<noteq> ?p" using p(2) sh(1) by auto
    then have sh1: "hheap s1 sh = Some h" "local_host s1 = Some sh" using s1(4,8) sh by auto
    have new1: "\<forall>l\<in>set (links_of h). link_mac s1 l \<noteq> Some (ip_mac ip)"
      using new lw s1(9) by (simp add: link_mac_def)
    have p1: "?p \<in> set (host_list s1)" "host_mac s1 ?p = Some (ip_mac ip)" using p(1) s1(3,9) 1(3) by auto
    have start: "new_dhost_link ts s sh d (ip_mac ip) rtt = do {
        (ret, s) \<leftarrow> link_add s1 sh ?p rtt ts; Some (if ret \<noteq> 0 then - 3 else 0, s) }"
      using 1 s1(1) index_to_host_list[OF rt_wf_da[OF wf] 1(2)] by (simp add: new_dhost_link_def)
    have kl: "keeps_links (ip_mac ip) s s1"
      by (rule keeps_linksI[of _ sh _ h h]) (use sh sh1 lw s1(9) in \<open>auto simp: link_mac_def\<close>)
    show thesis
      by (cases rule: link_add_local[OF s1(2) sh1(2,1) p1(1) s1(6,7) p1(2) new1, of rtt ts])
        (use s1(2,5,8) start that sh \<open>sh \<noteq> ?p\<close> keeps_links_trans[OF kl] in \<open>auto dest: anchored_link\<close>)
  next
    case 2
    show thesis
    proof (cases rule: host_add_cases[OF wf ip(1), of HT_DIRECT])
      case (4 r s1)
      with 2 show thesis by (intro that[of "- 2" s1]) (simp_all add: new_dhost_link_def extends_def)
    next
      case (5 s1 g)
      note ex = rt_wf_extends[OF wf \<open>extends s s1\<close>]
      have sh1: "hheap s1 sh = Some h" "local_host s1 = Some sh"
        using ex(1)[OF shl(1)] sh 5(3) by (simp_all add: extends_def)
      have new1: "\<forall>l\<in>set (links_of h). link_mac s1 l \<noteq> Some (ip_mac ip)"
        using new lw ex(2) by (simp add: link_mac_def)
      have p1: "brk s \<in> set (host_list s1)" using set_add[OF 5(4)] by simp
      have "sh \<noteq> brk s" using sh(2) rt_wf_heap[OF wf] by (auto simp: heap_wf_def)
      have ed: "edges s1 = edges s" using 5(3) by (simp add: extends_def)
      have start: "new_dhost_link ts s sh d (ip_mac ip) rtt = do {
          (ret, s) \<leftarrow> link_add s1 sh (brk s) rtt ts; Some (if ret \<noteq> 0 then - 3 else 0, s) }"
        using 2 5(1) by (simp add: new_dhost_link_def)
      have kl: "keeps_links (ip_mac ip) s s1"
        by (rule keeps_linksI[of _ sh _ h h]) (use sh sh1 lw ex(2) in \<open>auto simp: link_mac_def\<close>)
      show thesis
        by (cases rule: link_add_local[OF 5(2) sh1(2,1) p1 5(5,6,9) new1, of rtt ts])
          (use 5(2,12) ed start that sh \<open>sh \<noteq> brk s\<close> keeps_links_trans[OF kl] in \<open>auto dest: anchored_link\<close>)
    qed (use 2 ip(2) in auto)
  qed
qed

text \<open>The invariant of a list of links depends on their destinations only.\<close>

lemma links_wf_dsts:
  "links_wf s p ls \<longleftrightarrow> da_wf ls \<and> ascending (host_mac s) (map l_dst (da_list ls)) \<and>
     set (map l_dst (da_list ls)) \<subseteq> set (host_list s) - {p}"
  by (auto simp: links_wf_def ascending_def keyed_def link_mac_def comp_def)

lemma direct_links_dsts:
  "direct_links s ls \<longleftrightarrow> distinct (map l_dst (da_list ls)) \<and>
     (\<forall>q\<in>set (map l_dst (da_list ls)). \<exists>g. hheap s q = Some g \<and> h_type g = HT_DIRECT)"
  by (auto simp: direct_links_def)

text \<open>A fresh measurement for a link that exists.\<close>

lemma refresh_link_wf:
  assumes wf: "rt_wf s" and sh: "local_host s = Some sh" "hheap s sh = Some h"
    and j: "j < length (links_of h)" "link_mac s (links_of h ! j) = Some mac"
  obtains s' where "refresh_link ts s sh j rtt = Some s'" "rt_wf s'" "edges s' = edges s"
    "local_link s' mac rtt ts" "anchored s \<Longrightarrow> anchored s'" "keeps_links mac s s'"
proof -
  have shl: "sh \<in> set (host_list s)" "h_type h = HT_LOCAL"
    by (rule rt_wf_localE[OF wf], use sh in auto)+
  let ?l = "(da_items (h_links h) ! j)\<lparr>l_rtt_us := rtt, l_ts_ms := ts\<rparr>"
  let ?ls = "(h_links h)\<lparr>da_items := (da_items (h_links h))[j := ?l]\<rparr>"
  let ?s = "set_host sh (h\<lparr>h_links := ?ls\<rparr>) s"
  from rt_wf_host[OF wf shl(1) sh(2)] have hw: "links_wf s sh (h_links h)" "direct_links s (h_links h)"
    using shl(2) by (auto simp: host_wf_def)
  then have dw: "da_wf (h_links h)" by (simp add: links_wf_def)
  with j(1) have ct: "j < da_ct (h_links h)" "da_items (h_links h) ! j = links_of h ! j"
    by (simp_all add: length_da_list da_list_nth)
  have list: "da_list ?ls = (links_of h)[j := ?l]"
    using ct by (simp add: da_list_def take_update_swap)
  have dsts: "map l_dst (da_list ?ls) = map l_dst (links_of h)"
    unfolding list using j(1) ct by (simp add: map_update list_update_same_conv)
  have "links_wf s sh ?ls" "direct_links s ?ls"
    using hw dw unfolding links_wf_dsts direct_links_dsts dsts by (simp_all add: da_wf_def)
  then have "rt_wf ?s" using rt_wf_set_links_only[OF wf shl(1) sh(2)] by blast
  moreover have lm: "link_mac ?s ?l = Some mac"
    using j(2) sh(2) ct by (simp add: link_mac_set_host link_mac_def host_mac_set_host)
  moreover have "local_link ?s mac rtt ts"
  proof -
    have "?l \<in> set (da_list ?ls)" unfolding list using j(1) by (simp add: set_update_memI)
    with lm sh(1) show ?thesis by (force simp: local_link_def)
  qed
  moreover have "keeps_links mac s ?s"
  proof (rule keeps_linksI[of _ sh _ h "h\<lparr>h_links := ?ls\<rparr>"])
    have same: "link_mac ?s l = link_mac s l" for l using sh(2) by (simp add: link_mac_set_host)
    then show "\<forall>l\<in>set (links_of h). link_mac ?s l = link_mac s l" by blast
    show "\<forall>l\<in>set (links_of (h\<lparr>h_links := ?ls\<rparr>)). l \<in> set (links_of h) \<or> link_mac ?s l = Some mac"
      using lm set_update_subset_insert[of "links_of h" j ?l] list by auto
    show "\<forall>l\<in>set (links_of h). l \<in> set (links_of (h\<lparr>h_links := ?ls\<rparr>)) \<or> link_mac s l = Some mac"
      using j list by (auto simp: in_set_conv_nth nth_list_update)
  qed (use sh in simp_all)
  moreover have "anchored ?s" if "anchored s"
    using that sh arg_cong[OF dsts, of set] by (auto simp: anchored_def set_host_def)
  ultimately show thesis using sh(2) by (intro that[of ?s]) (simp_all add: refresh_link_def Let_def)
qed

section \<open>\<open>rt_dhost_add_link\<close>\<close>

abbreviation locked :: "routing \<Rightarrow> routing" where
  "locked s \<equiv> s\<lparr>lock := RW_Write\<rparr>"

text \<open>The part between the lookup of the local host and \<open>update_cache\<close>.\<close>

lemma rt_dhost_add_link_start:
  assumes wf: "rt_wf s" and free: "lock s = RW_Free"
    and ip: "ipheap s d = Some ip" "ptr_fits HT_DIRECT d"
  obtains (own) p where "local_host s = Some p" "host_mac s p = Some (ip_mac ip)"
      "rt_dhost_add_link now s d rtt = Some (- 2, s)"
  | (fail) r s1 where "rt_dhost_add_link now s d rtt = Some (r, s1\<lparr>lock := RW_Free\<rparr>)" "rt_wf s1"
      "r \<in> {- 2, - 3}" "edges s1 = edges s"
  | (go) s1 where "rt_dhost_add_link now s d rtt =
        do { (ret, s') \<leftarrow> update_cache s1; unlock_ret (if ret \<noteq> 0 then - 5 else 0) s' }"
      "rt_wf s1" "edges s1 = edges s" "lock s1 = RW_Write"
      "local_link s1 (ip_mac ip) rtt (word_of_int (tv_ms now))" "anchored s \<Longrightarrow> anchored s1"
      "keeps_links (ip_mac ip) s s1"
proof -
  let ?s = "locked s"
  have wfl: "rt_wf ?s" using wf by simp
  obtain c p h m where c: "c < length (host_list s)" "host_list s ! c = p" "local_host s = Some p"
    "hheap s p = Some h" "host_mac s p = Some m" "host_wf s p h" "find_host_by_addr s m = Some (Some c)"
    by (rule rt_wf_local_index[OF wf])
  have idx: "index_to_host s c = Some p" using index_to_host_list[OF rt_wf_da[OF wf] c(1)] c(2) by simp
  note start = rt_dhost_add_link_def wrlock_def free idx c mac_cmp_eq
  show thesis
  proof (cases "m = ip_mac ip")
    case True
    show thesis by (rule own[of p]) (use True c ip free in \<open>simp_all add: start unlock_ret_def unlock_def\<close>)
  next
    case False
    have ls: "da_wf (h_links h)" "ascending (link_mac ?s) (links_of h)"
      using c(6) by (simp_all add: host_wf_def links_wf_def)
    have lh: "local_host ?s = Some p" "hheap ?s p = Some h" using c by simp_all
    let ?ts = "word_of_int (tv_ms now) :: u64"
    show thesis
    proof (cases rule: find_link_by_addr_cases[OF ls, of "ip_mac ip"])
      case (1 j)
      obtain s1 where s1: "refresh_link ?ts ?s p j rtt = Some s1" "rt_wf s1" "edges s1 = edges ?s"
        "local_link s1 (ip_mac ip) rtt ?ts" "anchored ?s \<Longrightarrow> anchored s1" "keeps_links (ip_mac ip) ?s s1"
        by (rule refresh_link_wf[OF wfl lh 1(2,3), of ?ts rtt]) blast
      show thesis
        by (rule go[of s1])
          (use s1 1 c ip False refresh_link_lock[OF s1(1)] in \<open>simp_all add: start Let_def\<close>)
    next
      case 2
      obtain r s1 where s1: "new_dhost_link ?ts ?s p d (ip_mac ip) rtt = Some (r, s1)" "rt_wf s1"
        "edges s1 = edges ?s" "r \<in> {0, - 2, - 3}" "r = 0 \<Longrightarrow> local_link s1 (ip_mac ip) rtt ?ts"
        "r = 0 \<Longrightarrow> anchored ?s \<Longrightarrow> anchored s1" "r = 0 \<Longrightarrow> keeps_links (ip_mac ip) ?s s1"
        by (rule new_dhost_link_wf[OF wfl lh, of d ip ?ts rtt]) (use ip False c 2 in auto)
      have lk: "lock s1 = RW_Write" using new_dhost_link_lock[OF s1(1)] by simp
      show thesis
      proof (cases "r = 0")
        case True
        show thesis
          by (rule go[of s1]) (use True s1 2 c ip False lk in \<open>simp_all add: start Let_def\<close>)
      next
        case ne: False
        show thesis
          by (rule fail[of r s1])
            (use ne s1 2 c ip False lk in \<open>auto simp: start Let_def unlock_ret_Write\<close>)
      qed
    qed
  qed
qed

section \<open>\<open>rt_dhost_remove\<close>\<close>

text \<open>A host that the local host does not link to gets a copy of its address of its own.\<close>

abbreviation own_copy :: "routing \<Rightarrow> hptr \<Rightarrow> rt_host \<Rightarrow> ipv4_host \<Rightarrow> allocs \<Rightarrow> routing" where
  "own_copy s p g v al \<equiv> set_host p (g\<lparr>h_host := IP_Heap (brk s), h_type := HT_NORMAL\<rparr>)
     (s\<lparr>brk := Suc (brk s), allocs := al, ipheap := (ipheap s)(IP_Heap (brk s) \<mapsto> v)\<rparr>)"

lemma own_copy_wf:
  assumes wf: "rt_wf s" and p: "p \<in> set (host_list s)" "hheap s p = Some g" "h_type g \<noteq> HT_LOCAL"
    and v: "ipheap s (h_host g) = Some v"
    and unlinked: "\<And>sh f. local_host s = Some sh \<Longrightarrow> hheap s sh = Some f \<Longrightarrow> p \<notin> l_dst ` set (links_of f)"
  shows "rt_wf (own_copy s p g v al)"
    and "\<forall>q\<in>set (host_list s). host_mac (own_copy s p g v al) q = host_mac s q"
proof -
  let ?s = "own_copy s p g v al"
  have fresh: "ipheap s (IP_Heap (brk s)) = None" using rt_wf_heap[OF wf] by (simp add: heap_wf_def)
  have mac: "host_mac ?s q = host_mac s q" if q: "q \<in> set (host_list s)" for q
  proof -
    obtain e ip where e: "hheap s q = Some e" "ipheap s (h_host e) = Some ip"
      by (rule rt_wf_host_ipE[OF wf q])
    with fresh have "h_host e \<noteq> IP_Heap (brk s)" by auto
    with e p v show ?thesis by (cases "q = p") (simp_all add: host_mac_def)
  qed
  then show "\<forall>q\<in>set (host_list s). host_mac ?s q = host_mac s q" by blast
  show "rt_wf ?s"
  proof (rule rt_wf_retype[OF wf])
    have "p < brk s" using heap_wf_less[OF rt_wf_heap[OF wf] p(2)] .
    then show "heap_wf ?s" using rt_wf_heap[OF wf] by (auto simp: heap_wf_def)
    fix q e assume q: "q \<in> set (host_list s)" "hheap s q = Some e"
    show "\<exists>e'. hheap ?s q = Some e' \<and> ptr_fits (h_type e') (h_host e') \<and> h_links e' = h_links e \<and>
        (h_type e' = HT_LOCAL \<longleftrightarrow> h_type e = HT_LOCAL)"
      using rt_wf_host[OF wf q] q p(2,3) by (cases "q = p") (auto simp: host_wf_def)
    show "direct_links ?s (h_links e)" if "h_type e = HT_LOCAL"
    proof -
      have "local_host s = Some q" "direct_links s (h_links e)"
        using rt_wf_host[OF wf q] that by (simp_all add: host_wf_def)
      with unlinked[OF _ q(2)] show ?thesis by (auto simp: direct_links_def)
    qed
  qed (simp_all add: mac)
qed

text \<open>Nobody is linked twice from the local host: a removed link leaves none to the same peer.\<close>

lemma direct_links_remove:
  assumes "da_wf ls" and "direct_links s ls" and "j < length (da_list ls)"
  shows "l_dst (da_list ls ! j) \<notin> l_dst ` set (da_list (DA_REMOVE ls j))"
proof -
  have "distinct (map l_dst (da_list ls))" using assms(2) by (simp add: direct_links_def)
  from set_remove_nth_distinct[OF this, of j] assms(3)
  have "map l_dst (da_list ls) ! j \<notin> set (remove_nth j (map l_dst (da_list ls)))" by simp
  with assms(3) show ?thesis
    by (simp add: da.remove_elems[OF assms(1,3)] flip: map_remove_nth)
qed

text \<open>
  Detaching a peer.  The code retypes the host first and takes the link out second; the two
  steps work on different hosts, so the result is that of the other order, in which the
  invariant holds in between.
\<close>

lemma detach_dhost_wf:
  assumes wf: "rt_wf s" and sh: "local_host s = Some sh" "hheap s sh = Some f"
    and j: "j < length (links_of f)" "l_dst (links_of f ! j) = p"
    and p: "hheap s p = Some g" "h_type g = HT_DIRECT" "host_mac s p = Some mac"
  obtains (fail) al where "detach_dhost s sh j p = Some (- 3, s\<lparr>allocs := al\<rparr>)"
  | (ok) s' where "detach_dhost s sh j p = Some (0, s')" "rt_wf s'" "edges s' = edges s"
      "\<And>rtt ts. \<not> local_link s' mac rtt ts" "anchored s \<Longrightarrow> anchored s'" "keeps_links mac s s'"
proof -
  have shl: "sh \<in> set (host_list s)" "h_type f = HT_LOCAL"
    by (rule rt_wf_localE[OF wf], use sh in auto)+
  have fw: "links_wf s sh (h_links f)" "direct_links s (h_links f)" "da_wf (h_links f)"
    using rt_wf_host[OF wf shl(1) sh(2)] shl(2) by (auto simp: host_wf_def links_wf_def)
  have "links_of f ! j \<in> set (links_of f)" using j(1) by simp
  with fw(1) j(2) have pm: "p \<in> set (host_list s)" "p \<noteq> sh" by (auto simp: links_wf_def)
  from p(1,3) obtain v where v: "ipheap s (h_host g) = Some v"
    by (auto simp: host_mac_def bind_Some_iff)
  obtain ok al where al: "alloc (allocs s) = (ok, al)" by (cases "alloc (allocs s)")
  show thesis
  proof (cases ok)
    case False
    with al show thesis by (intro fail[of al]) (simp add: detach_dhost_def)
  next
    case True
    let ?f = "f\<lparr>h_links := DA_REMOVE (h_links f) j\<rparr>"
    let ?t = "set_host sh ?f s"
    let ?s = "own_copy ?t p g v al"
    have wft: "rt_wf ?t" using link_remove_wf[OF wf shl(1) sh(2) j(1)] sh(2) by (simp add: link_remove_def)
    have dsts: "l_dst ` set (links_of f) \<subseteq> insert p (l_dst ` set (links_of ?f))"
      using set_remove_nth_back[OF j(1)] DA_REMOVE_list(2)[OF fw(3), of j] j fw(3) by (auto simp: length_da_list)
    have gone: "p \<notin> l_dst ` set (links_of ?f)"
      using direct_links_remove[OF fw(3,2) j(1)] j(2) by simp
    have unl: "p \<notin> l_dst ` set (links_of e)" if "local_host ?t = Some q" "hheap ?t q = Some e" for q e
      using that gone sh(1) by auto
    have tp: "p \<in> set (host_list ?t)" "hheap ?t p = Some g" "h_type g \<noteq> HT_LOCAL" "ipheap ?t (h_host g) = Some v"
      using pm p v by simp_all
    have wfs: "rt_wf ?s" by (rule own_copy_wf(1)[OF wft tp unl])
    have "\<forall>q\<in>set (host_list ?t). host_mac ?s q = host_mac ?t q" by (rule own_copy_wf(2)[OF wft tp unl])
    then have mac: "\<forall>q\<in>set (host_list s). host_mac ?s q = host_mac ?t q" by simp
    have "set_host sh ?f (own_copy s p g v al) = ?s"
      using pm(2) by (simp add: set_host_def fun_upd_twist)
    then have "detach_dhost s sh j p = Some (0, ?s)"
      using True al p(1) v sh(2) pm(2) by (simp add: detach_dhost_def Let_def link_remove_def)
    moreover have "\<not> local_link ?s mac rtt ts" for rtt ts
    proof
      assume "local_link ?s mac rtt ts"
      then obtain l where l: "l \<in> set (links_of ?f)" "host_mac ?s (l_dst l) = Some mac"
        using sh(1) pm(2) by (auto simp: local_link_def link_mac_def)
      have "hheap ?s sh = Some ?f" using pm(2) by simp
      with l(1) have "l_dst l \<in> set (host_list s)"
        using rt_wf_links[OF wfs, of sh ?f] shl(1) by (auto simp: links_wf_def)
      moreover have "host_mac ?s p = Some mac" using mac pm(1) p sh host_mac_set_host[OF sh(2)] by simp
      ultimately have "l_dst l = p" using rt_wf_mac_inj[OF wfs, of "l_dst l" p] pm l(2) by simp
      with gone l(1) show False by blast
    qed
    moreover have "anchored ?s" if "anchored s"
      using that sh pm(2) dsts by (auto simp: anchored_def set_host_def; blast)
    moreover have "keeps_links mac s ?s"
    proof (rule keeps_linksI[of _ sh _ f ?f])
      show "\<forall>l\<in>set (links_of f). link_mac ?s l = link_mac s l"
        using fw(1) mac host_mac_set_host[OF sh(2)] by (auto simp: links_wf_def link_mac_def)
      have rm: "links_of ?f = remove_nth j (links_of f)" using da.remove_elems[OF fw(3) j(1)] by simp
      then show "\<forall>l\<in>set (links_of ?f). l \<in> set (links_of f) \<or> link_mac ?s l = Some mac"
        using set_remove_nth[of j "links_of f"] by auto
      show "\<forall>l\<in>set (links_of f). l \<in> set (links_of ?f) \<or> link_mac s l = Some mac"
        using set_remove_nth_back[OF j(1)] rm j(2) p(3) by (auto simp: link_mac_def)
    qed (use sh pm(2) in simp_all)
    ultimately show thesis using wfs by (intro ok[of ?s]) simp_all
  qed
qed

lemma rt_dhost_remove_start:
  assumes wf: "rt_wf s" and free: "lock s = RW_Free"
  obtains (absent) "rt_dhost_remove s dmac = Some (1, s)" "\<And>rtt ts. \<not> local_link s dmac rtt ts"
  | (fail) al where "rt_dhost_remove s dmac = Some (- 3, s\<lparr>allocs := al\<rparr>)"
  | (go) s1 where "rt_dhost_remove s dmac =
        do { (ret, s') \<leftarrow> update_cache s1; unlock_ret (if ret \<noteq> 0 then - 2 else 0) s' }"
      "rt_wf s1" "edges s1 = edges s" "lock s1 = RW_Write" "\<And>rtt ts. \<not> local_link s1 dmac rtt ts"
      "anchored s \<Longrightarrow> anchored s1" "keeps_links dmac s s1"
proof -
  let ?s = "locked s"
  have wfl: "rt_wf ?s" using wf by simp
  obtain c p h m where c: "c < length (host_list s)" "host_list s ! c = p" "local_host s = Some p"
    "hheap s p = Some h" "host_mac s p = Some m" "host_wf s p h" "h_type h = HT_LOCAL"
    "find_host_by_addr s m = Some (Some c)"
    by (rule rt_wf_local_index[OF wf])
  have idx: "index_to_host s c = Some p" using index_to_host_list[OF rt_wf_da[OF wf] c(1)] c(2) by simp
  have ls: "da_wf (h_links h)" "ascending (link_mac ?s) (links_of h)" and dl: "direct_links s (h_links h)"
    using c(6,7) by (simp_all add: host_wf_def links_wf_def)
  have lh: "local_host ?s = Some p" "hheap ?s p = Some h" using c by simp_all
  note start = rt_dhost_remove_def wrlock_def free idx c
  show thesis
  proof (cases rule: find_link_by_addr_cases[OF ls, of dmac])
    case (1 j)
    let ?q = "l_dst (links_of h ! j)"
    have "links_of h ! j \<in> set (links_of h)" using 1(2) by simp
    with dl obtain g where g: "hheap s ?q = Some g" "h_type g = HT_DIRECT" by (auto simp: direct_links_def)
    have q: "hheap ?s ?q = Some g" "host_mac ?s ?q = Some dmac"
      using g 1(3) by (simp_all add: link_mac_def)
    have item: "da_items (h_links h) ! j = links_of h ! j"
      using 1(2) ls(1) by (simp add: da_list_nth length_da_list)
    show thesis
    proof (cases rule: detach_dhost_wf[OF wfl lh 1(2) refl q(1) g(2) q(2)])
      case (1 al)
      show thesis
        by (rule fail[of al]) (use 1 q g item \<open>find_link_by_addr _ _ _ = _\<close> in
          \<open>simp add: start Let_def unlock_ret_def unlock_def\<close>)
    next
      case (2 s1)
      show thesis
        by (rule go[of s1]) (use 2 q g item \<open>find_link_by_addr _ _ _ = _\<close> detach_dhost_lock[OF 2(1)] in
          \<open>simp_all add: start Let_def\<close>)
    qed
  next
    case 2
    show thesis
      by (rule absent) (use 2 c free in \<open>auto simp: start unlock_ret_def unlock_def local_link_def\<close>)
  qed
qed

section \<open>Setting up\<close>

lemma rt_init_ok:
  assumes "rt_init s = (0, s')"
  shows "da_wf (hosts s')" "host_list s' = []" "da_wf (edges s')" "da_list (edges s') = []"
    "mats s' = M_NULL" "m_ct s' = 0" "lock s' = RW_Free" "hheap s' = hheap s" "ipheap s' = ipheap s"
    "brk s' = brk s"
proof -
  obtain f1 hs al1 where 1: "(DA_INIT RT_HOST_INIT (allocs s) :: bool \<times> hptr da \<times> allocs) = (f1, hs, al1)"
    by (rule prod_cases3)
  obtain f2 es al2 where 2: "(DA_INIT DA_INIT_MEM al1 :: bool \<times> pkt_edge da \<times> allocs) = (f2, es, al2)"
    by (rule prod_cases3)
  from assms 1 2 have s': "s' = s\<lparr>lock := RW_Free, hosts := hs, edges := es, allocs := al2, mats := M_NULL, m_ct := 0\<rparr>"
    "\<not> f1" "\<not> f2"
    by (auto simp: rt_init_def Let_def split: if_splits)
  show "da_wf (hosts s')" "host_list s' = []" "da_wf (edges s')" "da_list (edges s') = []"
    "mats s' = M_NULL" "m_ct s' = 0" "lock s' = RW_Free" "hheap s' = hheap s" "ipheap s' = ipheap s"
    "brk s' = brk s"
    using DA_INIT_list[OF 1] DA_INIT_list[OF 2] s' by simp_all
qed

text \<open>The first host of the table is the local one.\<close>

lemma rt_lhost_add_first:
  assumes hp: "heap_wf s" and da: "da_wf (hosts s)" and empty: "host_list s = []"
    and ip: "ipheap s IP_Main = Some ip" and res: "rt_lhost_add s IP_Main = Some (0, s')"
  shows "rt_wf s'" and "edges s' = edges s" and "mats s' = mats s" and "m_ct s' = m_ct s"
    and "host_list s' = [brk s]" and "local_host s' = Some (brk s)" and "host_mac s' (brk s) = Some (ip_mac ip)"
proof -
  let ?s = "locked s"
  have ct: "da_ct (hosts s) = 0" using da empty by (simp flip: length_da_list)
  have none: "find_host_by_addr ?s (ip_mac ip) = Some None"
    using ct by (simp add: find_host_by_addr_def bsearch_def bsearch_loop.simps)
  from res have free: "lock s = RW_Free" by (auto simp: rt_lhost_add_def wrlock_def bind_Some_iff split: if_splits)
  have hpl: "heap_wf ?s" "ipheap ?s IP_Main = Some ip" using hp ip by (simp_all add: heap_wf_def)
  from res obtain np s2 where add: "host_add ?s IP_Main HT_LOCAL = Some (0, np, s2)"
    "s' = s2\<lparr>local_host := np, lock := RW_Free\<rparr>"
    by (auto simp: rt_lhost_add_def wrlock_def free bind_Some_iff unlock_ret_def unlock_def
        dest: host_add_lock split: if_splits rwlock.splits)
  obtain s1 h where s1: "host_alloc ?s IP_Main HT_LOCAL = Some (0, Some (brk s), s1)"
      "extends ?s s1" "heap_wf s1" "hosts s1 = hosts s" "hheap s1 = (hheap s)(brk s \<mapsto> h)"
      "h_type h = HT_LOCAL" "da_wf (h_links h)" "links_of h = []" "h_host h = IP_Main"
      "host_mac s1 (brk s) = Some (ip_mac ip)"
    by (cases rule: host_alloc_cases[OF hpl, of HT_LOCAL])
      (use add ip none in \<open>auto simp: host_add_def\<close>)
  obtain d al where d: "host_insert_unchecked s1 (brk s) = Some (0, s1\<lparr>hosts := d, allocs := al\<rparr>)"
    "da_wf d" "mset (da_list d) = {#brk s#}" "ascending (host_mac s1) (da_list d)"
    by (cases rule: host_insert_unchecked_cases[of s1 "brk s"])
      (use da empty s1 add ip none in \<open>auto simp: keyed_def host_add_def\<close>)
  have dl: "da_list d = [brk s]" using d(3) by simp
  from add s1(1) d(1) ip none have s': "s' = s1\<lparr>hosts := d, allocs := al, local_host := Some (brk s), lock := RW_Free\<rparr>"
    by (simp add: host_add_def)
  have "links_wf s' (brk s) (h_links h)" "direct_links s' (h_links h)"
    using s1(7,8) by (auto simp: links_wf_def direct_links_def ascending_def keyed_def)
  then show "rt_wf s'"
    using s1 d dl by (auto simp: rt_wf_def host_wf_def s' heap_wf_def)
  show "edges s' = edges s" "mats s' = mats s" "m_ct s' = m_ct s" "host_list s' = [brk s]"
    "local_host s' = Some (brk s)" "host_mac s' (brk s) = Some (ip_mac ip)"
    using s1(2,10) dl by (simp_all add: s' extends_def)
qed

end
