(* ===== verification/Routing_Edges.thy ===== *)
theory Routing_Edges
  imports Routing_Update
begin

text \<open>
  What \<open>rt_update_edges\<close> (src/routing.c) does to the table: it keeps the invariant, grows the
  table, leaves the local host and its links as they are, ignores the edges of a source that
  are not newer than what is known of it, and returns when memory lasts.
\<close>

section \<open>Allocation\<close>

text \<open>On a machine with memory to spare no step fails for want of it.\<close>

lemma alloc_rows_spare: "alloc_rows n [] = (0, [])"
  by (induction n) simp_all

lemma DA_INIT_spare: "\<exists>d. DA_INIT n [] = (False, d, [])"
  by (simp add: DA_INIT_def)

lemma DA_ADD_TO_END_spare: "\<exists>d'. DA_ADD_TO_END d x [] = (False, d', [])"
  by (simp add: DA_ADD_TO_END_def DA_CHECK_AND_REALLOC_def Let_def)

lemma host_alloc_spare:
  assumes "allocs s = []" and "host_alloc s a ty = Some (r, p, s')"
  shows "p \<noteq> None" and "allocs s' = []"
proof -
  obtain d :: "rt_link da" where d: "DA_INIT RT_LINK_INIT [] = (False, d, [])"
    using DA_INIT_spare by blast
  show "p \<noteq> None" "allocs s' = []"
    using assms d by (auto simp: host_alloc_def Let_def bind_Some_iff split: if_splits)
qed

lemma host_add_spare:
  assumes "allocs s = []" and "host_add s a ty = Some (r, p, s')"
  shows "0 \<le> r" and "allocs s' = []"
proof -
  have ins: "r' = 0 \<and> allocs u = []"
    if "host_insert_unchecked t q = Some (r', u)" "allocs t = []" for t q r' u
    using that DA_ADD_TO_END_spare[of "hosts t" q] by (auto simp: host_insert_unchecked_def bind_Some_iff)
  from assms(2) obtain ip dup where d: "ipheap s a = Some ip" "find_host_by_addr s (ip_mac ip) = Some dup"
    by (auto simp: host_add_def bind_Some_iff)
  have "0 \<le> r \<and> allocs s' = []"
  proof (cases dup)
    case None
    with assms(2) d obtain r1 nh s1 where al: "host_alloc s a ty = Some (r1, nh, s1)"
      by (auto simp: host_add_def bind_Some_iff)
    with host_alloc_spare[OF assms(1)] obtain q where "nh = Some q" "allocs s1 = []" by blast
    with assms(2) d None al show ?thesis
      by (auto simp: host_add_def bind_Some_iff split: if_splits dest: ins)
  qed (use assms d in \<open>auto simp: host_add_def\<close>)
  then show "0 \<le> r" "allocs s' = []" by simp_all
qed

lemma link_add_spare:
  assumes "allocs s = []" and "link_add s a b rtt ts = Some (r, s')"
  shows "r = 0" and "allocs s' = []"
proof -
  from assms obtain h where h: "hheap s a = Some h" by (auto simp: link_add_def bind_Some_iff)
  from DA_ADD_TO_END_spare obtain ls where
    "DA_ADD_TO_END (h_links h) \<lparr>l_dst = b, l_rtt_us = rtt, l_ts_ms = ts\<rparr> [] = (False, ls, [])"
    by (rule exE)
  with assms h show "r = 0" "allocs s' = []" by (auto simp: link_add_def bind_Some_iff)
qed

section \<open>Growth of the table\<close>

definition grows :: "routing \<Rightarrow> routing \<Rightarrow> bool" where
  "grows s s' \<longleftrightarrow>
     local_host s' = local_host s \<and> edges s' = edges s \<and> mats s' = mats s \<and> m_ct s' = m_ct s \<and>
     set (host_list s) \<subseteq> set (host_list s') \<and>
     (\<forall>q\<in>set (host_list s). host_mac s' q = host_mac s q \<and>
        (\<exists>g'. hheap s' q = Some g' \<and> h_type g' = h_type (the (hheap s q)) \<and>
           h_host g' = h_host (the (hheap s q)))) \<and>
     (\<forall>q\<in>set (host_list s). local_host s = Some q \<longrightarrow> hheap s' q = hheap s q)"

lemma grows_refl: "rt_wf s \<Longrightarrow> grows s s"
  by (fastforce simp: grows_def elim: rt_wf_hostE)

lemma grows_trans:
  assumes "grows s t" and "grows t u"
  shows "grows s u"
proof -
  have "q \<in> set (host_list t)" if "q \<in> set (host_list s)" for q using assms(1) that by (auto simp: grows_def)
  with assms show ?thesis by (fastforce simp: grows_def)
qed

text \<open>The address passed to \<open>host_add\<close> is a local variable of the running function.\<close>

abbreviation with_frame :: "ipv4_host \<Rightarrow> routing \<Rightarrow> routing" where
  "with_frame v s \<equiv> s\<lparr>ipheap := (ipheap s)(IP_Frame \<mapsto> v)\<rparr>"

lemma host_mac_with_frame:
  assumes "rt_wf s" and "q \<in> set (host_list s)"
  shows "host_mac (with_frame v s) q = host_mac s q"
proof -
  from rt_wf_hostE[OF assms] obtain g where g: "hheap s q = Some g" "host_wf s q g" by blast
  then have "h_host g \<noteq> IP_Frame" by (cases "h_type g") (auto simp: host_wf_def)
  with g show ?thesis by (simp add: host_mac_def)
qed

lemma grows_extends:
  assumes wf: "rt_wf s" and ext: "extends (with_frame v s) s'"
    and sub: "set (host_list s) \<subseteq> set (host_list s')"
  shows "grows s s'"
proof -
  note ex = rt_wf_extends[OF rt_wf_frame_ip[OF wf] ext]
  have "hheap s' q = hheap s q \<and> host_mac s' q = host_mac s q \<and> hheap s q \<noteq> None"
    if q: "q \<in> set (host_list s)" for q
    using ex[of q] q host_mac_with_frame[OF wf q, of v] by (auto elim: rt_wf_hostE[OF wf])
  then have "\<forall>q\<in>set (host_list s). hheap s' q = hheap s q \<and> host_mac s' q = host_mac s q \<and>
      (\<exists>g'. hheap s q = Some g')" by blast
  with ext sub show ?thesis by (auto simp: grows_def extends_def)
qed

text \<open>A new \<open>HT_NORMAL\<close> host for a received address that the table does not hold.\<close>

lemma host_add_normal:
  assumes wf: "rt_wf s" and new: "\<forall>q\<in>set (host_list s). host_mac s q \<noteq> Some (ip_mac v)"
  obtains (fail) r s' where "host_add (with_frame v s) IP_Frame HT_NORMAL = Some (r, None, s')" "r \<noteq> 0"
      "rt_wf s'" "grows s s'" "allocs s \<noteq> []" "\<And>p. p \<in> set (host_list s) \<Longrightarrow> hheap s' p = hheap s p"
  | (ok) q s' g where "host_add (with_frame v s) IP_Frame HT_NORMAL = Some (0, Some q, s')" "rt_wf s'"
      "grows s s'" "q \<in> set (host_list s')" "q \<notin> set (host_list s)" "hheap s' q = Some g" "h_type g = HT_NORMAL"
      "host_mac s' q = Some (ip_mac v)" "\<And>p. p \<in> set (host_list s) \<Longrightarrow> hheap s' p = hheap s p"
      "allocs s = [] \<Longrightarrow> allocs s' = []"
proof -
  let ?s = "with_frame v s"
  have wff: "rt_wf ?s" by (rule rt_wf_frame_ip[OF wf])
  have ip: "ipheap ?s IP_Frame = Some v" by simp
  show thesis
  proof (cases rule: host_add_cases[OF wff ip, of HT_NORMAL])
    case (3 p)
    with new host_mac_with_frame[OF wf, of p v] show thesis by auto
  next
    case (4 r s')
    show thesis
    proof (rule fail)
      show "host_add ?s IP_Frame HT_NORMAL = Some (r, None, s')" "r \<noteq> 0" "rt_wf s'" using 4 by auto
      show "grows s s'" by (rule grows_extends[OF wf 4(5)]) (simp add: 4)
      show "allocs s \<noteq> []" using host_add_spare(1)[OF _ 4(1)] 4(2) by auto
      show "hheap s' p = hheap s p" if "p \<in> set (host_list s)" for p
        using rt_wf_extends(1)[OF wff 4(5)] that by simp
    qed
  next
    case (5 s' g)
    have set': "set (host_list s') = insert (brk s) (set (host_list s))" using set_add[OF 5(4)] by simp
    show thesis
    proof (rule ok)
      show "host_add ?s IP_Frame HT_NORMAL = Some (0, Some (brk s), s')" using 5(1) by simp
      show "grows s s'" by (rule grows_extends[OF wf 5(3)]) (use set' in auto)
      show "brk s \<in> set (host_list s')" using set' by simp
      show "brk s \<notin> set (host_list s)"
        using heap_wf_less[OF rt_wf_heap[OF wf]] by (blast elim: rt_wf_hostE[OF wf])
      show "hheap s' p = hheap s p" if "p \<in> set (host_list s)" for p
        using rt_wf_extends(1)[OF wff 5(3)] that by simp
      show "allocs s' = []" if "allocs s = []" using host_add_spare(2)[OF _ 5(1)] that by simp
    qed (use 5 in simp_all)
  qed simp_all
qed

lemma rt_wf_not_local:
  assumes "rt_wf s" and "hheap s p = Some h" and "h_type h \<noteq> HT_LOCAL"
  shows "local_host s \<noteq> Some p"
  by (rule rt_wf_localE[OF assms(1)]) (use assms in auto)

lemma grows_set_host:
  assumes wf: "rt_wf s" and p: "hheap s p = Some h" "h_type h \<noteq> HT_LOCAL"
    and h': "h_type h' = h_type h" "h_host h' = h_host h"
  shows "grows s (set_host p h' (s\<lparr>allocs := al\<rparr>))"
proof -
  have mac: "host_mac (set_host p h' (s\<lparr>allocs := al\<rparr>)) = host_mac s"
    using host_mac_set_host[OF p(1) h'(2)] by (simp add: set_host_allocs)
  have "\<forall>q\<in>set (host_list s). \<exists>g. hheap s q = Some g"
    by (blast elim: rt_wf_hostE[OF wf])
  then show ?thesis
    using rt_wf_not_local[OF wf p] h' p(1) by (auto simp: grows_def mac)
qed

section \<open>One edge\<close>

lemma edge_source_cases:
  assumes wf: "rt_wf s"
  obtains (fail) s' where "edge_source s src ts = Some (Inl (- 1), s')" "rt_wf s'" "grows s s'" "allocs s \<noteq> []"
      "\<And>p. p \<in> set (host_list s) \<Longrightarrow> hheap s' p = hheap s p"
  | (ok) q skip s' g where "edge_source s src ts = Some (Inr (q, skip), s')" "rt_wf s'" "grows s s'"
      "q \<in> set (host_list s')" "host_mac s' q = Some (ip_mac src)" "hheap s' q = Some g"
      "skip \<or> h_type g \<noteq> HT_LOCAL" "allocs s = [] \<Longrightarrow> allocs s' = []"
      "\<And>p. p \<in> set (host_list s) \<Longrightarrow> p \<noteq> q \<or> skip \<Longrightarrow> hheap s' p = hheap s p"
      "\<And>h. q \<in> set (host_list s) \<Longrightarrow> hheap s q = Some h \<Longrightarrow> skip \<or> h_l_max_ts_ms h < ts"
proof (cases rule: find_host_by_addr_cases[OF rt_wf_da[OF wf] rt_wf_ascending[OF wf], of "ip_mac src"])
  case (1 i)
  let ?p = "host_list s ! i"
  have p: "?p \<in> set (host_list s)" using 1(2) by simp
  obtain h where h: "hheap s ?p = Some h" "host_wf s ?p h" by (rule rt_wf_hostE[OF wf p])
  have idx: "index_to_host s i = Some ?p" using index_to_host_list[OF rt_wf_da[OF wf] 1(2)] .
  show thesis
  proof (cases "h_type h \<noteq> HT_LOCAL \<and> h_l_max_ts_ms h < ts")
    case True
    let ?h = "h\<lparr>h_links := (h_links h)\<lparr>da_ct := 0\<rparr>\<rparr>" and ?s = "set_host ?p (h\<lparr>h_links := (h_links h)\<lparr>da_ct := 0\<rparr>\<rparr>) s"
    have "links_wf s ?p ((h_links h)\<lparr>da_ct := 0\<rparr>)"
      using h(2) by (auto simp: host_wf_def links_wf_def da_wf_def da_list_def ascending_def keyed_def)
    then have "rt_wf ?s" using True by (intro rt_wf_set_links_only[OF wf p h(1)]) auto
    moreover have "grows s ?s" using grows_set_host[OF wf h(1), of ?h "allocs s"] True by simp
    moreover have "host_mac ?s ?p = Some (ip_mac src)" using 1(3) host_mac_set_host[OF h(1)] by simp
    ultimately show thesis
      by (intro ok[of ?p False ?s ?h]) (use True 1 h idx p in \<open>auto simp: edge_source_def\<close>)
  next
    case False
    show thesis
      by (rule ok[of ?p True s h]) (use False 1 h idx p wf grows_refl[OF wf] in \<open>auto simp: edge_source_def\<close>)
  qed
next
  case 2
  show thesis
  proof (cases rule: host_add_normal[OF wf 2(2)])
    case (1 r s')
    show thesis by (rule fail[of s']) (use 1 2 in \<open>auto simp: edge_source_def\<close>)
  next
    case (2 q s' g)
    show thesis
      by (rule ok[of q False s' g]) (use 2 \<open>find_host_by_addr s (ip_mac src) = _\<close> in \<open>auto simp: edge_source_def\<close>)
  qed
qed

definition edge_present :: "routing \<Rightarrow> hptr \<Rightarrow> ether_addr \<Rightarrow> u32 \<Rightarrow> u64 \<Rightarrow> bool" where
  "edge_present s p mac rtt ts \<longleftrightarrow>
     (\<exists>h l. hheap s p = Some h \<and> l \<in> set (links_of h) \<and> link_mac s l = Some mac \<and>
        l_rtt_us l = rtt \<and> l_ts_ms l = ts)"

text \<open>Adding the link, once the destination is in the table.\<close>

lemma link_add_normal:
  assumes wf: "rt_wf s" and q: "q \<in> set (host_list s)" "hheap s q = Some g" "h_type g \<noteq> HT_LOCAL"
    and d: "d \<in> set (host_list s)" "host_mac s d = Some mac" "host_mac s q \<noteq> Some mac"
  obtains r s' where "link_add s q d rtt ts = Some (r, s')" "rt_wf s'" "grows s s'"
    "allocs s = [] \<Longrightarrow> r = 0 \<and> allocs s' = []" "\<And>p. p \<noteq> q \<Longrightarrow> hheap s' p = hheap s p"
    "r = 0 \<Longrightarrow> edge_present s' q mac rtt ts"
proof -
  have ne: "d \<noteq> q" using d by auto
  show thesis
  proof (cases rule: link_add_wf[OF wf q(1,2) d(1) ne, of rtt ts])
    case (2 al)
    show thesis
      by (rule that[OF 2]) (use wf grows_refl[OF wf] link_add_spare[OF _ 2] in \<open>auto simp: grows_def\<close>)
  next
    case (3 al ls)
    let ?h = "g\<lparr>h_links := ls, h_l_max_ts_ms := max ts (h_l_max_ts_ms g)\<rparr>"
    let ?s = "set_host q ?h (s\<lparr>allocs := al\<rparr>)"
    have "host_mac ?s d = Some mac" using d(2) ne by (simp add: host_mac_def)
    moreover have "\<lparr>l_dst = d, l_rtt_us = rtt, l_ts_ms = ts\<rparr> \<in> set (da_list ls)" using set_add[OF 3(2)] by simp
    ultimately have "edge_present ?s q mac rtt ts" by (force simp: edge_present_def link_mac_def)
    moreover have "grows s ?s" by (rule grows_set_host[OF wf q(2,3)]) simp_all
    ultimately show thesis
      by (intro that[OF 3(1) 3(3)]) (use link_add_spare[OF _ 3(1)] in auto)
  qed (use q(3) in simp)
qed

lemma edge_link_cases:
  assumes wf: "rt_wf s" and q: "q \<in> set (host_list s)" "hheap s q = Some g" "h_type g \<noteq> HT_LOCAL"
    and ne: "host_mac s q \<noteq> Some (ip_mac dst)"
  obtains (none) "edge_link s q dst rtt ts = None" "allocs s \<noteq> []"
  | (ret) r s' where "edge_link s q dst rtt ts = Some (r, s')" "rt_wf s'" "grows s s'"
      "allocs s = [] \<Longrightarrow> r = 0 \<and> allocs s' = []"
      "\<And>p. p \<in> set (host_list s) \<Longrightarrow> p \<noteq> q \<Longrightarrow> hheap s' p = hheap s p"
      "r = 0 \<Longrightarrow> edge_present s' q (ip_mac dst) rtt ts"
proof (cases rule: find_host_by_addr_cases[OF rt_wf_da[OF wf] rt_wf_ascending[OF wf], of "ip_mac dst"])
  case (1 i)
  have d: "host_list s ! i \<in> set (host_list s)" using 1(2) by simp
  obtain r s' where "link_add s q (host_list s ! i) rtt ts = Some (r, s')" "rt_wf s'" "grows s s'"
    "allocs s = [] \<Longrightarrow> r = 0 \<and> allocs s' = []" "\<And>p. p \<noteq> q \<Longrightarrow> hheap s' p = hheap s p"
    "r = 0 \<Longrightarrow> edge_present s' q (ip_mac dst) rtt ts"
    by (rule link_add_normal[OF wf q d 1(3) ne, of rtt ts]) blast
  then show thesis
    using 1 index_to_host_list[OF rt_wf_da[OF wf] 1(2)] by (intro ret[of r s']) (auto simp: edge_link_def)
next
  case miss: 2
  show thesis
  proof (cases rule: host_add_normal[OF wf miss(2)])
    case (1 r s')
    with miss show thesis by (intro none) (simp_all add: edge_link_def)
  next
    case (2 d t e)
    have qt: "q \<in> set (host_list t)" "hheap t q = Some g" "host_mac t q \<noteq> Some (ip_mac dst)"
      using 2(3,9) q ne by (auto simp: grows_def)
    obtain r s' where s': "link_add t q d rtt ts = Some (r, s')" "rt_wf s'" "grows t s'"
      "allocs t = [] \<Longrightarrow> r = 0 \<and> allocs s' = []" "\<And>p. p \<noteq> q \<Longrightarrow> hheap s' p = hheap t p"
      "r = 0 \<Longrightarrow> edge_present s' q (ip_mac dst) rtt ts"
      by (rule link_add_normal[OF 2(2) qt(1,2) q(3) 2(4,8) qt(3), of rtt ts]) blast
    show thesis
      by (rule ret[of r s']) (use s' 2 miss grows_trans[OF 2(3) s'(3)] in \<open>auto simp: edge_link_def\<close>)
  qed
qed

section \<open>The loop\<close>

text \<open>The loop's variables: the current source is in the table under its address.\<close>

definition src_ok :: "routing \<Rightarrow> ipv4_host \<Rightarrow> bool \<Rightarrow> hptr \<Rightarrow> bool" where
  "src_ok s ip c q \<longleftrightarrow>
     q \<in> set (host_list s) \<and> host_mac s q = Some (ip_mac ip) \<and>
     (\<exists>g. hheap s q = Some g \<and> (c \<or> h_type g \<noteq> HT_LOCAL))"

lemma src_ok_grows: "grows s s' \<Longrightarrow> src_ok s ip c q \<Longrightarrow> src_ok s' ip c q"
  by (fastforce simp: src_ok_def grows_def)

text \<open>What a run of the loop may end in.\<close>

definition settles :: "routing \<Rightarrow> (int \<times> routing) option \<Rightarrow> bool" where
  "settles s res =
     (case res of
        None \<Rightarrow> allocs s \<noteq> []
      | Some (r, s') \<Rightarrow> rt_wf s' \<and> grows s s' \<and> (allocs s = [] \<longrightarrow> r = 0 \<and> allocs s' = []))"

lemma settles_trans:
  assumes "grows s t" and "allocs s = [] \<Longrightarrow> allocs t = []" and "settles t res"
  shows "settles s res"
  using assms grows_trans[OF assms(1)] by (auto simp: settles_def split: option.splits)

lemma edge_link_settles:
  assumes wf: "rt_wf s" and q: "src_ok s ip False q" and ne: "ip_mac ip \<noteq> ip_mac dst"
    and rest: "\<And>u. rt_wf u \<Longrightarrow> src_ok u ip False q \<Longrightarrow> settles u (k u)"
  shows "settles s (do { (ret, u) \<leftarrow> edge_link s q dst rtt ts; if ret \<noteq> 0 then Some (- 2, u) else k u })"
proof -
  from q obtain g where g: "q \<in> set (host_list s)" "hheap s q = Some g" "h_type g \<noteq> HT_LOCAL"
    "host_mac s q \<noteq> Some (ip_mac dst)"
    using ne by (auto simp: src_ok_def)
  show ?thesis
  proof (cases rule: edge_link_cases[OF wf g, of rtt ts])
    case 1
    then show ?thesis by (simp add: settles_def)
  next
    case (2 r u)
    have "settles u (k u)" using rest[OF 2(2) src_ok_grows[OF 2(3) q]] .
    then have "settles s (k u)" using 2(4) by (intro settles_trans[OF 2(3)]) auto
    with 2(1-4) show ?thesis by (auto simp: settles_def)
  qed
qed

lemma update_edges_loop_settles:
  assumes "rt_wf s" and "\<And>q. p = Some q \<Longrightarrow> src_ok s ip c q"
  shows "settles s (update_edges_loop es ip p c s)"
  using assms
proof (induction es arbitrary: ip p c s)
  case Nil
  then show ?case by (simp add: settles_def grows_refl)
next
  case (Cons e es)
  let ?src = "pkt_ipv4_unpack (e_src e)" and ?dst = "pkt_ipv4_unpack (e_dst e)"
  let ?ts = "ntohll (e_ts_ms e)"
  note step = update_edges_loop.simps(2) Let_def ipv4_cmp_mac_def mac_cmp_eq
  consider (skip) "ip_mac ?src = ip_mac ?dst \<or> c \<and> ip_mac ?src = ip_mac ip"
    | (new) "ip_mac ?src \<noteq> ip_mac ?dst" "p = None \<or> ip_mac ?src \<noteq> ip_mac ip" "\<not> (c \<and> ip_mac ?src = ip_mac ip)"
    | (same) q where "ip_mac ?src \<noteq> ip_mac ?dst" "p = Some q" "ip_mac ?src = ip_mac ip" "\<not> c"
    by (cases p) blast+
  then show ?case
  proof cases
    case skip
    with Cons.IH[OF Cons.prems] show ?thesis by (simp only: step if_True)
  next
    case new
    show ?thesis
    proof (cases rule: edge_source_cases[OF Cons.prems(1), of ?src ?ts])
      case (1 t)
      with new show ?thesis by (auto simp: step settles_def)
    next
      case (2 q skip t g)
      have q: "src_ok t ?src skip q" using 2 by (auto simp: src_ok_def)
      have "settles t (if skip then update_edges_loop es ?src (Some q) True t
        else do { (ret, u) \<leftarrow> edge_link t q ?dst (ntohl (e_rtt_us e)) ?ts;
          if ret \<noteq> 0 then Some (- 2, u) else update_edges_loop es ?src (Some q) False u })"
      proof (cases skip)
        case True
        with Cons.IH[of t "Some q" ?src True] 2(2) q show ?thesis by simp
      next
        case False
        with edge_link_settles[OF 2(2) _ new(1), of q "\<lambda>u. update_edges_loop es ?src (Some q) False u"]
          Cons.IH[of _ "Some q" ?src False] q
        show ?thesis by simp
      qed
      from settles_trans[OF 2(3,8) this] new 2(1) show ?thesis
        by (cases skip) (auto simp: step)
    qed
  next
    case (same q)
    have q: "src_ok s ip False q" using Cons.prems(2) same by simp
    have "settles s (do { (ret, u) \<leftarrow> edge_link s q ?dst (ntohl (e_rtt_us e)) ?ts;
          if ret \<noteq> 0 then Some (- 2, u) else update_edges_loop es ip (Some q) False u })"
      by (rule edge_link_settles[OF Cons.prems(1) q]) (use same Cons.IH[of _ "Some q" ip False] in auto)
    with same show ?thesis by (simp add: step)
  qed
qed

text \<open>Edges of a source that are not newer than the newest known one leave its links alone.\<close>

definition stale :: "pkt_edge list \<Rightarrow> ether_addr \<Rightarrow> u64 \<Rightarrow> bool" where
  "stale es mac ts \<longleftrightarrow> (\<forall>e\<in>set es. p_mac (e_src e) = mac \<longrightarrow> ntohll (e_ts_ms e) \<le> ts)"

lemma ip_mac_unpack [simp]: "ip_mac (pkt_ipv4_unpack x) = p_mac x"
  by (simp add: pkt_ipv4_unpack_def)

lemma edge_link_other:
  assumes wf: "rt_wf s" and p: "src_ok s ip False p" and ne: "ip_mac ip \<noteq> ip_mac dst"
    and res: "edge_link s p dst rtt ts = Some (r, u)"
  shows "rt_wf u" and "grows s u" and "q \<in> set (host_list s) \<Longrightarrow> q \<noteq> p \<Longrightarrow> hheap u q = hheap s q"
proof -
  from p obtain g where g: "p \<in> set (host_list s)" "hheap s p = Some g" "h_type g \<noteq> HT_LOCAL"
    "host_mac s p \<noteq> Some (ip_mac dst)" using ne by (auto simp: src_ok_def)
  have "rt_wf u \<and> grows s u \<and> (q \<in> set (host_list s) \<longrightarrow> q \<noteq> p \<longrightarrow> hheap u q = hheap s q)"
    by (rule edge_link_cases[OF wf g, of rtt ts]) (use res in auto)
  then show "rt_wf u" "grows s u" "q \<in> set (host_list s) \<Longrightarrow> q \<noteq> p \<Longrightarrow> hheap u q = hheap s q" by auto
qed

lemma edge_source_stale:
  assumes wf: "rt_wf s" and q: "q \<in> set (host_list s)" "hheap s q = Some h" "host_mac s q = Some mac"
    and old: "ip_mac src = mac \<longrightarrow> ts \<le> h_l_max_ts_ms h"
    and res: "edge_source s src ts = Some (x, t)"
  shows "rt_wf t" and "grows s t" and "hheap t q = Some h"
    and "x = Inr (p, c) \<Longrightarrow> src_ok t src c p \<and> (p = q \<longrightarrow> c)"
proof -
  have "rt_wf t \<and> grows s t \<and> hheap t q = Some h \<and> (x = Inr (p, c) \<longrightarrow> src_ok t src c p \<and> (p = q \<longrightarrow> c))"
  proof (cases rule: edge_source_cases[OF wf, of src ts])
    case (1 t')
    with res q show ?thesis by auto
  next
    case (2 p' skip t' g)
    have ok: "src_ok t' src skip p'" using 2 by (auto simp: src_ok_def)
    have "p' \<noteq> q \<or> skip"
    proof (rule ccontr)
      assume "\<not> (p' \<noteq> q \<or> skip)"
      then have "p' = q" "\<not> skip" by auto
      moreover from this have "ip_mac src = mac" using 2(3,5) q by (simp add: grows_def)
      ultimately show False using 2(10)[of h] q old by simp
    qed
    with 2 res q ok show ?thesis by auto
  qed
  then show "rt_wf t" "grows s t" "hheap t q = Some h"
    "x = Inr (p, c) \<Longrightarrow> src_ok t src c p \<and> (p = q \<longrightarrow> c)" by auto
qed

lemma update_edges_loop_stale:
  assumes "rt_wf s" and "\<And>p'. p = Some p' \<Longrightarrow> src_ok s ip c p'"
    and "q \<in> set (host_list s)" and "hheap s q = Some h" and "host_mac s q = Some mac"
    and "stale es mac (h_l_max_ts_ms h)" and "p = Some q \<Longrightarrow> c"
    and "update_edges_loop es ip p c s = Some (r, s')"
  shows "hheap s' q = Some h"
  using assms
proof (induction es arbitrary: ip p c s)
  case (Cons e es)
  note wf = Cons.prems(1) and q = Cons.prems(3-5)
  have old: "ip_mac (pkt_ipv4_unpack (e_src e)) = mac \<longrightarrow> ntohll (e_ts_ms e) \<le> h_l_max_ts_ms h"
    and es: "stale es mac (h_l_max_ts_ms h)"
    using Cons.prems(6) by (auto simp: stale_def)
  note src = edge_source_stale[OF wf q old]
  have stay: "q \<in> set (host_list t) \<and> host_mac t q = Some mac" if "grows s t" for t
    using that q by (auto simp: grows_def)
  from Cons.prems(8) show ?case
  proof (cases rule: update_edges_loop_Cons)
    case skip
    then show ?thesis using Cons.IH[OF wf Cons.prems(2) q es] Cons.prems(7) by blast
  next
    case no_src
    then show ?thesis using src(3) by blast
  next
    case (pass q' t)
    from src[OF pass(1)] have t: "rt_wf t" "grows s t" "hheap t q = Some h"
      "src_ok t (pkt_ipv4_unpack (e_src e)) True q'" by blast+
    show ?thesis
      by (rule Cons.IH[OF t(1) _ _ t(3) _ es _ pass(2)]) (use t(4) stay[OF t(2)] in auto)
  next
    case (new_src q' t k u)
    from src[OF new_src(1)] have t: "rt_wf t" "grows s t" "hheap t q = Some h"
      "src_ok t (pkt_ipv4_unpack (e_src e)) False q'" "q' \<noteq> q" by blast+
    note u = edge_link_other[OF t(1,4) new_src(4,2)]
    have hu: "hheap u q = Some h" using u(3)[of q] stay[OF t(2)] t(3,5) by simp
    have "src_ok u (pkt_ipv4_unpack (e_src e)) False q'" by (rule src_ok_grows[OF u(2) t(4)])
    moreover note stay[OF grows_trans[OF t(2) u(2)]]
    ultimately have "hheap s' q = Some h" if "update_edges_loop es (pkt_ipv4_unpack (e_src e)) (Some q') False u = Some (r, s')"
      by (intro Cons.IH[OF u(1) _ _ hu _ es _ that]) (use t(5) in auto)
    with new_src(3) hu show ?thesis by auto
  next
    case (same_src q' k u)
    have p: "src_ok s ip False q'" using Cons.prems(2)[OF same_src(1)] same_src(2) by simp
    have "ip_mac ip \<noteq> ip_mac (pkt_ipv4_unpack (e_dst e))" using same_src(3,6) by simp
    note u = edge_link_other[OF wf p this same_src(4)]
    have ne: "q' \<noteq> q" using Cons.prems(7) same_src by auto
    have hu: "hheap u q = Some h" using u(3)[of q] q ne by simp
    have "hheap s' q = Some h" if "update_edges_loop es ip p False u = Some (r, s')"
      using src_ok_grows[OF u(2) p] stay[OF u(2)]
      by (intro Cons.IH[OF u(1) _ _ hu _ es _ that]) (use ne same_src(1) in auto)
    with same_src(5) hu show ?thesis by auto
  qed
qed simp

section \<open>The whole operation\<close>

lemma insort_cmp_pure: "\<exists>ys. insort_cmp (\<lambda>a b. Some (c a b)) x xs = Some ys"
  by (induction xs) auto

lemma qsort_pure: "\<exists>ys. qsort (\<lambda>a b. Some (c a b)) xs = Some ys"
proof (induction xs)
  case (Cons x xs)
  then show ?case using insort_cmp_pure[of c x] by auto
qed simp

lemma local_link_grows:
  assumes wf: "rt_wf s" and gr: "grows s s'"
  shows "local_link s' mac rtt ts \<longleftrightarrow> local_link s mac rtt ts"
proof -
  obtain p h where p: "local_host s = Some p" "p \<in> set (host_list s)" "hheap s p = Some h"
    by (rule rt_wf_localE[OF wf])
  have "link_mac s' l = link_mac s l" if "l \<in> set (links_of h)" for l
    using rt_wf_links[OF wf p(2,3)] gr that by (auto simp: grows_def links_wf_def link_mac_def)
  moreover have "local_host s' = Some p" "hheap s' p = Some h"
    using gr p by (auto simp: grows_def)
  ultimately show ?thesis using p by (auto simp: local_link_def)
qed

lemma rt_update_edges_start:
  assumes wf: "rt_wf s" and free: "lock s = RW_Free"
  obtains (none) "rt_update_edges s es = None" "allocs s \<noteq> []"
  | (fail) r s1 where "rt_update_edges s es = Some (r, s1\<lparr>lock := RW_Free\<rparr>)" "r \<noteq> 0" "rt_wf s1"
      "grows s s1" "allocs s \<noteq> []"
  | (go) s1 where "rt_update_edges s es =
        do { (ret, s') \<leftarrow> update_cache s1; unlock_ret (if ret \<noteq> 0 then - 5 else 0) s' }"
      "rt_wf s1" "grows s s1" "lock s1 = RW_Write" "allocs s = [] \<Longrightarrow> allocs s1 = []"
proof -
  let ?s = "locked s"
  have wfl: "rt_wf ?s" using wf by simp
  obtain es' where es': "qsort (\<lambda>e1 e2. Some (pkt_edges_cmp_src e1 e2)) es = Some es'"
    using qsort_pure by blast
  have gr: "grows s t" if "grows ?s t" for t using that by (simp add: grows_def)
  have set: "settles ?s (update_edges_loop es' no_ip_host None False ?s)"
    by (rule update_edges_loop_settles[OF wfl]) simp
  note start = rt_update_edges_def wrlock_def free es'
  show thesis
  proof (cases "update_edges_loop es' no_ip_host None False ?s")
    case None
    with set show thesis by (intro none) (simp_all add: start settles_def)
  next
    case (Some rs)
    obtain r s1 where rs: "rs = (r, s1)" by (cases rs)
    with set Some have s1: "rt_wf s1" "grows ?s s1" "allocs s = [] \<longrightarrow> r = 0 \<and> allocs s1 = []"
      by (simp_all add: settles_def)
    have lk: "lock s1 = RW_Write" using update_edges_loop_lock[OF Some[unfolded rs]] by simp
    show thesis
    proof (cases "r = 0")
      case True
      with Some rs s1 lk show thesis by (intro go[of s1]) (simp_all add: start gr)
    next
      case False
      with Some rs s1 lk show thesis
        by (intro fail[of r s1]) (auto simp: start gr unlock_ret_Write)
    qed
  qed
qed

text \<open>The end that the operations share: \<open>update_cache\<close> and the release of the lock.\<close>

lemma update_cache_unlock:
  assumes wf: "rt_wf s" and es: "da_wf (edges s)" and lk: "lock s = RW_Write"
    and res: "do { (ret, t) \<leftarrow> update_cache s; unlock_ret (if ret \<noteq> 0 then e else 0) t } = Some (r, s')"
    and e: "e \<noteq> 0"
  shows "lock s' = RW_Free" and "r = 0 \<or> r = e"
    and "r = 0 \<Longrightarrow> rt_wf s' \<and> paths_current s' \<and> da_wf (edges s') \<and>
      da_list (edges s') = da_list (edges s) @ exported s' \<and> keeps_direct s s'"
proof -
  from res obtain ret t where t: "update_cache s = Some (ret, t)"
    "unlock_ret (if ret \<noteq> 0 then e else 0) t = Some (r, s')" by (auto simp: bind_Some_iff)
  have lt: "lock t = RW_Write" using update_cache_lock[OF t(1)] lk by simp
  with t(2) have s': "s' = t\<lparr>lock := RW_Free\<rparr>" "r = (if ret \<noteq> 0 then e else 0)"
    by (auto simp: unlock_ret_Write)
  then show "lock s' = RW_Free" "r = 0 \<or> r = e" by auto
  assume "r = 0"
  with s'(2) e have "ret = 0" by (auto split: if_splits)
  have "exported s' = exported t"
    by (simp add: s' exported_def host_edges_def [abs_def] link_edges_def edge_of_def cong: if_cong)
  with update_cache_ok[OF wf es t(1)[unfolded \<open>ret = 0\<close>]]
  show "rt_wf s' \<and> paths_current s' \<and> da_wf (edges s') \<and>
      da_list (edges s') = da_list (edges s) @ exported s' \<and> keeps_direct s s'"
    by (simp add: s'(1))
qed

end
