(* ===== verification/Routing_Forward.thy ===== *)
theory Routing_Forward
  imports Routing_Edges
begin

text \<open>
  Forwarding: \<open>rt_dhosts_to_host\<close>, \<open>rt_hosts_free\<close>, \<open>rt_get_edges\<close> and \<open>rt_edges_free\<close> of
  src/routing.c.  A list of \<open>struct rt_hosts\<close> is the list of its \<open>addr\<close> fields, the pointers
  that the callers convert to peers with \<open>dp_from_ip_host\<close>.
\<close>

section \<open>Definitions\<close>

text \<open>\<open>error_ret:\<close>\<close>

definition error_ret :: "int \<Rightarrow> routing \<Rightarrow> (int \<times> ip_ptr list \<times> routing) option" where
  "error_ret ret s = do { s' \<leftarrow> unlock s; Some (ret, [], s') }"

text \<open>
  The loop that follows the path from \<open>src\<close> to \<open>cur\<close>; \<open>nxt i\<close> is \<open>rd->next[i][cur_i]\<close>.  Nothing
  but the shape of the matrix makes it end.  Failed appends go unnoticed.
\<close>

partial_function (option) follow ::
  "(nat \<Rightarrow> nat option) \<Rightarrow> nat \<Rightarrow> nat \<Rightarrow> nat da \<Rightarrow> allocs \<Rightarrow> (nat da \<times> allocs) option" where
  "follow nxt cur_i next_i d al =
     Option.bind (nxt next_i) (\<lambda>next_i.
       if next_i = NEXT_DISCON then Some (snd (DA_ADD_TO_END d cur_i al))
       else follow nxt cur_i next_i (fst (snd (DA_ADD_TO_END d next_i al)))
              (snd (snd (DA_ADD_TO_END d next_i al))))"

text \<open>
  The inner loop over one destination \<open>i\<close>, with \<open>nxt k\<close> for \<open>rd->next[k][i]\<close>: whether the path
  to it starts with the whole of \<open>src_to_cur\<close>.
\<close>

function dst_walk :: "(nat \<Rightarrow> nat option) \<Rightarrow> nat da \<Rightarrow> nat \<Rightarrow> nat \<Rightarrow> bool option" where
  "dst_walk nxt src_to_cur next_i j = do {
     next_i \<leftarrow> nxt next_i;
     x \<leftarrow> (if j < length (da_items src_to_cur) then Some (da_items src_to_cur ! j) else None);
     if next_i \<noteq> x then Some False
     else if j + 1 \<ge> da_ct src_to_cur then Some True
     else if next_i = NEXT_DISCON then Some False
     else dst_walk nxt src_to_cur next_i (j + 1)
   }"
  by pat_completeness auto
termination
  by (relation "measure (\<lambda>(nxt, d, next_i, j). da_ct d - j)") auto

declare dst_walk.simps [simp del]

definition collect_dst ::
  "routing \<Rightarrow> nat \<Rightarrow> nat da \<Rightarrow> nat \<Rightarrow> nat da \<times> allocs \<Rightarrow> (nat da \<times> allocs) option" where
  "collect_dst s src_i src_to_cur i = (\<lambda>(dsts, al). do {
     hit \<leftarrow> dst_walk (\<lambda>k. next_at s k i) src_to_cur src_i 0;
     Some (if hit then snd (DA_ADD_TO_END dsts i al) else (dsts, al))
   })"

text \<open>The list that is handed out; a failed \<open>malloc\<close> is dereferenced.\<close>

fun build_hosts :: "routing \<Rightarrow> nat list \<Rightarrow> allocs \<Rightarrow> (ip_ptr list \<times> allocs) option" where
  "build_hosts s [] al = Some ([], al)"
| "build_hosts s (i # is) al =
     (let (ok, al1) = alloc al
      in if \<not> ok then None
      else do {
        p \<leftarrow> index_to_host s i;
        h \<leftarrow> hheap s p;
        (hs, al2) \<leftarrow> build_hosts s is al1;
        Some (h_host h # hs, al2)
      })"

definition mcast_hosts :: "routing \<Rightarrow> nat \<Rightarrow> ether_addr \<Rightarrow> (int \<times> ip_ptr list \<times> routing) option" where
  "mcast_hosts s cur_i src_mac = do {
     src \<leftarrow> find_host_by_addr s src_mac;
     case src of
       None \<Rightarrow> error_ret (- 2) s
     | Some src_i \<Rightarrow>
         let (fail, src_to_cur, al1) = DA_INIT 8 (allocs s)
         in if fail then error_ret (- 33) (s\<lparr>allocs := al1\<rparr>)
         else do {
           path \<leftarrow> path_at s src_i cur_i;
           if path = PATH_DISCON then error_ret 0 (s\<lparr>allocs := al1\<rparr>)
           else do {
             (src_to_cur, al2) \<leftarrow> follow (\<lambda>i. next_at s i cur_i) cur_i src_i src_to_cur al1;
             let (fail, dsts, al3) = DA_INIT (m_ct s) al2;
             if fail then error_ret (- 34) (s\<lparr>allocs := al3\<rparr>)
             else do {
               (dsts, al4) \<leftarrow> foldM (collect_dst s src_i src_to_cur) [0..<m_ct s] (dsts, al3);
               (hs, al5) \<leftarrow> build_hosts s (da_list dsts) al4;
               Some (0, hs, s\<lparr>allocs := al5\<rparr>)
             }
           }
         }
   }"

definition ucast_host :: "routing \<Rightarrow> nat \<Rightarrow> ether_addr \<Rightarrow> (int \<times> ip_ptr list \<times> routing) option" where
  "ucast_host s cur_i dst_mac = do {
     dst \<leftarrow> find_host_by_addr s dst_mac;
     case dst of
       None \<Rightarrow> error_ret (- 1) s
     | Some dst_i \<Rightarrow> do {
         next_i \<leftarrow> next_at s cur_i dst_i;
         path \<leftarrow> path_at s cur_i dst_i;
         if path = 0 then Some (0, [], s)
         else let (ok, al) = alloc (allocs s)
         in if \<not> ok then error_ret (- 3) (s\<lparr>allocs := al\<rparr>)
         else do {
           p \<leftarrow> index_to_host s (if next_i = NEXT_DISCON then dst_i else next_i);
           h \<leftarrow> hheap s p;
           Some (0, [h_host h], s\<lparr>allocs := al\<rparr>)
         }
       }
   }"

definition rt_dhosts_to_host ::
  "routing \<Rightarrow> ether_addr \<Rightarrow> ether_addr \<Rightarrow> (int \<times> ip_ptr list \<times> routing) option" where
  "rt_dhosts_to_host s src_mac dst_mac = do {
     s \<leftarrow> rdlock s;
     (ret, s) \<leftarrow> (if m_ct s \<noteq> da_ct (hosts s) then compute_paths s else Some (0, s));
     if ret \<noteq> 0 then error_ret ret s
     else do {
       lp \<leftarrow> local_host s;
       lmac \<leftarrow> host_mac s lp;
       cur \<leftarrow> find_host_by_addr s lmac;
       case cur of
         None \<Rightarrow> error_ret (- 13) s
       | Some cur_i \<Rightarrow>
           if ether_addr_is_mcast dst_mac then mcast_hosts s cur_i src_mac
           else ucast_host s cur_i dst_mac
     }
   }"

definition rt_hosts_free :: "routing \<Rightarrow> ip_ptr list \<Rightarrow> routing option" where
  "rt_hosts_free s hs = unlock s"

definition rt_get_edges :: "routing \<Rightarrow> (pkt_edge list \<times> nat \<times> routing) option" where
  "rt_get_edges s = do { s \<leftarrow> rdlock s; Some (da_list (edges s), da_ct (edges s), s) }"

definition rt_edges_free :: "routing \<Rightarrow> routing option" where
  "rt_edges_free s = unlock s"

section \<open>Reading current matrices\<close>

text \<open>Everything forwarding needs to know of current matrices.\<close>

lemma next_at_current:
  assumes wf: "rt_wf s" and cur: "paths_current s" and i: "i < length (host_list s)" and j: "j < length (host_list s)"
  obtains (direct) "next_at s i j = Some NEXT_DISCON"
  | (hop) k where "next_at s i j = Some k" "k < length (host_list s)" "k \<noteq> i" "k \<noteq> j"
      "path_at s i k \<noteq> Some 0" "path_at s k j \<noteq> Some 0" "k \<noteq> NEXT_DISCON"
proof -
  let ?n = "length (host_list s)"
  obtain p0 p nx where m: "mats s = M_Valid p nx" and inv: "fw_inv ?n p0 (p, nx)"
    by (rule paths_currentE[OF wf cur]) (rule that)
  have at: "a < ?n \<Longrightarrow> b < ?n \<Longrightarrow> path_at s a b = Some (mget p a b)"
    "a < ?n \<Longrightarrow> b < ?n \<Longrightarrow> next_at s a b = Some (mget nx a b)" for a b
    using fw_invD(1,2)[OF inv] m by (simp_all add: path_at_def next_at_def mdim_def)
  show thesis
  proof (cases "mget nx i j = NEXT_DISCON")
    case True
    with at(2)[OF i j] show thesis by (intro direct) simp
  next
    case False
    with fw_invD(3)[OF inv i j] show thesis
      by (intro hop[of "mget nx i j"]) (simp_all add: fw_entry_def at i j)
  qed
qed

lemma next_at_self:
  assumes wf: "rt_wf s" and cur: "paths_current s" and i: "i < length (host_list s)"
  shows "next_at s i i = Some NEXT_DISCON"
proof -
  let ?n = "length (host_list s)"
  obtain p0 p nx where m: "mats s = M_Valid p nx" "\<forall>i<?n. row_adj s p0 i" "mdim ?n p0"
    and inv: "fw_inv ?n p0 (p, nx)"
    and fw: "(p, nx) = floyd_warshall ?n (p0, replicate ?n (replicate ?n NEXT_DISCON))"
    by (rule paths_currentE[OF wf cur]) (rule that)
  have "mget nx i i = NEXT_DISCON"
    using floyd_warshall_self[OF m(3) _ i] m(2) fw[symmetric] by (simp add: row_adj_def)
  with m(1) i fw_invD(2)[OF inv] show ?thesis by (simp add: next_at_def mdim_def)
qed

text \<open>The next hops towards one destination form no circle, so following them comes to an end.\<close>

lemma hops_wf:
  assumes wf: "rt_wf s" and cur: "paths_current s" and j: "j < length (host_list s)"
  shows "wf {(k, i). i < length (host_list s) \<and> next_at s i j = Some k \<and> k \<noteq> NEXT_DISCON}"
proof -
  let ?n = "length (host_list s)"
  obtain p0 p nx where m: "mats s = M_Valid p nx" and inv: "fw_inv ?n p0 (p, nx)"
    by (rule paths_currentE[OF wf cur]) (rule that)
  have "hop_rel ?n nx j = (\<lambda>i. (i, mget nx i j)) ` {i. i < ?n \<and> mget nx i j \<noteq> NEXT_DISCON}"
    by (auto simp: hop_rel_def)
  then have "finite (hop_rel ?n nx j)" by simp
  then have "wf ((hop_rel ?n nx j)\<inverse>)"
    using fw_invD(4)[OF inv j] by (rule finite_acyclic_wf_converse)
  moreover have "{(k, i). i < ?n \<and> next_at s i j = Some k \<and> k \<noteq> NEXT_DISCON} \<subseteq> (hop_rel ?n nx j)\<inverse>"
    using m fw_invD(2)[OF inv] j by (auto simp: hop_rel_def next_at_def mdim_def)
  ultimately show ?thesis by (rule wf_subset)
qed

lemma DA_ADD_TO_END_ok:
  assumes "da_wf d"
  obtains d' where "DA_ADD_TO_END d x [] = (False, d', [])" "da_wf d'" "da_list d' = da_list d @ [x]"
proof -
  from DA_ADD_TO_END_spare obtain d' where d': "DA_ADD_TO_END d x [] = (False, d', [])" by (rule exE)
  with da.add_ok[OF assms d'] da.add_inv[OF assms d'] show thesis by (intro that) auto
qed

text \<open>The path that \<open>follow\<close> collects ends with \<open>cur\<close>; all its hosts are in the table.\<close>

lemma follow_returns:
  assumes wf: "rt_wf s" and cur: "paths_current s" and c: "c < length (host_list s)"
    and "i < length (host_list s)" and "da_wf d"
  shows "\<exists>ks d'. follow (\<lambda>i. next_at s i c) c i d [] = Some (d', []) \<and> da_wf d' \<and>
    da_list d' = da_list d @ ks @ [c] \<and> (\<forall>k\<in>set ks. k < length (host_list s))"
  using hops_wf[OF wf cur c] assms(4,5)
proof (induction i arbitrary: d rule: wf_induct_rule)
  case (less i)
  show ?case
  proof (cases rule: next_at_current[OF wf cur less.prems(1) c])
    case 1
    obtain d' where d': "DA_ADD_TO_END d c [] = (False, d', [])" "da_wf d'" "da_list d' = da_list d @ [c]"
      by (rule DA_ADD_TO_END_ok[OF less.prems(2)])
    with 1 show ?thesis by (intro exI[of _ "[]"] exI[of _ d']) (simp add: follow.simps[of _ _ i])
  next
    case (2 k)
    obtain d1 where d1: "DA_ADD_TO_END d k [] = (False, d1, [])" "da_wf d1" "da_list d1 = da_list d @ [k]"
      by (rule DA_ADD_TO_END_ok[OF less.prems(2)])
    have "(k, i) \<in> {(k, i). i < length (host_list s) \<and> next_at s i c = Some k \<and> k \<noteq> NEXT_DISCON}"
      using 2 less.prems(1) by simp
    from less.IH[OF this 2(2) d1(2)] obtain ks d' where
      "follow (\<lambda>i. next_at s i c) c k d1 [] = Some (d', [])" "da_wf d'"
      "da_list d' = da_list d1 @ ks @ [c]" "\<forall>k\<in>set ks. k < length (host_list s)" by blast
    with 2 d1 show ?thesis
      by (intro exI[of _ "k # ks"] exI[of _ d']) (simp add: follow.simps[of _ _ i])
  qed
qed

section \<open>Multicast\<close>

text \<open>A walk that succeeds has arrived at the last host of the collected path.\<close>

lemma dst_walk_hit:
  assumes "dst_walk nxt d i j = Some True" and "da_wf d" and "j < da_ct d"
  shows "\<exists>k. nxt k = Some (last (da_list d))"
  using assms
proof (induction nxt d i j rule: dst_walk.induct)
  case (1 nxt d i j)
  from "1.prems"(1) obtain k where k: "nxt i = Some k" "j < length (da_items d)" "k = da_items d ! j"
    "da_ct d \<le> j + 1 \<or> dst_walk nxt d k (j + 1) = Some True"
    by (subst (asm) dst_walk.simps) (auto simp: bind_Some_iff split: if_splits)
  show ?case
  proof (cases "da_ct d \<le> j + 1")
    case True
    with "1.prems"(3) have j: "j = da_ct d - 1" by simp
    have "last (da_list d) = da_list d ! j"
      using "1.prems"(2,3) by (subst last_conv_nth) (auto simp: j length_da_list simp flip: length_greater_0_conv)
    with k(1,3) "1.prems"(3) show ?thesis by (auto simp: da_list_nth)
  next
    case False
    with k(4) have w: "dst_walk nxt d k (j + 1) = Some True" by simp
    from "1.prems"(1) k False have "k \<noteq> NEXT_DISCON"
      by (subst (asm) dst_walk.simps) (auto split: if_splits)
    with "1.IH"[OF k(1), of "da_items d ! j"] k False w "1.prems"(2) show ?thesis by simp
  qed
qed

lemma dst_walk_total:
  assumes "\<forall>k<n. \<exists>x. nxt k = Some x \<and> (x = NEXT_DISCON \<or> x < n)"
    and "da_wf d" and "j < da_ct d" and "i < n"
  shows "\<exists>b. dst_walk nxt d i j = Some b"
  using assms
proof (induction nxt d i j rule: dst_walk.induct)
  case (1 nxt d i j)
  from "1.prems"(1,4) obtain k where k: "nxt i = Some k" "k = NEXT_DISCON \<or> k < n" by blast
  have len: "j < length (da_items d)" using "1.prems"(2,3) by (simp add: da_wf_def)
  show ?case
  proof (cases "k = da_items d ! j \<and> j + 1 < da_ct d \<and> k \<noteq> NEXT_DISCON")
    case True
    from "1.IH"[OF k(1), of "da_items d ! j"] True k len "1.prems" have "\<exists>b. dst_walk nxt d k (j + 1) = Some b"
      by simp
    with True k len show ?thesis by (subst dst_walk.simps) simp
  next
    case False
    with k len show ?thesis by (subst dst_walk.simps) auto
  qed
qed

text \<open>Whom the local host reaches is one of its direct peers.\<close>

definition is_peer :: "routing \<Rightarrow> nat \<Rightarrow> bool" where
  "is_peer s i \<longleftrightarrow> (\<exists>h d. i < length (host_list s) \<and> hheap s (host_list s ! i) = Some h \<and>
     h_type h = HT_DIRECT \<and> h_host h = IP_Dp d)"

lemma reached_is_peer:
  assumes wf: "rt_wf s" and cur: "paths_current s"
    and c: "c < length (host_list s)" "local_host s = Some (host_list s ! c)"
    and i: "i < length (host_list s)" "i \<noteq> c" "path_at s c i \<noteq> Some 0"
  shows "is_peer s i"
proof -
  obtain pm nx where m: "mats s = M_Valid pm nx" "path_at s c i = Some (mget pm c i)"
    by (rule path_at_current[OF wf cur c(1) i(1)])
  obtain w where "link_weight s c i w"
    by (rule path_entry[OF wf cur m(1) c(1) i(1)]) (use i m(2) in \<open>auto simp: PATH_DISCON_def\<close>)
  then obtain h l where l: "hheap s (host_list s ! c) = Some h" "l \<in> set (links_of h)"
    "l_dst l = host_list s ! i" by (auto simp: link_weight_def)
  have mem: "host_list s ! c \<in> set (host_list s)" "host_list s ! i \<in> set (host_list s)" using c(1) i(1) by simp_all
  have "h_type h = HT_LOCAL" by (rule rt_wf_localE[OF wf]) (use c(2) l(1) in auto)
  with rt_wf_host[OF wf mem(1) l(1)] l(2,3) obtain g where g: "hheap s (host_list s ! i) = Some g"
    "h_type g = HT_DIRECT" by (auto simp: host_wf_def direct_links_def)
  with rt_wf_host[OF wf mem(2) g(1)] i(1) show ?thesis
    by (auto simp: is_peer_def host_wf_def split: ip_ptr.splits)
qed

text \<open>
  The destinations that are collected: all of them lie behind the local host \<open>c\<close>, which is linked
  to each, and none is the source itself.
\<close>

lemma collect_dst_ok:
  assumes wf: "rt_wf s" and cur: "paths_current s" and small: "length (host_list s) \<le> NEXT_DISCON"
    and c: "c < length (host_list s)" "local_host s = Some (host_list s ! c)"
    and src: "src_i < length (host_list s)" and d: "da_wf d" "da_list d = ks @ [c]"
      "\<forall>k\<in>set ks. k < length (host_list s)"
    and i: "i < length (host_list s)" and dsts: "da_wf dsts" "\<forall>x\<in>set (da_list dsts). is_peer s x \<and> x \<noteq> src_i"
  shows "\<exists>dsts'. collect_dst s src_i d i (dsts, []) = Some (dsts', []) \<and> da_wf dsts' \<and>
    (\<forall>x\<in>set (da_list dsts'). is_peer s x \<and> x \<noteq> src_i)"
proof -
  let ?n = "length (host_list s)" and ?nxt = "\<lambda>k. next_at s k i"
  have ct: "0 < da_ct d" using d(1,2) by (simp flip: length_da_list)
  have "\<exists>x. ?nxt k = Some x \<and> (x = NEXT_DISCON \<or> x < ?n)" if "k < ?n" for k
    by (rule next_at_current[OF wf cur that i]) auto
  then have "\<forall>k<?n. \<exists>x. ?nxt k = Some x \<and> (x = NEXT_DISCON \<or> x < ?n)" by blast
  from dst_walk_total[OF this d(1) ct src] obtain b where b: "dst_walk ?nxt d src_i 0 = Some b" by blast
  show ?thesis
  proof (cases b)
    case False
    with b dsts show ?thesis by (simp add: collect_dst_def)
  next
    case True
    with b have hit: "dst_walk ?nxt d src_i 0 = Some True" by simp
    from dst_walk_hit[OF hit d(1) ct] obtain k where k: "next_at s k i = Some c" by (auto simp: d(2))
    then have kn: "k < ?n"
      using wf cur by (auto simp: next_at_def mdim_def split: matrices.splits if_splits
          elim!: paths_currentE dest!: fw_invD(2))
    have "c \<noteq> NEXT_DISCON" using c(1) small by simp
    with k have hop: "c \<noteq> i" "path_at s c i \<noteq> Some 0"
      by (auto intro: next_at_current[OF wf cur kn i])
    have peer: "is_peer s i" by (rule reached_is_peer[OF wf cur c i]) (use hop in auto)
    have "i \<noteq> src_i"
    proof
      assume "i = src_i"
      then have n: "?nxt src_i = Some NEXT_DISCON" using next_at_self[OF wf cur src] by simp
      have len: "0 < length (da_items d)" using ct d(1) by (cases "da_items d") (auto simp: da_wf_def)
      have "da_items d ! 0 \<in> set (da_list d)" using ct by (metis d(1) da_list_nth length_da_list nth_mem)
      then have "da_items d ! 0 < ?n" using d c(1) by auto
      with small n len have "dst_walk ?nxt d src_i 0 = Some False" by (subst dst_walk.simps) auto
      with b True show False by simp
    qed
    moreover obtain dsts' where "DA_ADD_TO_END dsts i [] = (False, dsts', [])" "da_wf dsts'"
      "da_list dsts' = da_list dsts @ [i]"
      by (rule DA_ADD_TO_END_ok[OF dsts(1)])
    ultimately show ?thesis using b True dsts peer by (auto simp: collect_dst_def)
  qed
qed

lemma build_hosts_ok:
  assumes "rt_wf s" and "\<forall>i\<in>set is. is_peer s i"
  shows "\<exists>hs. build_hosts s is [] = Some (hs, []) \<and> length hs = length is \<and>
    (\<forall>k<length is. \<exists>h. hheap s (host_list s ! (is ! k)) = Some h \<and> hs ! k = h_host h) \<and>
    (\<forall>a\<in>set hs. \<exists>d. a = IP_Dp d)"
  using assms(2)
proof (induction "is")
  case (Cons i "is")
  then obtain hs where hs: "build_hosts s is [] = Some (hs, [])" "length hs = length is"
    "\<forall>k<length is. \<exists>h. hheap s (host_list s ! (is ! k)) = Some h \<and> hs ! k = h_host h"
    "\<forall>a\<in>set hs. \<exists>d. a = IP_Dp d" by auto
  from Cons.prems obtain h d where h: "i < length (host_list s)" "hheap s (host_list s ! i) = Some h"
    "h_host h = IP_Dp d" by (auto simp: is_peer_def)
  with hs index_to_host_list[OF rt_wf_da[OF assms(1)] h(1)] show ?case
    by (auto simp: nth_Cons split: nat.splits)
qed simp

text \<open>The part of \<open>mcast_hosts\<close> up to the loop over the destinations.\<close>

lemma mcast_hosts_start:
  assumes wf: "rt_wf s" and cur: "paths_current s" and mem: "allocs s = []"
    and c: "c < length (host_list s)"
    and src: "find_host_by_addr s src_mac = Some (Some src_i)" "src_i < length (host_list s)"
    and path: "path_at s src_i c \<noteq> Some 0"
  obtains ks d e where "follow (\<lambda>i. next_at s i c) c src_i \<lparr>da_ct = 0, da_mem = 8, da_items = []\<rparr> [] = Some (d, [])"
    "da_wf d" "da_list d = ks @ [c]" "\<forall>k\<in>set ks. k < length (host_list s)" "da_wf e" "da_list e = []"
    "mcast_hosts s c src_mac = do {
       (dsts, al) \<leftarrow> foldM (collect_dst s src_i d) [0..<length (host_list s)] (e, []);
       (hs, al) \<leftarrow> build_hosts s (da_list dsts) al;
       Some (0, hs, s\<lparr>allocs := al\<rparr>)
     }"
proof -
  have n: "m_ct s = length (host_list s)"
    using cur length_da_list[OF rt_wf_da[OF wf]] by (auto simp: paths_current_def)
  let ?d0 = "\<lparr>da_ct = 0, da_mem = 8, da_items = []\<rparr> :: nat da"
  have d0: "DA_INIT 8 [] = (False, ?d0, [])" by (simp add: DA_INIT_def)
  obtain x where x: "path_at s src_i c = Some x" by (rule path_at_current[OF wf cur src(2) c])
  from follow_returns[OF wf cur c src(2), of ?d0] DA_INIT_list[OF d0] obtain ks d where
    d: "follow (\<lambda>i. next_at s i c) c src_i ?d0 [] = Some (d, [])" "da_wf d" "da_list d = ks @ [c]"
    "\<forall>k\<in>set ks. k < length (host_list s)" by auto
  obtain e :: "nat da" where e: "DA_INIT (m_ct s) [] = (False, e, [])" using DA_INIT_spare by blast
  have "mcast_hosts s c src_mac = do {
       (dsts, al) \<leftarrow> foldM (collect_dst s src_i d) [0..<length (host_list s)] (e, []);
       (hs, al) \<leftarrow> build_hosts s (da_list dsts) al;
       Some (0, hs, s\<lparr>allocs := al\<rparr>)
     }"
    using src(1) mem d0 x path d(1) e n by (simp add: mcast_hosts_def PATH_DISCON_def)
  with d DA_INIT_list[OF e] that show thesis by blast
qed

lemma unlock_held:
  assumes "lock s \<noteq> RW_Free"
  obtains s' where "unlock s = Some s'"
  using assms that by (cases "lock s") (auto simp: unlock_def)

lemma allocs_same: "allocs s = al \<Longrightarrow> s\<lparr>allocs := al\<rparr> = (s :: routing)"
  by auto

text \<open>The peers that a multicast frame goes to.\<close>

definition peers_of :: "routing \<Rightarrow> nat list \<Rightarrow> ip_ptr list \<Rightarrow> bool" where
  "peers_of s js hs \<longleftrightarrow>
     length hs = length js \<and> (\<forall>j\<in>set js. is_peer s j) \<and> (\<forall>a\<in>set hs. \<exists>d. a = IP_Dp d) \<and>
     (\<forall>k<length js. \<exists>h. hheap s (host_list s ! (js ! k)) = Some h \<and> hs ! k = h_host h)"

lemma mcast_hosts_ok:
  assumes wf: "rt_wf s" and cur: "paths_current s" and small: "length (host_list s) \<le> NEXT_DISCON"
    and mem: "allocs s = []" and c: "c < length (host_list s)" "local_host s = Some (host_list s ! c)"
    and src: "find_host_by_addr s src_mac = Some (Some src_i)" "src_i < length (host_list s)"
    and path: "path_at s src_i c \<noteq> Some 0"
  obtains js hs where "mcast_hosts s c src_mac = Some (0, hs, s)" "peers_of s js hs" "src_i \<notin> set js"
proof -
  let ?n = "length (host_list s)"
  let ?P = "\<lambda>da. \<exists>dsts. da = (dsts, []) \<and> da_wf dsts \<and> (\<forall>x\<in>set (da_list dsts). is_peer s x \<and> x \<noteq> src_i)"
  obtain ks d e where d: "da_wf d" "da_list d = ks @ [c]" "\<forall>k\<in>set ks. k < ?n" "da_wf e" "da_list e = []"
    and run: "mcast_hosts s c src_mac = do {
       (dsts, al) \<leftarrow> foldM (collect_dst s src_i d) [0..<?n] (e, []);
       (hs, al) \<leftarrow> build_hosts s (da_list dsts) al;
       Some (0, hs, s\<lparr>allocs := al\<rparr>)
     }"
    by (rule mcast_hosts_start[OF wf cur mem c(1) src path])
  have "\<exists>da. foldM (collect_dst s src_i d) [0..<?n] (e, []) = Some da \<and> ?P da"
  proof (rule foldM_total)
    fix i and da :: "nat da \<times> allocs" assume "i \<in> set [0..<?n]" and "?P da"
    then show "\<exists>da'. collect_dst s src_i d i da = Some da' \<and> ?P da'"
      using collect_dst_ok[OF wf cur small c src(2) d(1-3), of i] by auto
  qed (use d in auto)
  then obtain dsts where dsts: "foldM (collect_dst s src_i d) [0..<?n] (e, []) = Some (dsts, [])"
    "\<forall>x\<in>set (da_list dsts). is_peer s x \<and> x \<noteq> src_i" by blast
  from build_hosts_ok[OF wf, of "da_list dsts"] dsts(2) obtain hs where
    hs: "build_hosts s (da_list dsts) [] = Some (hs, [])" "peers_of s (da_list dsts) hs"
    by (auto simp: peers_of_def)
  show thesis
    by (rule that[of hs "da_list dsts"]) (use run dsts hs mem allocs_same[OF mem] in auto)
qed

text \<open>A frame of the local host itself goes to nobody: no path from it leads through it.\<close>

lemma mcast_hosts_local:
  assumes wf: "rt_wf s" and cur: "paths_current s" and small: "length (host_list s) \<le> NEXT_DISCON"
    and mem: "allocs s = []" and c: "c < length (host_list s)"
    and src: "find_host_by_addr s src_mac = Some (Some c)" and path: "path_at s c c \<noteq> Some 0"
  shows "mcast_hosts s c src_mac = Some (0, [], s)"
proof -
  let ?n = "length (host_list s)"
  obtain ks d e where f: "follow (\<lambda>i. next_at s i c) c c \<lparr>da_ct = 0, da_mem = 8, da_items = []\<rparr> [] = Some (d, [])"
    and d: "da_wf d" "da_list d = ks @ [c]" "da_list e = []"
    and run: "mcast_hosts s c src_mac = do {
       (dsts, al) \<leftarrow> foldM (collect_dst s c d) [0..<?n] (e, []);
       (hs, al) \<leftarrow> build_hosts s (da_list dsts) al;
       Some (0, hs, s\<lparr>allocs := al\<rparr>)
     }"
    by (rule mcast_hosts_start[OF wf cur mem c src c path])
  have "da_wf (\<lparr>da_ct = 0, da_mem = 8, da_items = []\<rparr> :: nat da)" by (simp add: da_wf_def)
  then obtain d' where d': "DA_ADD_TO_END \<lparr>da_ct = 0, da_mem = 8, da_items = []\<rparr> c [] = (False, d', [])"
    "da_list d' = [c]"
    by (rule DA_ADD_TO_END_ok) (simp add: da_list_def)
  with f next_at_self[OF wf cur c] have "d = d'" by (simp add: follow.simps[of _ _ c])
  with d d' have items: "0 < length (da_items d)" "da_items d ! 0 = c"
    by (auto simp: da_list_def da_wf_def take_Suc_conv_app_nth)
      (metis da_list_def length_Cons length_take list.size(3) min_less_iff_conj nth_Cons_0 nth_take zero_less_Suc)+
  have "collect_dst s c d i (e, []) = Some (e, [])" if i: "i < ?n" for i
  proof -
    obtain x where x: "next_at s c i = Some x" "x \<noteq> c"
      by (rule next_at_current[OF wf cur c i]) (use c small in auto)
    with items show ?thesis by (simp add: collect_dst_def dst_walk.simps)
  qed
  then have "foldM (collect_dst s c d) [0..<?n] (e, []) = Some (e, [])"
    by (intro foldM_idle) auto
  with run d(3) allocs_same[OF mem] show ?thesis by simp
qed

section \<open>Unicast\<close>

lemma ucast_host_ok:
  assumes wf: "rt_wf s" and cur: "paths_current s" and mem: "allocs s = []"
    and c: "c < length (host_list s)" "local_host s = Some (host_list s ! c)"
    and dst: "find_host_by_addr s dst_mac = Some (Some j)" "j < length (host_list s)" "j \<noteq> c"
  obtains (no_path) "path_at s c j = Some 0" "ucast_host s c dst_mac = Some (0, [], s)"
  | (path) k h d where "path_at s c j \<noteq> Some 0" "ucast_host s c dst_mac = Some (0, [IP_Dp d], s)"
      "next_at s c j = Some (if k = j then NEXT_DISCON else k)" "is_peer s k"
      "hheap s (host_list s ! k) = Some h" "h_host h = IP_Dp d"
proof -
  obtain x where x: "path_at s c j = Some x" by (rule path_at_current[OF wf cur c(1) dst(2)])
  obtain k where k: "next_at s c j = Some (if k = j then NEXT_DISCON else k)" "k < length (host_list s)"
    "k \<noteq> c" "k \<noteq> j \<Longrightarrow> path_at s c k \<noteq> Some 0" "k \<noteq> j \<Longrightarrow> k \<noteq> NEXT_DISCON"
  proof (cases rule: next_at_current[OF wf cur c(1) dst(2)])
    case 1
    with dst(2,3) show thesis by (intro that[of j]) simp_all
  next
    case (2 k)
    then show thesis by (intro that[of k]) simp_all
  qed
  show thesis
  proof (cases "x = 0")
    case True
    with x k dst(1) show thesis by (intro no_path) (simp_all add: ucast_host_def)
  next
    case False
    have peer: "is_peer s k"
      by (rule reached_is_peer[OF wf cur c k(2,3)]) (use k(4) x False in \<open>cases "k = j"\<close>, auto)
    then obtain h d where h: "hheap s (host_list s ! k) = Some h" "h_host h = IP_Dp d"
      by (auto simp: is_peer_def)
    have "ucast_host s c dst_mac = Some (0, [IP_Dp d], s)"
      using dst(1) k x False h index_to_host_list[OF rt_wf_da[OF wf] k(2)] allocs_same[OF mem] mem
      by (auto simp: ucast_host_def)
    with x False k(1) peer h show thesis by (intro path) auto
  qed
qed

section \<open>The whole operation\<close>

lemma next_at_frame [simp]: "next_at (s\<lparr>lock := l\<rparr>) = next_at s"
  by (simp add: next_at_def fun_eq_iff)

lemma rt_dhosts_to_host_start:
  assumes wf: "rt_wf s" and cur: "paths_current s" and lk: "rdlock s = Some t"
  obtains c where "c < length (host_list s)" "local_host s = Some (host_list s ! c)"
    "\<And>a b. rt_dhosts_to_host s a b = (if ether_addr_is_mcast b then mcast_hosts t c a else ucast_host t c b)"
    "rt_wf t" "paths_current t" "hosts t = hosts s" "allocs t = allocs s" "local_host t = local_host s"
    "path_at t = path_at s" "next_at t = next_at s" "find_host_by_addr t = find_host_by_addr s"
    "hheap t = hheap s" "lock t \<noteq> RW_Free"
proof -
  from lk obtain l where t: "t = s\<lparr>lock := l\<rparr>" "l \<noteq> RW_Free"
    by (auto simp: rdlock_def split: rwlock.splits)
  obtain c p m where c: "c < length (host_list s)" "host_list s ! c = p" "local_host s = Some p"
    "host_mac s p = Some m" "find_host_by_addr s m = Some (Some c)"
    by (rule rt_wf_local_index[OF wf])
  have ct: "m_ct s = da_ct (hosts s)" using cur by (auto simp: paths_current_def)
  have eq: "rt_dhosts_to_host s a b = (if ether_addr_is_mcast b then mcast_hosts t c a else ucast_host t c b)"
    for a b
    using lk ct c by (simp add: rt_dhosts_to_host_def t)
  have "find_host_by_addr t = find_host_by_addr s" by (simp add: t fun_eq_iff)
  with c wf cur t eq show thesis by (intro that[of c]) simp_all
qed

text \<open>A measured link of the local host is a path of the matrices.\<close>

lemma local_link_path:
  assumes wf: "rt_wf s" and cur: "paths_current s"
    and c: "c < length (host_list s)" "local_host s = Some (host_list s ! c)"
    and l: "local_link s mac rtt ts" "rtt \<noteq> 0"
  obtains j where "find_host_by_addr s mac = Some (Some j)" "j < length (host_list s)" "j \<noteq> c"
    "path_at s c j \<noteq> Some 0"
proof -
  let ?p = "host_list s ! c"
  have mem: "?p \<in> set (host_list s)" using c(1) by simp
  from l(1) c(2) obtain h l where h: "hheap s ?p = Some h" "l \<in> set (links_of h)" "link_mac s l = Some mac"
    "l_rtt_us l = rtt" by (auto simp: local_link_def)
  have t: "h_type h = HT_LOCAL" by (rule rt_wf_localE[OF wf]) (use c(2) h(1) in auto)
  have lw: "l_dst l \<in> set (host_list s)" "l_dst l \<noteq> ?p" and dl: "direct_links s (h_links h)"
    using rt_wf_host[OF wf mem h(1)] h(2) t by (auto simp: host_wf_def links_wf_def)
  from lw(1) obtain j where j: "j < length (host_list s)" "host_list s ! j = l_dst l"
    by (auto simp: in_set_conv_nth)
  have find: "find_host_by_addr s mac = Some (Some j)"
    using find_host_by_addr_own[OF wf j(1)] h(3) j(2) by (simp add: link_mac_def)
  have jc: "j \<noteq> c" using j lw(2) by auto
  obtain pm nx where m: "mats s = M_Valid pm nx" "path_at s c j = Some (mget pm c j)"
    by (rule path_at_current[OF wf cur c(1) j(1)])
  have uniq: "w = rtt" if "link_weight s c j w" for w
  proof -
    from that h(1) obtain l' where l': "l' \<in> set (links_of h)" "l_dst l' = l_dst l" "l_rtt_us l' = w"
      by (auto simp: link_weight_def j(2))
    with dl h(2) have "l' = l" by (auto simp: direct_links_def distinct_map inj_on_def)
    with l'(3) h(4) show ?thesis by simp
  qed
  have "link_weight s c j rtt" using h j(2) by (auto simp: link_weight_def)
  then have "mget pm c j \<noteq> 0"
    using path_entry[OF wf cur m(1) c(1) j(1)] jc uniq l(2) by metis
  with find j jc m(2) show thesis by (intro that) auto
qed

text \<open>Both branches return, whatever the addresses are.\<close>

lemma mcast_hosts_answers:
  assumes tw: "rt_wf t" "paths_current t" and small: "length (host_list t) \<le> NEXT_DISCON" and mem: "allocs t = []"
    and held: "lock t \<noteq> RW_Free" and ct: "c < length (host_list t)" "local_host t = Some (host_list t ! c)"
  shows "\<exists>ret hs s'. mcast_hosts t c src = Some (ret, hs, s') \<and> (\<forall>a\<in>set hs. \<exists>d. a = IP_Dp d)"
proof -
  obtain u where u: "unlock t = Some u" by (rule unlock_held[OF held])
  show ?thesis
  proof (cases rule: find_host_by_addr_cases[OF rt_wf_da[OF tw(1)] rt_wf_ascending[OF tw(1)], of src])
    case (1 i)
    show ?thesis
    proof (cases "path_at t i c = Some 0")
      case True
      with 1 mem u show ?thesis
        by (auto simp: mcast_hosts_def error_ret_def PATH_DISCON_def DA_INIT_def unlock_def split: rwlock.splits)
    next
      case False
      obtain js hs where "mcast_hosts t c src = Some (0, hs, t)" "peers_of t js hs"
        by (rule mcast_hosts_ok[OF tw small mem ct 1(1,2) False])
      then show ?thesis by (auto simp: peers_of_def)
    qed
  next
    case 2
    with u show ?thesis by (auto simp: mcast_hosts_def error_ret_def)
  qed
qed

lemma ucast_host_answers:
  assumes tw: "rt_wf t" "paths_current t" and mem: "allocs t = []" and held: "lock t \<noteq> RW_Free"
    and ct: "c < length (host_list t)" "local_host t = Some (host_list t ! c)"
    and ne: "host_mac t (host_list t ! c) \<noteq> Some dst"
  shows "\<exists>ret hs s'. ucast_host t c dst = Some (ret, hs, s') \<and> (\<forall>a\<in>set hs. \<exists>d. a = IP_Dp d)"
proof -
  obtain u where u: "unlock t = Some u" by (rule unlock_held[OF held])
  show ?thesis
  proof (cases rule: find_host_by_addr_cases[OF rt_wf_da[OF tw(1)] rt_wf_ascending[OF tw(1)], of dst])
    case (1 j)
    with ne have "j \<noteq> c" by auto
    from ucast_host_ok[OF tw mem ct 1(1,2) this] show ?thesis by fastforce
  next
    case 2
    with u show ?thesis by (auto simp: ucast_host_def error_ret_def)
  qed
qed

end
