(* ===== verification/Dpg.thy ===== *)
theory Dpg
  imports Routing_Forward
begin

text \<open>
  The group of direct peers, src/dpg.h and src/dpg.c: a table of pointers to peers, sorted by the
  Ethernet address of the peer.  The address of peer \<open>n\<close> is the one in its \<open>remote_host\<close>, which
  is not part of the group; it is read through \<open>mac\<close>, and \<open>mac n = None\<close> says that \<open>n\<close> is not a
  live peer.
\<close>

section \<open>Definitions\<close>

type_synonym dptr = nat

record dpg =
  dps :: "dptr da"
  g_lock :: rwlock
  l_addr :: sockaddr_in

definition DPG_INIT_SIZE :: nat where "DPG_INIT_SIZE = 8"

definition dp_cmp :: "(dptr \<Rightarrow> ether_addr option) \<Rightarrow> dptr \<Rightarrow> dptr \<Rightarrow> int option" where
  "dp_cmp mac dp1 dp2 = do { a1 \<leftarrow> mac dp1; a2 \<leftarrow> mac dp2; Some (mac_cmp a1 a2) }"

definition bsearch_dpg :: "(dptr \<Rightarrow> ether_addr option) \<Rightarrow> dptr \<Rightarrow> dpg \<Rightarrow> nat option option" where
  "bsearch_dpg mac dp g = bsearch (dp_cmp mac dp) (da_list (dps g)) (da_ct (dps g))"

text \<open>\<open>resolve\<close> is the answer of \<open>getaddrinfo\<close> for the external host and port, or no answer.\<close>

definition dpg_init :: "sockaddr_in option \<Rightarrow> dpg \<Rightarrow> allocs \<Rightarrow> int \<times> dpg \<times> allocs" where
  "dpg_init resolve g al =
     (let g0 = g\<lparr>g_lock := RW_Free\<rparr>;
          (fail, d, al1) = DA_INIT DPG_INIT_SIZE al
      in if fail then (- 2, g0\<lparr>dps := d\<rparr>, al1)
      else case resolve of
        None \<Rightarrow> (- 3, g0\<lparr>dps := DA_DESTROY d\<rparr>, al1)
      | Some a \<Rightarrow> (0, g0\<lparr>dps := d, l_addr := a\<rparr>, al1))"

definition g_wrlock :: "dpg \<Rightarrow> dpg option" where
  "g_wrlock g = (if g_lock g = RW_Free then Some (g\<lparr>g_lock := RW_Write\<rparr>) else None)"

definition g_rdlock :: "dpg \<Rightarrow> dpg option" where
  "g_rdlock g =
     (case g_lock g of
        RW_Free \<Rightarrow> Some (g\<lparr>g_lock := RW_Read 1\<rparr>)
      | RW_Read n \<Rightarrow> Some (g\<lparr>g_lock := RW_Read (n + 1)\<rparr>)
      | RW_Write \<Rightarrow> None)"

definition g_unlock :: "dpg \<Rightarrow> dpg option" where
  "g_unlock g =
     (case g_lock g of
        RW_Free \<Rightarrow> None
      | RW_Read n \<Rightarrow> Some (g\<lparr>g_lock := if n \<le> 1 then RW_Free else RW_Read (n - 1)\<rparr>)
      | RW_Write \<Rightarrow> Some (g\<lparr>g_lock := RW_Free\<rparr>))"

definition dpg_insert ::
  "(dptr \<Rightarrow> ether_addr option) \<Rightarrow> dpg \<Rightarrow> dptr \<Rightarrow> allocs \<Rightarrow> (int \<times> dpg \<times> allocs) option" where
  "dpg_insert mac g dp al = do {
     g \<leftarrow> g_wrlock g;
     dup \<leftarrow> bsearch_dpg mac dp g;
     if dup \<noteq> None then do { g \<leftarrow> g_unlock g; Some (1, g, al) }
     else let (fail, d, al) = DA_ADD_TO_END (dps g) dp al
     in if fail then do { g \<leftarrow> g_unlock g; Some (- 2, g, al) }
     else do {
       d \<leftarrow> da_qsort (dp_cmp mac) d;
       g \<leftarrow> g_unlock (g\<lparr>dps := d\<rparr>);
       Some (0, g, al)
     }
   }"

definition dpg_remove :: "(dptr \<Rightarrow> ether_addr option) \<Rightarrow> dpg \<Rightarrow> dptr \<Rightarrow> (int \<times> dpg) option" where
  "dpg_remove mac g dp = do {
     g \<leftarrow> g_wrlock g;
     res \<leftarrow> bsearch_dpg mac dp g;
     case res of
       None \<Rightarrow> do { g \<leftarrow> g_unlock g; Some (- 2, g) }
     | Some i \<Rightarrow> do { g \<leftarrow> g_unlock (g\<lparr>dps := DA_REMOVE (dps g) i\<rparr>); Some (0, g) }
   }"

section \<open>The invariant and the operations\<close>

definition dpg_wf :: "(dptr \<Rightarrow> ether_addr option) \<Rightarrow> dpg \<Rightarrow> bool" where
  "dpg_wf mac g \<longleftrightarrow> table_wf mac (dps g) \<and> g_lock g = RW_Free"

abbreviation peers :: "dpg \<Rightarrow> dptr list" where
  "peers g \<equiv> da_list (dps g)"

interpretation dp_order: key_order "dp_cmp mac" mac mac_cmp for mac
  by unfold_locales (simp_all add: dp_cmp_def mac_cmp_less mac_cmp_eq)

lemma dpg_init_wf:
  assumes "dpg_init resolve g al = (0, g', al')"
  shows "dpg_wf mac g'" and "peers g' = []" and "resolve = Some (l_addr g')"
proof -
  obtain f d al1 where d: "(DA_INIT DPG_INIT_SIZE al :: bool \<times> dptr da \<times> allocs) = (f, d, al1)"
    by (rule prod_cases3)
  with assms obtain a where "\<not> f" "resolve = Some a" "g' = g\<lparr>g_lock := RW_Free, dps := d, l_addr := a\<rparr>"
    by (auto simp: dpg_init_def Let_def split: if_splits option.splits)
  with DA_INIT_list[OF d] show "dpg_wf mac g'" "peers g' = []" "resolve = Some (l_addr g')"
    by (auto simp: dpg_wf_def table_wf_def ascending_def keyed_def)
qed

lemma dpg_insert_cases:
  assumes wf: "dpg_wf mac g" and m: "mac dp = Some a"
  obtains (dup) q where "dpg_insert mac g dp al = Some (1, g, al)" "q \<in> set (peers g)" "mac q = Some a"
  | (fail) al' where "dpg_insert mac g dp al = Some (- 2, g, al')"
  | (ok) g' al' where "dpg_insert mac g dp al = Some (0, g', al')" "dpg_wf mac g'"
      "mset (peers g') = add_mset dp (mset (peers g))" "\<forall>q\<in>set (peers g). mac q \<noteq> Some a"
      "l_addr g' = l_addr g"
proof -
  have t: "table_wf mac (dps g)" and free: "g_lock g = RW_Free" using wf by (simp_all add: dpg_wf_def)
  note start = dpg_insert_def g_wrlock_def free bsearch_dpg_def g_unlock_def
  show thesis
  proof (cases rule: dp_order.table_find[OF t m])
    case (1 i)
    show thesis by (rule dup[of "peers g ! i"]) (use 1 free in \<open>simp_all add: start\<close>)
  next
    case miss: 2
    show thesis
    proof (cases rule: dp_order.table_add[OF t m miss(2), of al])
      case (1 al')
      show thesis by (rule fail[of al']) (use 1 miss free in \<open>simp add: start\<close>)
    next
      case (2 d1 d2 al')
      show thesis
        by (rule ok[of "g\<lparr>dps := d2\<rparr>" al'])
          (use 2 miss free in \<open>simp_all add: start dpg_wf_def\<close>)
    qed
  qed
qed

lemma dpg_insert_dup:
  assumes wf: "dpg_wf mac g" and q: "q \<in> set (peers g)" "mac q = mac dp"
  shows "dpg_insert mac g dp al = Some (1, g, al)"
proof -
  have "mac q \<noteq> None" using wf q(1) by (simp add: dpg_wf_def table_wf_def ascending_def keyed_def)
  with q(2) obtain a where a: "mac dp = Some a" by auto
  have t: "table_wf mac (dps g)" and free: "g_lock g = RW_Free" using wf by (simp_all add: dpg_wf_def)
  show ?thesis
    by (cases rule: dp_order.table_find[OF t a])
      (use q a free in \<open>auto simp: dpg_insert_def g_wrlock_def g_unlock_def bsearch_dpg_def\<close>)
qed

text \<open>Memory to spare stays so.\<close>

lemma dpg_insert_spare: "dpg_insert mac g dp [] = Some (r, g', al) \<Longrightarrow> al = []"
  by (auto simp: dpg_insert_def bind_Some_iff Let_def split_beta
      DA_ADD_TO_END_def DA_CHECK_AND_REALLOC_def split: option.splits if_splits)

text \<open>Only the allocator refuses a peer whose address is free.\<close>

lemma dpg_insert_refused: "dpg_insert mac g dp al = Some (- 2, g', al') \<Longrightarrow> al = False # al'"
  by (cases al) (auto simp: dpg_insert_def bind_Some_iff Let_def split_beta
      DA_ADD_TO_END_def DA_CHECK_AND_REALLOC_def split: option.splits if_splits)

text \<open>\<open>dpg_remove\<close> takes out the peer with the address of \<open>dp\<close>, be it \<open>dp\<close> itself or another one.\<close>

lemma dpg_remove_cases:
  assumes wf: "dpg_wf mac g" and m: "mac dp = Some a"
  obtains (absent) "dpg_remove mac g dp = Some (- 2, g)" "\<forall>q\<in>set (peers g). mac q \<noteq> Some a"
  | (ok) q g' where "dpg_remove mac g dp = Some (0, g')" "dpg_wf mac g'" "q \<in> set (peers g)" "mac q = Some a"
      "set (peers g') = {p \<in> set (peers g). mac p \<noteq> Some a}" "mset (peers g) = add_mset q (mset (peers g'))"
      "l_addr g' = l_addr g"
proof -
  have t: "table_wf mac (dps g)" and free: "g_lock g = RW_Free" using wf by (simp_all add: dpg_wf_def)
  note start = dpg_remove_def g_wrlock_def free bsearch_dpg_def g_unlock_def
  show thesis
  proof (cases rule: dp_order.table_find[OF t m])
    case (1 i)
    have "da_wf (dps g)" using t by (simp add: table_wf_def)
    with 1 dp_order.table_remove[OF t 1(2)] da.remove_mset[of "dps g" i] show thesis
      by (intro ok[of "g\<lparr>dps := DA_REMOVE (dps g) i\<rparr>" "peers g ! i"])
        (use free in \<open>simp_all add: start dpg_wf_def\<close>)
  next
    case 2
    show thesis by (rule absent) (use 2 free in \<open>simp_all add: start\<close>)
  qed
qed

text \<open>Inserting a peer and removing it again leaves the group as it was.\<close>

lemma dpg_remove_insert:
  assumes wf: "dpg_wf mac g" and m: "mac dp = Some a" and ins: "dpg_insert mac g dp al = Some (0, g', al')"
  shows "\<exists>g''. dpg_remove mac g' dp = Some (0, g'') \<and> dpg_wf mac g'' \<and> mset (peers g'') = mset (peers g)"
proof (cases rule: dpg_insert_cases[OF wf m, of al])
  case (3 h al2)
  with ins have g': "dpg_wf mac g'" "mset (peers g') = add_mset dp (mset (peers g))" by auto
  show ?thesis
  proof (cases rule: dpg_remove_cases[OF g'(1) m])
    case 1
    with g'(2) m show ?thesis by (auto dest: set_add)
  next
    case (2 q g'')
    have "q = dp" using 2(3,4) set_add[OF g'(2)] 3(4) by auto
    with 2 g'(2) show ?thesis by auto
  qed
qed (use ins in auto)

section \<open>The specification: a finite map from addresses to peers\<close>

text \<open>
  What \<open>dpg_t\<close> stands for: a partial map from Ethernet addresses to peers.  \<open>dpg_insert\<close> and
  \<open>dpg_remove\<close> are an update and a deletion of this map.
\<close>

definition dpg_map :: "(dptr \<Rightarrow> ether_addr option) \<Rightarrow> dpg \<Rightarrow> ether_addr \<Rightarrow> dptr option" where
  "dpg_map mac g a = List.find (\<lambda>p. mac p = Some a) (peers g)"

lemma dpg_map_None: "dpg_map mac g a = None \<longleftrightarrow> (\<forall>p\<in>set (peers g). mac p \<noteq> Some a)"
  by (auto simp: dpg_map_def find_None_iff)

lemma dpg_map_in: "dpg_map mac g a = Some p \<Longrightarrow> p \<in> set (peers g) \<and> mac p = Some a"
  by (auto simp: dpg_map_def find_Some_iff)

lemma dpg_map_Some:
  assumes "dpg_wf mac g"
  shows "dpg_map mac g a = Some p \<longleftrightarrow> p \<in> set (peers g) \<and> mac p = Some a"
proof
  assume p: "p \<in> set (peers g) \<and> mac p = Some a"
  then obtain q where q: "dpg_map mac g a = Some q" using dpg_map_None[of mac g a] by auto
  have "inj_on mac (set (peers g))" using assms by (simp add: dpg_wf_def table_wf_def distinct_map)
  moreover have "q \<in> set (peers g)" "mac q = mac p" using dpg_map_in[OF q] p by auto
  ultimately have "q = p" using p by (simp add: inj_on_def)
  with q show "dpg_map mac g a = Some p" by simp
qed (rule dpg_map_in)

text \<open>Two well-formed groups are the same map exactly if they hold the same peers.\<close>

lemma dpg_map_eqI:
  assumes "dpg_wf mac g" and "\<And>b p. p \<in> set (peers g) \<and> mac p = Some b \<longleftrightarrow> m b = Some p"
  shows "dpg_map mac g = m"
proof
  fix b
  show "dpg_map mac g b = m b"
  proof (cases "dpg_map mac g b")
    case None
    then have "m b \<noteq> Some p" for p using assms(2)[of p b] dpg_map_None[of mac g b] by blast
    with None show ?thesis by (cases "m b") auto
  next
    case (Some p)
    with assms(2)[of p b] dpg_map_in[OF Some] show ?thesis by simp
  qed
qed

lemma dpg_map_insert:
  assumes wf: "dpg_wf mac g" "dpg_wf mac g'" and m: "mac dp = Some a" and new: "dpg_map mac g a = None"
    and ms: "mset (peers g') = add_mset dp (mset (peers g))"
  shows "dpg_map mac g' = (dpg_map mac g)(a \<mapsto> dp)"
proof (rule dpg_map_eqI[OF wf(2)])
  fix b p
  have "set (peers g') = insert dp (set (peers g))" by (rule set_add[OF ms])
  then show "p \<in> set (peers g') \<and> mac p = Some b \<longleftrightarrow> ((dpg_map mac g)(a \<mapsto> dp)) b = Some p"
    using m new dpg_map_Some[OF wf(1), of b p] dpg_map_None[of mac g a] by auto
qed

lemma dpg_map_remove:
  assumes wf: "dpg_wf mac g" "dpg_wf mac g'" and rm: "set (peers g') = {p \<in> set (peers g). mac p \<noteq> Some a}"
  shows "dpg_map mac g' = (dpg_map mac g)(a := None)"
  by (rule dpg_map_eqI[OF wf(2)]) (auto simp: rm dpg_map_Some[OF wf(1)])

end
