(* ===== verification/Pcon.thy ===== *)
theory Pcon
  imports Search Packet
begin

text \<open>
  The list of connection attempts, src/pcon.h and src/pcon.c: a table of hosts, each with the time
  of the last attempt to connect to it, that keeps the node from connecting to the same host
  more than once in two seconds.
\<close>

section \<open>The order of the table\<close>

text \<open>\<open>host_cmp\<close> compares address, IP address and port, each byte by byte as they lie in memory.\<close>

definition host_cmp :: "ipv4_host \<Rightarrow> ipv4_host \<Rightarrow> int" where
  "host_cmp h1 h2 =
     (let mac_cmp = memcmp (mac_bytes (ip_mac h1)) (mac_bytes (ip_mac h2))
      in if mac_cmp \<noteq> 0 then mac_cmp
      else let ip_cmp = memcmp (le_bytes 4 (sin_addr (ip_in h1))) (le_bytes 4 (sin_addr (ip_in h2)))
      in if ip_cmp \<noteq> 0 then ip_cmp
      else memcmp (le_bytes 2 (sin_port (ip_in h1))) (le_bytes 2 (sin_port (ip_in h2))))"

text \<open>What identifies a host here, ordered by the bytes that are compared.\<close>

datatype host_key = Host_Key ether_addr u32 u16

fun key_bytes :: "host_key \<Rightarrow> u8 list" where
  "key_bytes (Host_Key m a p) = mac_bytes m @ le_bytes 4 a @ le_bytes 2 p"

definition key_of :: "ipv4_host \<Rightarrow> host_key" where
  "key_of h = Host_Key (ip_mac h) (sin_addr (ip_in h)) (sin_port (ip_in h))"

lemma le_bytes_inject:
  assumes "LENGTH('a) = 8 * n"
  shows "le_bytes n a = le_bytes n b \<longleftrightarrow> a = (b :: 'a :: len word)"
  using of_le_bytes_le_bytes[OF assms] by metis

lemma le_bytes_inject_ip: "le_bytes 4 a = le_bytes 4 b \<longleftrightarrow> a = (b :: u32)"
  by (rule le_bytes_inject) simp

lemma le_bytes_inject_port: "le_bytes 2 a = le_bytes 2 b \<longleftrightarrow> a = (b :: u16)"
  by (rule le_bytes_inject) simp

lemma key_bytes_inject: "key_bytes k = key_bytes l \<longleftrightarrow> k = l"
  by (cases k; cases l) (simp add: le_bytes_inject_ip le_bytes_inject_port)

lemma length_key_bytes: "length (key_bytes k) = 12"
  by (cases k) (simp add: ETH_ALEN_def)

instantiation host_key :: linorder
begin

definition less_eq_host_key :: "host_key \<Rightarrow> host_key \<Rightarrow> bool" where
  "k \<le> l \<longleftrightarrow> key_bytes k \<le> key_bytes l"

definition less_host_key :: "host_key \<Rightarrow> host_key \<Rightarrow> bool" where
  "k < l \<longleftrightarrow> key_bytes k < key_bytes l"

instance
  by standard (auto simp: less_eq_host_key_def less_host_key_def key_bytes_inject order.strict_iff_order)

end

lemma memcmp_append:
  "length as = length bs \<Longrightarrow> memcmp (as @ cs) (bs @ ds) = (if as = bs then memcmp cs ds else memcmp as bs)"
  by (induction as bs rule: list_induct2) auto

definition key_cmp :: "host_key \<Rightarrow> host_key \<Rightarrow> int" where
  "key_cmp k l = memcmp (key_bytes k) (key_bytes l)"

lemma host_cmp_key: "host_cmp h1 h2 = key_cmp (key_of h1) (key_of h2)"
  by (simp add: host_cmp_def Let_def key_cmp_def key_of_def memcmp_append memcmp_eq)

lemma key_cmp_less: "key_cmp k l < 0 \<longleftrightarrow> k < l"
  by (simp add: key_cmp_def less_host_key_def memcmp_less length_key_bytes)

lemma key_cmp_eq: "key_cmp k l = 0 \<longleftrightarrow> k = l"
  by (simp add: key_cmp_def memcmp_eq length_key_bytes key_bytes_inject)

section \<open>Definitions\<close>

record ip_attempt =
  attempt_ts :: timeval
  a_host :: ipv4_host

record pcon =
  ipas :: "ip_attempt da"
  p_lock :: bool

definition PC_INIT_SZ :: nat where "PC_INIT_SZ = 8"
definition PC_CON_EASE_SEC :: int where "PC_CON_EASE_SEC = 2"

definition attempt_cmp :: "ip_attempt \<Rightarrow> ip_attempt \<Rightarrow> int option" where
  "attempt_cmp a b = Some (host_cmp (a_host a) (a_host b))"

text \<open>\<open>fh->attempt_ts = now\<close> for the attempt at position \<open>i\<close>\<close>

definition renewed :: "ip_attempt da \<Rightarrow> nat \<Rightarrow> timeval \<Rightarrow> ip_attempt da" where
  "renewed d i ts = d\<lparr>da_items := (da_items d)[i := (da_items d ! i)\<lparr>attempt_ts := ts\<rparr>]\<rparr>"

definition pcon_init :: "pcon \<Rightarrow> allocs \<Rightarrow> int \<times> pcon \<times> allocs" where
  "pcon_init pc al =
     (let (fail, d, al) = DA_INIT PC_INIT_SZ al
      in if fail then (- 1, pc\<lparr>ipas := d\<rparr>, al) else (0, pc\<lparr>ipas := d, p_lock := False\<rparr>, al))"

definition pcon_destroy :: "pcon \<Rightarrow> pcon" where
  "pcon_destroy pc = pc\<lparr>ipas := DA_DESTROY (ipas pc)\<rparr>"

text \<open>
  \<open>pcon_connect\<close>; the second component of the result says whether \<open>dp_create_linkstate\<close> is called
  for the host, after the lock is released.  A failed append goes unnoticed.
\<close>

definition pcon_connect ::
  "timeval \<Rightarrow> pcon \<Rightarrow> ipv4_host \<Rightarrow> allocs \<Rightarrow> (int \<times> bool \<times> pcon \<times> allocs) option" where
  "pcon_connect now pc host_attempt al =
     (if p_lock pc then None
      else do {
        let out = \<lparr>tv_sec = PC_CON_EASE_SEC, tv_usec = 0\<rparr>;
        let nh = \<lparr>attempt_ts = \<lparr>tv_sec = 0, tv_usec = 0\<rparr>, a_host = host_attempt\<rparr>;
        fh \<leftarrow> bsearch (attempt_cmp nh) (da_list (ipas pc)) (da_ct (ipas pc));
        case fh of
          Some i \<Rightarrow>
            (let tdiff = timersub now (attempt_ts (da_items (ipas pc) ! i))
             in if timer_gt tdiff out
                then Some (0, True, pc\<lparr>ipas := renewed (ipas pc) i now\<rparr>, al)
                else Some (1, False, pc, al))
        | None \<Rightarrow>
            let (fail, d, al) = DA_ADD_TO_END (ipas pc) (nh\<lparr>attempt_ts := now\<rparr>) al
            in do {
              d \<leftarrow> da_qsort attempt_cmp d;
              Some (0, True, pc\<lparr>ipas := d\<rparr>, al)
            }
      })"

section \<open>The invariant and the operations\<close>

abbreviation attempt_key :: "ip_attempt \<Rightarrow> host_key option" where
  "attempt_key a \<equiv> Some (key_of (a_host a))"

definition pcon_wf :: "pcon \<Rightarrow> bool" where
  "pcon_wf pc \<longleftrightarrow> table_wf attempt_key (ipas pc) \<and> \<not> p_lock pc"

abbreviation attempts :: "pcon \<Rightarrow> ip_attempt list" where
  "attempts pc \<equiv> da_list (ipas pc)"

interpretation attempt_order: key_order attempt_cmp attempt_key key_cmp
  by unfold_locales (auto simp: attempt_cmp_def host_cmp_key key_cmp_less key_cmp_eq)

text \<open>The last recorded attempt for a host.\<close>

definition last_attempt :: "pcon \<Rightarrow> host_key \<Rightarrow> timeval \<Rightarrow> bool" where
  "last_attempt pc k ts \<longleftrightarrow> (\<exists>a\<in>set (attempts pc). key_of (a_host a) = k \<and> attempt_ts a = ts)"

lemma last_attempt_unique:
  assumes "pcon_wf pc" and "last_attempt pc k t1" and "last_attempt pc k t2"
  shows "t1 = t2"
proof -
  from assms(1) have "inj_on attempt_key (set (attempts pc))"
    by (auto simp: pcon_wf_def table_wf_def distinct_map)
  with assms(2,3) show ?thesis by (auto simp: last_attempt_def inj_on_def)
qed

lemma pcon_init_wf:
  assumes "pcon_init pc al = (0, pc', al')"
  shows "pcon_wf pc'" and "attempts pc' = []"
proof -
  obtain f d al1 where d: "(DA_INIT PC_INIT_SZ al :: bool \<times> ip_attempt da \<times> allocs) = (f, d, al1)"
    by (rule prod_cases3)
  with assms have "pc' = pc\<lparr>ipas := d, p_lock := False\<rparr>" by (auto simp: pcon_init_def split: if_splits)
  with DA_INIT_list[OF d] show "pcon_wf pc'" "attempts pc' = []"
    by (auto simp: pcon_wf_def table_wf_def ascending_def keyed_def)
qed

text \<open>Renewing the time of an attempt keeps the table.\<close>

lemma pcon_renew:
  assumes wf: "pcon_wf pc" and i: "i < length (attempts pc)"
  shows "da_list (renewed (ipas pc) i ts) = (attempts pc)[i := (attempts pc ! i)\<lparr>attempt_ts := ts\<rparr>]"
      (is "da_list ?d = ?xs")
    and "table_wf attempt_key (renewed (ipas pc) i ts)"
proof -
  have da: "da_wf (ipas pc)" using wf by (simp add: pcon_wf_def table_wf_def)
  then have ct: "i < da_ct (ipas pc)" using i by (simp add: length_da_list)
  show list: "da_list ?d = ?xs" using ct by (simp add: renewed_def da_list_def take_update_swap)
  have keys: "map (key_of \<circ> a_host) ?xs = map (key_of \<circ> a_host) (attempts pc)"
    using i by (simp add: map_update list_update_same_conv)
  have "map attempt_key ys = map Some (map (key_of \<circ> a_host) ys)" for ys by simp
  then have "map attempt_key ?xs = map attempt_key (attempts pc)" by (simp only: keys)
  moreover have "da_wf ?d" using da by (simp add: renewed_def da_wf_def)
  ultimately show "table_wf attempt_key ?d"
    using wf keys unfolding pcon_wf_def table_wf_def list ascending_def keyed_def comp_def
    by simp
qed

lemma pcon_connect_cases:
  assumes wf: "pcon_wf pc"
  obtains (recent) ts where "pcon_connect now pc h al = Some (1, False, pc, al)"
      "last_attempt pc (key_of h) ts" "\<not> timer_gt (timersub now ts) \<lparr>tv_sec = PC_CON_EASE_SEC, tv_usec = 0\<rparr>"
  | (again) ts pc' where "pcon_connect now pc h al = Some (0, True, pc', al)" "pcon_wf pc'"
      "last_attempt pc (key_of h) ts" "timer_gt (timersub now ts) \<lparr>tv_sec = PC_CON_EASE_SEC, tv_usec = 0\<rparr>"
      "last_attempt pc' (key_of h) now" "length (attempts pc') = length (attempts pc)"
  | (first) pc' al' where "pcon_connect now pc h al = Some (0, True, pc', al')" "pcon_wf pc'"
      "\<nexists>ts. last_attempt pc (key_of h) ts" "last_attempt pc' (key_of h) now"
  | (lost) pc' al' where "pcon_connect now pc h al = Some (0, True, pc', al')" "pcon_wf pc'"
      "\<nexists>ts. last_attempt pc (key_of h) ts" "mset (attempts pc') = mset (attempts pc)" "al \<noteq> []"
proof -
  have t: "table_wf attempt_key (ipas pc)" and free: "\<not> p_lock pc" using wf by (simp_all add: pcon_wf_def)
  then have da: "da_wf (ipas pc)" by (simp add: table_wf_def)
  let ?nh = "\<lparr>attempt_ts = \<lparr>tv_sec = 0, tv_usec = 0\<rparr>, a_host = h\<rparr>"
  have k: "attempt_key ?nh = Some (key_of h)" by simp
  show thesis
  proof (cases rule: attempt_order.table_find[OF t k])
    case (1 i)
    have item: "da_items (ipas pc) ! i = attempts pc ! i"
      using 1(2) da by (simp add: da_list_nth length_da_list)
    have last: "last_attempt pc (key_of h) (attempt_ts (attempts pc ! i))"
      using 1(2,3) by (auto simp: last_attempt_def)
    show thesis
    proof (cases "timer_gt (timersub now (attempt_ts (attempts pc ! i))) \<lparr>tv_sec = PC_CON_EASE_SEC, tv_usec = 0\<rparr>")
      case True
      let ?d = "renewed (ipas pc) i now"
      note renew = pcon_renew[OF wf 1(2), of now]
      have "(attempts pc ! i)\<lparr>attempt_ts := now\<rparr> \<in> set (da_list ?d)"
        unfolding renew(1) using 1(2) by (rule set_update_memI)
      then have "last_attempt (pc\<lparr>ipas := ?d\<rparr>) (key_of h) now"
        unfolding last_attempt_def using 1(3)
        by (intro bexI[of _ "(attempts pc ! i)\<lparr>attempt_ts := now\<rparr>"]) simp_all
      then show thesis
        by (intro again[of "pc\<lparr>ipas := ?d\<rparr>", OF _ _ last True])
          (use 1 True free renew item in \<open>simp_all add: pcon_connect_def pcon_wf_def Let_def\<close>)
    next
      case False
      show thesis
        by (rule recent[OF _ last False])
          (use 1 False free item in \<open>simp add: pcon_connect_def Let_def\<close>)
    qed
  next
    case miss: 2
    then have none: "\<nexists>ts. last_attempt pc (key_of h) ts" by (auto simp: last_attempt_def)
    let ?x = "\<lparr>attempt_ts = now, a_host = h\<rparr>"
    have kx: "attempt_key ?x = Some (key_of h)" by simp
    show thesis
    proof (cases rule: attempt_order.table_add[OF t kx miss(2), of al])
      case (1 al')
      have key: "keyed attempt_key (attempts pc)" by (simp add: keyed_def)
      from attempt_order.qsort_total[OF key] obtain d where d: "da_qsort attempt_cmp (ipas pc) = Some d"
        using da_qsort_total by blast
      note q = da_qsort_list[OF d da]
      have ms: "mset (da_list d) = mset (attempts pc)" using qsort_mset[OF q(1)] .
      have "mset (map attempt_key (da_list d)) = mset (map attempt_key (attempts pc))" using ms by simp
      then have "distinct (map attempt_key (da_list d))"
        using t mset_eq_imp_distinct_iff by (metis table_wf_def)
      then have "table_wf attempt_key d"
        using q attempt_order.qsort_ascending[OF key q(1)] by (simp add: table_wf_def)
      moreover have "al \<noteq> []"
        using 1 by (auto simp: DA_ADD_TO_END_def DA_CHECK_AND_REALLOC_def Let_def split: if_splits)
      ultimately show thesis
        by (intro lost[of "pc\<lparr>ipas := d\<rparr>" al'])
          (use 1 miss free d none ms in \<open>simp_all add: pcon_connect_def pcon_wf_def Let_def\<close>)
    next
      case (2 d1 d2 al')
      have "?x \<in> set (da_list d2)" using set_add[OF 2(4)] by simp
      then have "last_attempt (pc\<lparr>ipas := d2\<rparr>) (key_of h) now"
        unfolding last_attempt_def by (intro bexI[of _ ?x]) simp_all
      then show thesis
        by (intro first[of "pc\<lparr>ipas := d2\<rparr>" al'])
          (use 2 miss free none in \<open>simp_all add: pcon_connect_def pcon_wf_def Let_def\<close>)
    qed
  qed
qed

lemma pcon_connect_keeps:
  assumes wf: "pcon_wf pc" and res: "pcon_connect now pc h al = Some (ret, c, pc', al')"
  shows "pcon_wf pc'" and "al = [] \<longrightarrow> al' = []"
proof -
  show "pcon_wf pc'"
    by (cases rule: pcon_connect_cases[OF wf, of now h al]) (use wf res in auto)
  obtain fl d al2 where "DA_ADD_TO_END (ipas pc) \<lparr>attempt_ts = now, a_host = h\<rparr> al = (fl, d, al2)"
    by (rule prod_cases3)
  moreover from this have "al = [] \<longrightarrow> al2 = []"
    by (auto simp: DA_ADD_TO_END_def DA_CHECK_AND_REALLOC_def Let_def split: if_splits)
  ultimately show "al = [] \<longrightarrow> al' = []"
    using res by (auto simp: pcon_connect_def Let_def bind_Some_iff split: if_splits option.splits)
qed

end
