(* ===== verification/Peer.thy ===== *)
theory Peer
  imports Dpg Pcon
begin

text \<open>
  A direct peer and its connection, src/dpeer.h and the first half of src/dpeer.c: sending packets
  under the write lock, receiving them, probes and the packets of the handshake.

  A connection is a pair of byte streams.  \<open>send\<close> may accept any part of what it is given or fail;
  its answers are listed in \<open>tx_answers\<close>, and once the list is used up everything is accepted.
  \<open>recv\<close> with \<open>MSG_WAITALL\<close> returns as many bytes as asked for unless the stream ends before: then
  what is left, or -1 if nothing is left and the connection is broken rather than closed.

  \<open>remote_host\<close> of peer \<open>n\<close> is the block \<open>IP_Dp n\<close> of the routing data's memory, since the routing
  table points into it.
\<close>

section \<open>The state of a node\<close>

record conn =
  rx :: "u8 list"
  rx_broken :: bool
  tx :: "u8 list"
  tx_answers :: "nat option list"

record peer =
  con_fd :: "conn option"
  wlock :: bool
  probe_seq :: u16
  probe_send_time :: timeval
  rtt_tv :: timeval
  rtt_us :: u32

record vnet =
  v_fd :: int
  v_ifname :: string
  v_wlock :: bool
  v_mac :: ether_addr

text \<open>The threads that were started, with the peer they work for.\<close>

datatype thread = Th_Initial dptr string string | Th_Linkstate dptr | Th_Incoming dptr | Th_Vnet

text \<open>
  The whole process: \<open>routing_t\<close>, \<open>dpg_t\<close>, \<open>vnet_t\<close>, \<open>pcon_t\<close>, the peers that are allocated, and
  what the environment will answer: readings of the clock, results of \<open>rand\<close>, and results of
  \<open>pthread_create\<close>.  The allocator's answers are those of the routing data; \<open>n_fresh d\<close> is what the
  memory of the peer \<open>d\<close> holds when it is allocated.
\<close>

record node =
  n_rd :: routing
  n_dpg :: dpg
  n_vnet :: vnet
  n_pc :: pcon
  n_peers :: "dptr \<Rightarrow> peer option"
  n_next :: dptr
  n_threads :: "thread list"
  n_clock :: "timeval list"
  n_rand :: "u16 list"
  n_spawns :: "int list"
  n_fresh :: "dptr \<Rightarrow> peer"

definition gettimeofday :: "node \<Rightarrow> timeval \<times> node" where
  "gettimeofday s =
     (case n_clock s of
        [] \<Rightarrow> (\<lparr>tv_sec = 0, tv_usec = 0\<rparr>, s)
      | t # ts \<Rightarrow> (t, s\<lparr>n_clock := ts\<rparr>))"

definition rand :: "node \<Rightarrow> u16 \<times> node" where
  "rand s = (case n_rand s of [] \<Rightarrow> (0, s) | r # rs \<Rightarrow> (r, s\<lparr>n_rand := rs\<rparr>))"

definition malloc :: "node \<Rightarrow> bool \<times> node" where
  "malloc s = (let (ok, al) = alloc (allocs (n_rd s)) in (ok, s\<lparr>n_rd := (n_rd s)\<lparr>allocs := al\<rparr>\<rparr>))"

text \<open>\<open>DP_HOST (dp)\<close> and \<open>DP_MAC (dp)\<close>\<close>

definition dp_host :: "node \<Rightarrow> dptr \<Rightarrow> ipv4_host option" where
  "dp_host s d = ipheap (n_rd s) (IP_Dp d)"

definition dp_mac :: "node \<Rightarrow> dptr \<Rightarrow> ether_addr option" where
  "dp_mac s d = map_option ip_mac (dp_host s d)"

definition set_dp_host :: "dptr \<Rightarrow> ipv4_host \<Rightarrow> node \<Rightarrow> node" where
  "set_dp_host d h s = s\<lparr>n_rd := (n_rd s)\<lparr>ipheap := (ipheap (n_rd s))(IP_Dp d \<mapsto> h)\<rparr>\<rparr>"

text \<open>An operation on a peer as an operation of the node.\<close>

definition with_peer :: "dptr \<Rightarrow> (peer \<Rightarrow> ('a \<times> peer) option) \<Rightarrow> node \<Rightarrow> ('a \<times> node) option" where
  "with_peer d f s = do {
     dp \<leftarrow> n_peers s d;
     (r, dp) \<leftarrow> f dp;
     Some (r, s\<lparr>n_peers := (n_peers s)(d \<mapsto> dp)\<rparr>)
   }"

section \<open>Sending\<close>

text \<open>\<open>None\<close> for waiting for ever, and for the release of a mutex that is not held.\<close>

definition mutex_lock :: "peer \<Rightarrow> peer option" where
  "mutex_lock dp = (if wlock dp then None else Some (dp\<lparr>wlock := True\<rparr>))"

definition mutex_unlock :: "peer \<Rightarrow> peer option" where
  "mutex_unlock dp = (if wlock dp then Some (dp\<lparr>wlock := False\<rparr>) else None)"

text \<open>The loop of \<open>dp_psend_data\<close>: what is left of the data, and what was accepted so far.\<close>

fun psend_loop :: "nat option list \<Rightarrow> u8 list \<Rightarrow> u8 list \<Rightarrow> int \<times> nat option list \<times> u8 list" where
  "psend_loop [] data out = (0, [], out @ data)"
| "psend_loop (None # as) data out = (- 1, as, out)"
| "psend_loop (Some k # as) data out =
     (let tmit_sz = min k (length data);
          rem = drop tmit_sz data; out = out @ take tmit_sz data
      in if rem \<noteq> [] then psend_loop as rem out else (0, as, out))"

definition dp_psend_data :: "peer \<Rightarrow> u8 list \<Rightarrow> (int \<times> peer) option" where
  "dp_psend_data dp data = do {
     c \<leftarrow> con_fd dp;
     let (ret, as, out) = psend_loop (tx_answers c) data (tx c);
     let dp = dp\<lparr>con_fd := Some (c\<lparr>tx_answers := as, tx := out\<rparr>)\<rparr>;
     if ret < 0 then do { dp \<leftarrow> mutex_unlock dp; Some (- 1, dp) }
     else Some (0, dp)
   }"

definition dp_psend_start :: "peer \<Rightarrow> u16 \<Rightarrow> u16 \<Rightarrow> u8 list option \<Rightarrow> (int \<times> peer) option" where
  "dp_psend_start dp type len data = do {
     dp \<leftarrow> mutex_lock dp;
     let header = \<lparr>hd_type = htons type, hd_len = htons len\<rparr>;
     (ret, dp) \<leftarrow> dp_psend_data dp (header_bytes header);
     if ret < 0 then do { dp \<leftarrow> mutex_unlock dp; Some (ret, dp) }
     else case data of
       None \<Rightarrow> Some (0, dp)
     | Some bs \<Rightarrow> do {
         (ret, dp) \<leftarrow> dp_psend_data dp bs;
         if ret < 0 then do { dp \<leftarrow> mutex_unlock dp; Some (ret, dp) }
         else Some (0, dp)
       }
   }"

text \<open>\<open>len\<close> bytes are sent from \<open>data\<close>; reading past its end is undefined.\<close>

definition dp_send_packet :: "u16 \<Rightarrow> u16 \<Rightarrow> u8 list \<Rightarrow> peer \<Rightarrow> (int \<times> peer) option" where
  "dp_send_packet type len data dp =
     (if length data < unat len then None
      else do {
        (ret, dp) \<leftarrow> dp_psend_start dp type len (Some (take (unat len) data));
        if ret = 0 then do { dp \<leftarrow> mutex_unlock dp; Some (ret, dp) }
        else Some (ret, dp)
      })"

definition dp_send_data :: "u8 list \<Rightarrow> nat \<Rightarrow> peer \<Rightarrow> (int \<times> peer) option" where
  "dp_send_data data len dp = dp_send_packet PT_DATA (of_nat len) data dp"

text \<open>
  \<open>dp_send_linkstate\<close>: \<open>len\<close> and \<open>e_ct\<close> are passed on as 16-bit numbers.  \<open>me\<close> is the local host's
  address, from \<open>DPG_LADDR\<close> and \<open>vnet_get_mac\<close>.
\<close>

definition dp_send_linkstate :: "ipv4_host \<Rightarrow> pkt_edge list \<Rightarrow> peer \<Rightarrow> (int \<times> peer) option" where
  "dp_send_linkstate me es dp = do {
     let len = PL_EDGE * length es + PL_LINK_GRAPH_STATIC;
     let lpkt = le_bytes 2 (htons (of_nat (length es))) @ host_bytes (pkt_ipv4_pack me);
     (ret, dp) \<leftarrow> dp_psend_start dp PT_LINK_GRAPH (of_nat len) (Some lpkt);
     if ret < 0 then Some (- 1, dp)
     else do {
       (ret, dp) \<leftarrow> dp_psend_data dp (concat (map edge_bytes es));
       if ret < 0 then Some (- 2, dp)
       else do { dp \<leftarrow> mutex_unlock dp; Some (0, dp) }
     }
   }"

section \<open>Receiving\<close>

definition recv :: "nat \<Rightarrow> peer \<Rightarrow> ((int \<times> u8 list) \<times> peer) option" where
  "recv n dp = do {
     c \<leftarrow> con_fd dp;
     let bs = take n (rx c);
     let r = (if bs = [] \<and> n > 0 \<and> rx_broken c then - 1 else int (length bs));
     Some ((r, bs), dp\<lparr>con_fd := Some (c\<lparr>rx := drop n (rx c)\<rparr>)\<rparr>)
   }"

text \<open>The packet type and length are the second and third component.\<close>

definition dp_recv_header :: "peer \<Rightarrow> ((int \<times> u16 \<times> u16) \<times> peer) option" where
  "dp_recv_header dp = do {
     ((r, bs), dp) \<leftarrow> recv PL_HEADER dp;
     if r = - 1 then Some ((- 1, 0, 0), dp)
     else if r < int PL_HEADER then Some ((1, 0, 0), dp)
     else let header = header_of_bytes bs
     in Some ((0, ntohs (hd_type header), ntohs (hd_len header)), dp)
   }"

section \<open>Probes\<close>

definition dp_handle_probe_req :: "peer \<Rightarrow> (int \<times> peer) option" where
  "dp_handle_probe_req dp = do {
     ((r, req), dp) \<leftarrow> recv PL_PROBE_REQ dp;
     if r \<noteq> int PL_PROBE_REQ then Some (- 1, dp)
     else dp_send_packet PT_PROBE_RESP (of_nat PL_PROBE_RESP) req dp
   }"

definition dp_handle_probe_resp :: "dptr \<Rightarrow> node \<Rightarrow> (int \<times> node) option" where
  "dp_handle_probe_resp d s = do {
     ((r, req), s) \<leftarrow> with_peer d (recv PL_PROBE_RESP) s;
     if r \<noteq> int PL_PROBE_REQ then Some (- 1, s)
     else do {
       dp \<leftarrow> n_peers s d;
       if of_le_bytes req = probe_seq dp then do {
         let (tv, s) = gettimeofday s;
         let rtt = timersub tv (probe_send_time dp);
         let us = word_of_int (tv_us rtt);
         let s = s\<lparr>n_peers := (n_peers s)(d \<mapsto> dp\<lparr>rtt_tv := rtt, rtt_us := us\<rparr>)\<rparr>;
         let (now, s) = gettimeofday s;
         (ret, rd) \<leftarrow> rt_dhost_add_link now (n_rd s) (IP_Dp d) us;
         Some (ret, s\<lparr>n_rd := rd\<rparr>)
       }
       else Some (0, s)
     }
   }"

definition dp_send_probe_req :: "dptr \<Rightarrow> node \<Rightarrow> (int \<times> node) option" where
  "dp_send_probe_req d s = do {
     let (seq_num, s) = rand s;
     dp \<leftarrow> n_peers s d;
     let (now, s) = gettimeofday s;
     let dp = dp\<lparr>probe_seq := seq_num, probe_send_time := now\<rparr>;
     with_peer d (dp_send_packet PT_PROBE_REQ (of_nat PL_PROBE_REQ) (le_bytes 2 seq_num))
       (s\<lparr>n_peers := (n_peers s)(d \<mapsto> dp)\<rparr>)
   }"

section \<open>The handshake\<close>

text \<open>\<open>joining_host\<close>: the address is copied as it is, in network order.\<close>

definition dp_send_join :: "dptr \<Rightarrow> node \<Rightarrow> (int \<times> node) option" where
  "dp_send_join d s =
     (let sai = l_addr (n_dpg s);
          pjoin = \<lparr>p_ip = sin_addr sai, p_port = sin_port sai, p_mac = v_mac (n_vnet s)\<rparr>
      in with_peer d (dp_send_packet PT_JOIN_PART (of_nat PL_JOIN) (host_bytes pjoin)) s)"

definition dp_handle_join :: "dptr \<Rightarrow> node \<Rightarrow> (int \<times> node) option" where
  "dp_handle_join d s = do {
     ((r, join), s) \<leftarrow> with_peer d (recv PL_JOIN) s;
     if r < int PL_JOIN then Some (- 1, s)
     else Some (0, set_dp_host d (pkt_ipv4_unpack (host_of_bytes join)) s)
   }"

section \<open>What sending does\<close>

text \<open>The bytes of a packet: the header in network order and the payload.\<close>

definition packet :: "u16 \<Rightarrow> u16 \<Rightarrow> u8 list \<Rightarrow> u8 list" where
  "packet type len payload = header_bytes \<lparr>hd_type = htons type, hd_len = htons len\<rparr> @ payload"

text \<open>\<open>dp\<close> after \<open>bs\<close> went out and the answers \<open>as\<close> of \<open>send\<close> are left.\<close>

definition sent :: "u8 list \<Rightarrow> nat option list \<Rightarrow> conn \<Rightarrow> conn" where
  "sent bs as c = c\<lparr>tx := tx c @ bs, tx_answers := as\<rparr>"

definition no_errors :: "conn \<Rightarrow> bool" where
  "no_errors c \<longleftrightarrow> None \<notin> set (tx_answers c)"

lemma sent_sent [simp]: "sent bs2 as2 (sent bs1 as1 c) = sent (bs1 @ bs2) as2 c"
  by (simp add: sent_def)

lemma sent_sel [simp]:
  "tx (sent bs as c) = tx c @ bs" "tx_answers (sent bs as c) = as" "rx (sent bs as c) = rx c"
  "rx_broken (sent bs as c) = rx_broken c"
  by (simp_all add: sent_def)

text \<open>
  However the connection cuts the data into pieces, the loop ends, and unless \<open>send\<close> fails all of
  it goes out in order.
\<close>

lemma psend_loop_cases:
  obtains (ok) as' where "psend_loop as data out = (0, as', out @ data)" "set as' \<subseteq> set as"
  | (fail) as' out' where "psend_loop as data out = (- 1, as', out')" "None \<in> set as"
proof (induction as data out rule: psend_loop.induct)
  case (3 k as data out)
  show ?case
  proof (cases "length data \<le> k")
    case True
    show ?thesis by (rule 3(2)) (use True in \<open>auto simp: Let_def min_def\<close>)
  next
    case False
    let ?rem = "drop (min k (length data)) data" and ?out = "out @ take (min k (length data)) data"
    have step: "psend_loop (Some k # as) data out = psend_loop as ?rem ?out" using False by (simp add: Let_def)
    have rem: "?rem \<noteq> []" using False by simp
    show ?thesis
    proof (rule 3(1)[OF refl refl refl rem])
      fix as' assume "psend_loop as ?rem ?out = (0, as', ?out @ ?rem)" "set as' \<subseteq> set as"
      then show thesis by (intro 3(2)[of as']) (auto simp: step simp del: psend_loop.simps)
    next
      fix as' out' assume "psend_loop as ?rem ?out = (- 1, as', out')" "None \<in> set as"
      then show thesis by (intro 3(3)[of as' out']) (auto simp: step simp del: psend_loop.simps)
    qed
  qed
qed auto

lemma dp_psend_data_cases:
  assumes "con_fd dp = Some c" and "wlock dp"
  obtains (ok) as where "dp_psend_data dp data = Some (0, dp\<lparr>con_fd := Some (sent data as c)\<rparr>)"
      "no_errors c \<longrightarrow> no_errors (sent data as c)"
  | (fail) dp' where "dp_psend_data dp data = Some (- 1, dp')" "\<not> wlock dp'" "\<not> no_errors c"
proof (cases rule: psend_loop_cases[of "tx_answers c" data "tx c", case_names all lost])
  case (all as)
  show thesis
    by (rule ok[of as]) (use assms all in \<open>auto simp: dp_psend_data_def sent_def no_errors_def\<close>)
next
  case (lost as out)
  show thesis
    by (rule fail[of "dp\<lparr>con_fd := Some (c\<lparr>tx_answers := as, tx := out\<rparr>), wlock := False\<rparr>"])
      (use assms lost in \<open>simp_all add: dp_psend_data_def mutex_unlock_def no_errors_def\<close>)
qed

text \<open>
  A failed \<open>send\<close> never gets as far as an error code: \<open>dp_psend_data\<close> has released the mutex, and
  \<open>dp_psend_start\<close> releases it again.
\<close>

lemma dp_psend_start_cases:
  assumes "con_fd dp = Some c" and "\<not> wlock dp"
  obtains (ok) as where "dp_psend_start dp type len (Some bs) =
      Some (0, dp\<lparr>wlock := True, con_fd := Some (sent (packet type len bs) as c)\<rparr>)"
      "no_errors c \<longrightarrow> no_errors (sent (packet type len bs) as c)"
  | (fail) "dp_psend_start dp type len (Some bs) = None" "\<not> no_errors c"
proof -
  let ?h = "header_bytes \<lparr>hd_type = htons type, hd_len = htons len\<rparr>"
  let ?l = "dp\<lparr>wlock := True\<rparr>"
  have lk: "mutex_lock dp = Some ?l" "con_fd ?l = Some c" "wlock ?l"
    using assms by (simp_all add: mutex_lock_def)
  show thesis
  proof (cases rule: dp_psend_data_cases[OF lk(2,3), of ?h])
    case (1 as)
    let ?m = "?l\<lparr>con_fd := Some (sent ?h as c)\<rparr>"
    have m: "con_fd ?m = Some (sent ?h as c)" "wlock ?m" by simp_all
    show thesis
    proof (cases rule: dp_psend_data_cases[OF m, of bs])
      case (1 as')
      show thesis
        by (rule ok[of as'])
          (use 1 \<open>dp_psend_data ?l ?h = _\<close> \<open>no_errors c \<longrightarrow> _\<close> lk in \<open>simp_all add: dp_psend_start_def packet_def\<close>)
    next
      case (2 dp')
      show thesis
        by (rule fail)
          (use 2 \<open>dp_psend_data ?l ?h = _\<close> \<open>no_errors c \<longrightarrow> _\<close> lk in \<open>auto simp: dp_psend_start_def mutex_unlock_def\<close>)
    qed
  next
    case (2 dp')
    show thesis by (rule fail) (use 2 lk in \<open>auto simp: dp_psend_start_def mutex_unlock_def\<close>)
  qed
qed

lemma dp_send_packet_cases:
  assumes "con_fd dp = Some c" and "\<not> wlock dp" and "unat len \<le> length data"
  obtains (ok) as where "dp_send_packet type len data dp =
      Some (0, dp\<lparr>con_fd := Some (sent (packet type len (take (unat len) data)) as c)\<rparr>)"
      "no_errors c \<longrightarrow> no_errors (sent (packet type len (take (unat len) data)) as c)"
  | (fail) "dp_send_packet type len data dp = None" "\<not> no_errors c"
proof (cases rule: dp_psend_start_cases[OF assms(1,2), of type len "take (unat len) data"])
  case (1 as)
  have "dp\<lparr>con_fd := x, wlock := False\<rparr> = dp\<lparr>con_fd := x\<rparr>" for x using assms(2) by (cases dp) simp
  then show thesis
    by (intro ok[of as]) (use 1 assms in \<open>simp_all add: dp_send_packet_def mutex_unlock_def not_less\<close>)
next
  case 2
  show thesis by (rule fail) (use 2 assms in \<open>simp_all add: dp_send_packet_def\<close>)
qed

lemma dp_send_linkstate_cases:
  fixes es :: "pkt_edge list"
  defines "lpkt me \<equiv> le_bytes 2 (htons (of_nat (length es))) @ host_bytes (pkt_ipv4_pack me)"
    and "len \<equiv> of_nat (PL_EDGE * length es + PL_LINK_GRAPH_STATIC)"
  assumes "con_fd dp = Some c" and "\<not> wlock dp" and "no_errors c"
  obtains as where "dp_send_linkstate me es dp = Some (0, dp\<lparr>con_fd :=
      Some (sent (packet PT_LINK_GRAPH len (lpkt me @ concat (map edge_bytes es))) as c)\<rparr>)"
    "no_errors (sent (packet PT_LINK_GRAPH len (lpkt me @ concat (map edge_bytes es))) as c)"
proof (cases rule: dp_psend_start_cases[OF assms(3,4), of PT_LINK_GRAPH len "lpkt me"])
  case (1 as)
  let ?c = "sent (packet PT_LINK_GRAPH len (lpkt me)) as c"
  let ?m = "dp\<lparr>wlock := True, con_fd := Some ?c\<rparr>"
  have m: "con_fd ?m = Some ?c" "wlock ?m" by simp_all
  have free: "dp\<lparr>con_fd := x, wlock := False\<rparr> = dp\<lparr>con_fd := x\<rparr>" for x using assms(4) by (cases dp) simp
  have ne: "no_errors ?c" using 1 assms(5) by simp
  show thesis
  proof (cases rule: dp_psend_data_cases[OF m, of "concat (map edge_bytes es)"])
    case (1 as')
    note run = \<open>dp_psend_start dp _ _ _ = _\<close> 1
    show thesis
      by (rule that[of as'])
        (use run ne free in \<open>simp_all add: dp_send_linkstate_def mutex_unlock_def packet_def Let_def lpkt_def len_def\<close>)
  qed (use ne in simp)
qed (use assms(5) in simp)

section \<open>What receiving does\<close>

text \<open>The connection after \<open>n\<close> bytes were read from it.\<close>

definition fed :: "nat \<Rightarrow> conn \<Rightarrow> conn" where
  "fed n c = c\<lparr>rx := drop n (rx c)\<rparr>"

lemma fed_sel [simp]:
  "rx (fed n c) = drop n (rx c)" "tx (fed n c) = tx c" "tx_answers (fed n c) = tx_answers c"
  "rx_broken (fed n c) = rx_broken c" "no_errors (fed n c) = no_errors c"
  by (simp_all add: fed_def no_errors_def)

lemma fed_fed [simp]: "fed m (fed n c) = fed (n + m) c"
  by (simp add: fed_def add.commute)

lemma recv_all:
  assumes "con_fd dp = Some c" and "n \<le> length (rx c)"
  shows "recv n dp = Some ((int n, take n (rx c)), dp\<lparr>con_fd := Some (fed n c)\<rparr>)"
  using assms by (auto simp: recv_def fed_def Let_def)

lemma recv_short:
  assumes "con_fd dp = Some c" and "length (rx c) < n"
  obtains r bs where "recv n dp = Some ((r, bs), dp\<lparr>con_fd := Some (fed n c)\<rparr>)" "r < int n"
  using assms by (auto simp: recv_def fed_def Let_def)

lemma dp_recv_header_packet:
  assumes "con_fd dp = Some c" and "rx c = packet type len payload @ rest"
  shows "dp_recv_header dp = Some ((0, type, len), dp\<lparr>con_fd := Some (fed PL_HEADER c)\<rparr>)"
proof -
  have "length (header_bytes h) = 4" for h by (simp add: PL_HEADER_def)
  then show ?thesis
    using recv_all[OF assms(1), of PL_HEADER] assms(2)
    by (simp add: dp_recv_header_def packet_def PL_HEADER_def del: length_header_bytes)
qed

lemma dp_recv_header_short:
  assumes "con_fd dp = Some c" and "length (rx c) < PL_HEADER"
  obtains r where "dp_recv_header dp = Some ((r, 0, 0), dp\<lparr>con_fd := Some (fed PL_HEADER c)\<rparr>)" "r = 1 \<or> r = - 1"
proof -
  obtain r bs where r: "recv PL_HEADER dp = Some ((r, bs), dp\<lparr>con_fd := Some (fed PL_HEADER c)\<rparr>)" "r < int PL_HEADER"
    by (rule recv_short[OF assms])
  show thesis by (rule that[of "if r = - 1 then - 1 else 1"]) (use r in \<open>simp_all add: dp_recv_header_def\<close>)
qed

end
