(* ===== verification/Peer_Packets.thy ===== *)
theory Peer_Packets
  imports Peer
begin

text \<open>
  The packets a peer handles once it is connected, from src/dpeer.c: data frames, which are passed
  on along the routing table, link state, which updates the table and opens further connections,
  and the link state that is sent in turn (with \<open>dpg_send_linkstate\<close> of src/dpg.c).
\<close>

section \<open>Creating peers\<close>

text \<open>
  The fields that are not set yet hold what the memory held; reading \<open>con_fd\<close> before it is set is
  undefined.  \<open>pthread_mutex_init\<close> does not fail.
\<close>

definition dp_create_1 :: "node \<Rightarrow> int \<times> dptr \<times> node" where
  "dp_create_1 s =
     (let (ok, s) = malloc s; d = n_next s
      in if \<not> ok then (- 1, d, s)
      else (0, d, s\<lparr>n_peers := (n_peers s)(d \<mapsto> (n_fresh s d)\<lparr>con_fd := None, wlock := False\<rparr>), n_next := d + 1\<rparr>))"

text \<open>With the peer goes its \<open>remote_host\<close>.\<close>

definition dp_cleanup_1 :: "dptr \<Rightarrow> node \<Rightarrow> node" where
  "dp_cleanup_1 d s =
     s\<lparr>n_rd := (n_rd s)\<lparr>ipheap := (ipheap (n_rd s))(IP_Dp d := None)\<rparr>,
       n_peers := (n_peers s)(d := None)\<rparr>"

text \<open>
  The attribute calls succeed; the result is that of \<open>pthread_create\<close>, which reports an error as a
  positive number.
\<close>

definition dp_spawn_th :: "thread \<Rightarrow> node \<Rightarrow> int \<times> node" where
  "dp_spawn_th th s =
     (case n_spawns s of
        [] \<Rightarrow> (0, s\<lparr>n_threads := n_threads s @ [th]\<rparr>)
      | e # es \<Rightarrow> let s = s\<lparr>n_spawns := es\<rparr>
                 in (e, if e = 0 then s\<lparr>n_threads := n_threads s @ [th]\<rparr> else s))"

definition dp_create_linkstate :: "ipv4_host \<Rightarrow> node \<Rightarrow> int \<times> node" where
  "dp_create_linkstate ip_host s =
     (let (ret, d, s) = dp_create_1 s
      in if ret < 0 then (- 1, s)
      else let s = set_dp_host d ip_host s; (ok, s) = malloc s
      in if \<not> ok then (- 1, dp_cleanup_1 d s)
      else let (ret, s) = dp_spawn_th (Th_Linkstate d) s
      in if ret < 0 then (- 2, dp_cleanup_1 d s) else (0, s))"

text \<open>\<open>pcon_connect\<close> with the connection it opens.\<close>

definition connect_peer :: "ipv4_host \<Rightarrow> node \<Rightarrow> node option" where
  "connect_peer h s = do {
     let (now, s) = gettimeofday s;
     (ret, connect, pc, al) \<leftarrow> pcon_connect now (n_pc s) h (allocs (n_rd s));
     let s = s\<lparr>n_pc := pc, n_rd := (n_rd s)\<lparr>allocs := al\<rparr>\<rparr>;
     Some (if connect then snd (dp_create_linkstate h s) else s)
   }"

section \<open>Link state\<close>

text \<open>\<open>(pkt_len - PL_LINK_GRAPH_STATIC) / PL_EDGE\<close> in \<open>size_t\<close>, cut to 16 bits\<close>

definition link_edge_ct :: "nat \<Rightarrow> u16" where
  "link_edge_ct pkt_len =
     of_nat (((2 ^ 64 + pkt_len - PL_LINK_GRAPH_STATIC) mod 2 ^ 64) div PL_EDGE)"

definition connect_edge :: "pkt_edge \<Rightarrow> node \<Rightarrow> node option" where
  "connect_edge e s = do {
     s \<leftarrow> connect_peer (pkt_ipv4_unpack (e_src e)) s;
     connect_peer (pkt_ipv4_unpack (e_dst e)) s
   }"

text \<open>\<open>memcpy (DP_MAC (dp)->addr, plink->vec_src_host.mac, ETH_ALEN)\<close>\<close>

definition populate_mac :: "dptr \<Rightarrow> u8 list \<Rightarrow> node \<Rightarrow> node option" where
  "populate_mac d plink s =
     (if length plink < PL_LINK_GRAPH_STATIC then None
      else do {
        h \<leftarrow> dp_host s d;
        Some (set_dp_host d (h\<lparr>ip_mac := mac_of_bytes (drop 8 plink)\<rparr>) s)
      })"

text \<open>Reading past the end of the packet is undefined.\<close>

definition dp_read_pkt_link_graph :: "dptr \<Rightarrow> nat \<Rightarrow> bool \<Rightarrow> node \<Rightarrow> (int \<times> node) option" where
  "dp_read_pkt_link_graph d pkt_len populate s =
     (let (ok, s) = malloc s
      in if \<not> ok then Some (- 1, s)
      else do {
        ((r, plink), s) \<leftarrow> with_peer d (recv pkt_len) s;
        if r \<noteq> int pkt_len then Some (- 1, s)
        else do {
          s \<leftarrow> (if populate then populate_mac d plink s else Some s);
          let e_ct = link_edge_ct pkt_len;
          if pkt_len < 2 then None
          else if e_ct \<noteq> ntohs (of_le_bytes (take 2 plink)) then Some (- 2, s)
          else if pkt_len < PL_LINK_GRAPH_STATIC + PL_EDGE * unat e_ct then None
          else do {
            let es = edges_of_bytes (unat e_ct) (drop PL_LINK_GRAPH_STATIC plink);
            s \<leftarrow> foldM connect_edge es s;
            (ret, rd) \<leftarrow> rt_update_edges (n_rd s) es;
            Some (ret, s\<lparr>n_rd := rd\<rparr>)
          }
        }
      })"

text \<open>The local host as it is named in link state.\<close>

definition own_host :: "node \<Rightarrow> ipv4_host" where
  "own_host s = \<lparr>ip_mac = v_mac (n_vnet s), ip_in = l_addr (n_dpg s)\<rparr>"

definition dp_send_peer_linkstate :: "dptr \<Rightarrow> node \<Rightarrow> (int \<times> node) option" where
  "dp_send_peer_linkstate d s = do {
     (es, e_ct, rd) \<leftarrow> rt_get_edges (n_rd s);
     (ret, s) \<leftarrow> with_peer d (dp_send_linkstate (own_host s) es) (s\<lparr>n_rd := rd\<rparr>);
     rd \<leftarrow> rt_edges_free (n_rd s);
     Some (ret, s\<lparr>n_rd := rd\<rparr>)
   }"

text \<open>The results of the single sends are ignored.\<close>

definition send_linkstate_to :: "pkt_edge list \<Rightarrow> dptr \<Rightarrow> node \<Rightarrow> node option" where
  "send_linkstate_to es d s = map_option snd (with_peer d (dp_send_linkstate (own_host s) es) s)"

definition dpg_send_linkstate :: "node \<Rightarrow> (int \<times> node) option" where
  "dpg_send_linkstate s = do {
     g \<leftarrow> g_rdlock (n_dpg s);
     (es, e_ct, rd) \<leftarrow> rt_get_edges (n_rd s);
     s \<leftarrow> foldM (send_linkstate_to es) (da_list (dps g)) (s\<lparr>n_dpg := g, n_rd := rd\<rparr>);
     rd \<leftarrow> rt_edges_free (n_rd s);
     g \<leftarrow> g_unlock (n_dpg s);
     Some (0, s\<lparr>n_rd := rd, n_dpg := g\<rparr>)
   }"

section \<open>Data frames\<close>

text \<open>
  The loop over the hosts that \<open>rt_dhosts_to_host\<close> names.  \<open>dp_from_ip_host\<close> is defined only for an
  address that lies inside a peer.
\<close>

definition send_frame_to :: "u8 list \<Rightarrow> ip_ptr \<Rightarrow> node \<Rightarrow> node option" where
  "send_frame_to pkt a s =
     (case a of
        IP_Dp d \<Rightarrow> map_option snd (with_peer d (dp_send_data pkt (length pkt)) s)
      | _ \<Rightarrow> None)"

definition forward_frame :: "ether_addr \<Rightarrow> ether_addr \<Rightarrow> u8 list \<Rightarrow> node \<Rightarrow> (int \<times> node) option" where
  "forward_frame src_mac dst_mac pkt s = do {
     (ret, hosts, rd) \<leftarrow> rt_dhosts_to_host (n_rd s) src_mac dst_mac;
     let s = s\<lparr>n_rd := rd\<rparr>;
     if ret < 0 then Some (ret, s)
     else do {
       s \<leftarrow> foldM (send_frame_to pkt) hosts s;
       rd \<leftarrow> rt_hosts_free (n_rd s) hosts;
       Some (0, s\<lparr>n_rd := rd\<rparr>)
     }
   }"

text \<open>
  \<open>struct ether_header\<close>: destination, then source.  A failed \<open>malloc\<close> is not noticed, but \<open>recv\<close>
  into the null pointer fails.
\<close>

definition ETHER_HDR_MACS :: nat where "ETHER_HDR_MACS = 2 * ETH_ALEN"

definition frame_dst :: "u8 list \<Rightarrow> ether_addr" where
  "frame_dst pkt = mac_of_bytes pkt"

definition frame_src :: "u8 list \<Rightarrow> ether_addr" where
  "frame_src pkt = mac_of_bytes (drop ETH_ALEN pkt)"

definition dp_recv_data :: "dptr \<Rightarrow> nat \<Rightarrow> node \<Rightarrow> (int \<times> node) option" where
  "dp_recv_data d pkt_len s =
     (let (ok, s) = malloc s
      in if \<not> ok then (if pkt_len = 0 then None else Some (- 1, s))
      else do {
        ((r, pkt), s) \<leftarrow> with_peer d (recv pkt_len) s;
        if r \<noteq> int pkt_len then Some (- 1, s)
        else if pkt_len < ETHER_HDR_MACS then None
        else do {
          (ret, s) \<leftarrow> forward_frame (frame_src pkt) (frame_dst pkt) pkt s;
          Some (if ret < 0 then - 1 else 0, s)
        }
      })"

text \<open>\<open>error_recv_flush\<close>\<close>

definition dp_recv_flush :: "dptr \<Rightarrow> nat \<Rightarrow> node \<Rightarrow> (int \<times> node) option" where
  "dp_recv_flush d pkt_len s =
     (let (ok, s) = malloc s
      in if \<not> ok \<and> pkt_len > 0 then Some (- 1, s)
      else do {
        ((r, pkt), s) \<leftarrow> with_peer d (recv pkt_len) s;
        Some (if r \<noteq> int pkt_len then - 1 else 0, s)
      })"

definition dp_recv_packet :: "dptr \<Rightarrow> node \<Rightarrow> (int \<times> node) option" where
  "dp_recv_packet d s = do {
     ((ret, pkt_type, pkt_len), s) \<leftarrow> with_peer d dp_recv_header s;
     if ret \<noteq> 0 then Some (ret, s)
     else if pkt_type = PT_DATA then dp_recv_data d (unat pkt_len) s
     else if pkt_type = PT_LINK_GRAPH then dp_read_pkt_link_graph d (unat pkt_len) False s
     else if pkt_type = PT_JOIN_PART \<or> pkt_type = PT_QUIT then dp_recv_flush d (unat pkt_len) s
     else if pkt_type = PT_PROBE_REQ then with_peer d dp_handle_probe_req s
     else if pkt_type = PT_PROBE_RESP then dp_handle_probe_resp d s
     else dp_recv_flush d (unat pkt_len) s
   }"

end
