(* ===== verification/Peer_Threads.thy ===== *)
theory Peer_Threads
  imports Peer_Packets
begin

text \<open>
  The threads of src/dpeer.c: the three ways a connection starts (a peer named on the command line,
  a peer learnt from link state, a peer that connects to us), each with its clean-up path, and the
  loop of a connected peer.  Each thread is one function of the node; the calls it makes that touch
  shared data hold the lock of that data from beginning to end.
\<close>

section \<open>Calls on the shared data\<close>

definition dp_group_insert :: "dptr \<Rightarrow> node \<Rightarrow> (int \<times> node) option" where
  "dp_group_insert d s = do {
     (ret, g, al) \<leftarrow> dpg_insert (dp_mac s) (n_dpg s) d (allocs (n_rd s));
     Some (ret, s\<lparr>n_dpg := g, n_rd := (n_rd s)\<lparr>allocs := al\<rparr>\<rparr>)
   }"

definition dp_group_remove :: "dptr \<Rightarrow> node \<Rightarrow> (int \<times> node) option" where
  "dp_group_remove d s = do {
     (ret, g) \<leftarrow> dpg_remove (dp_mac s) (n_dpg s) d;
     Some (ret, s\<lparr>n_dpg := g\<rparr>)
   }"

text \<open>\<open>dp->rtt_us = 1000000; rt_dhost_add_link (dp->rd, DP_HOST (dp), dp->rtt_us)\<close>\<close>

definition dp_first_link :: "dptr \<Rightarrow> node \<Rightarrow> (int \<times> node) option" where
  "dp_first_link d s = do {
     dp \<leftarrow> n_peers s d;
     let s = s\<lparr>n_peers := (n_peers s)(d \<mapsto> dp\<lparr>rtt_us := 1000000\<rparr>)\<rparr>;
     let (now, s) = gettimeofday s;
     (ret, rd) \<leftarrow> rt_dhost_add_link now (n_rd s) (IP_Dp d) 1000000;
     Some (ret, s\<lparr>n_rd := rd\<rparr>)
   }"

definition dp_drop_link :: "dptr \<Rightarrow> node \<Rightarrow> (int \<times> node) option" where
  "dp_drop_link d s = do {
     m \<leftarrow> dp_mac s d;
     (ret, rd) \<leftarrow> rt_dhost_remove (n_rd s) m;
     Some (ret, s\<lparr>n_rd := rd\<rparr>)
   }"

section \<open>Connecting\<close>

text \<open>
  What the network answers: \<open>getaddrinfo\<close>'s address and its length, whether there is a socket, and
  the connection if it comes about.
\<close>

record net_answer =
  na_ai :: "(sockaddr_in \<times> nat) option"
  na_sock :: bool
  na_conn :: "conn option"

definition SOCKADDR_IN_SIZE :: nat where "SOCKADDR_IN_SIZE = 16"

definition connect_host :: "net_answer \<Rightarrow> int + conn \<times> sockaddr_in" where
  "connect_host na =
     (case na_ai na of
        None \<Rightarrow> Inl (- 1)
      | Some (addr, addrlen) \<Rightarrow>
          if \<not> na_sock na then Inl (- 2)
          else case na_conn na of
            None \<Rightarrow> Inl (- 3)
          | Some c \<Rightarrow> if addrlen \<noteq> SOCKADDR_IN_SIZE then Inl (- 4) else Inr (c, addr))"

definition connect_inet :: "net_answer \<Rightarrow> int + conn" where
  "connect_inet na =
     (if \<not> na_sock na then Inl (- 1)
      else case na_conn na of None \<Rightarrow> Inl (- 2) | Some c \<Rightarrow> Inr c)"

definition set_con :: "dptr \<Rightarrow> conn \<Rightarrow> node \<Rightarrow> node option" where
  "set_con d c s = do {
     dp \<leftarrow> n_peers s d;
     Some (s\<lparr>n_peers := (n_peers s)(d \<mapsto> dp\<lparr>con_fd := Some c\<rparr>)\<rparr>)
   }"

text \<open>\<open>memset (DP_MAC (dp)->addr, 0xFF, ETH_ALEN)\<close>\<close>

definition junk_mac :: ether_addr where
  "junk_mac = Ether_Addr 255 255 255 255 255 255"

section \<open>Starting a connection\<close>

text \<open>
  The result says whether the thread goes on as \<open>dp_th\<close>.  The labels at the end of each thread are
  the functions \<open>at_fd\<close>, \<open>at_dpg\<close>, \<open>at_rt\<close>: each does its own clean-up and falls through.
\<close>

definition at_fd :: "dptr \<Rightarrow> node \<Rightarrow> (bool \<times> node) option" where
  "at_fd d s = Some (False, dp_cleanup_1 d s)"

definition at_dpg :: "dptr \<Rightarrow> node \<Rightarrow> (bool \<times> node) option" where
  "at_dpg d s = do { (r, s) \<leftarrow> dp_group_remove d s; at_fd d s }"

text \<open>\<open>dp_th_initial\<close>: \<open>cleanup_rt\<close> falls through to \<open>cleanup_dpg\<close>.\<close>

definition dp_th_initial :: "dptr \<Rightarrow> net_answer \<Rightarrow> node \<Rightarrow> (bool \<times> node) option" where
  "dp_th_initial d na s =
     (case connect_host na of
        Inl e \<Rightarrow> at_fd d s
      | Inr (c, addr) \<Rightarrow> do {
          s \<leftarrow> set_con d c (set_dp_host d \<lparr>ip_mac = junk_mac, ip_in = addr\<rparr> s);
          (ret, s) \<leftarrow> dp_send_join d s;
          if ret < 0 then at_fd d s
          else do {
            ((ret, pkt_type, pkt_len), s) \<leftarrow> with_peer d dp_recv_header s;
            if ret \<noteq> 0 \<or> pkt_type \<noteq> PT_LINK_GRAPH then at_fd d s
            else do {
              (ret, s) \<leftarrow> dp_read_pkt_link_graph d (unat pkt_len) True s;
              if ret \<noteq> 0 then at_fd d s
              else do {
                (ret, s) \<leftarrow> dp_group_insert d s;
                if ret \<noteq> 0 then at_fd d s
                else do {
                  (ret, s) \<leftarrow> dp_first_link d s;
                  if ret \<noteq> 0 then at_dpg d s
                  else do {
                    (ret, s) \<leftarrow> dp_send_probe_req d s;
                    if ret \<noteq> 0 then do { (r, s) \<leftarrow> dp_drop_link d s; at_dpg d s }
                    else Some (True, s)
                  }
                }
              }
            }
          }
        })"

text \<open>\<open>dp_th_linkstate\<close>: here \<open>cleanup_dpg\<close> falls through to \<open>cleanup_rt\<close>.\<close>

definition at_rt :: "dptr \<Rightarrow> node \<Rightarrow> (bool \<times> node) option" where
  "at_rt d s = do { (r, s) \<leftarrow> dp_drop_link d s; at_fd d s }"

definition dp_th_linkstate :: "dptr \<Rightarrow> net_answer \<Rightarrow> node \<Rightarrow> (bool \<times> node) option" where
  "dp_th_linkstate d na s =
     (case connect_inet na of
        Inl e \<Rightarrow> at_fd d s
      | Inr c \<Rightarrow> do {
          s \<leftarrow> set_con d c s;
          (ret, s) \<leftarrow> dp_send_join d s;
          if ret < 0 then at_fd d s
          else do {
            ((ret, pkt_type, pkt_len), s) \<leftarrow> with_peer d dp_recv_header s;
            if ret \<noteq> 0 \<or> pkt_type \<noteq> PT_LINK_GRAPH then at_fd d s
            else do {
              (ret, s) \<leftarrow> dp_first_link d s;
              if ret \<noteq> 0 then at_fd d s
              else do {
                (ret, s) \<leftarrow> dp_read_pkt_link_graph d (unat pkt_len) True s;
                if ret \<noteq> 0 then at_rt d s
                else do {
                  (ret, s) \<leftarrow> dp_group_insert d s;
                  if ret \<noteq> 0 then at_rt d s
                  else do {
                    (ret, s) \<leftarrow> dp_send_probe_req d s;
                    if ret \<noteq> 0 then do { (r, s) \<leftarrow> dp_group_remove d s; at_rt d s }
                    else Some (True, s)
                  }
                }
              }
            }
          }
        })"

text \<open>\<open>dp_th_incoming\<close>; the connection and the address were set by \<open>dp_create_incoming\<close>.\<close>

definition dp_th_incoming :: "dptr \<Rightarrow> node \<Rightarrow> (bool \<times> node) option" where
  "dp_th_incoming d s = do {
     h \<leftarrow> dp_host s d;
     let s = set_dp_host d (h\<lparr>ip_mac := junk_mac\<rparr>) s;
     ((ret, pkt_type, pkt_len), s) \<leftarrow> with_peer d dp_recv_header s;
     if ret \<noteq> 0 then at_fd d s
     else if pkt_type \<noteq> PT_JOIN_PART \<or> unat pkt_len \<noteq> PL_JOIN then at_fd d s
     else do {
       (ret, s) \<leftarrow> dp_handle_join d s;
       if ret < 0 then at_fd d s
       else do {
         (ret, s) \<leftarrow> dp_send_peer_linkstate d s;
         if ret \<noteq> 0 then at_dpg d s
         else do {
           (ret, s) \<leftarrow> dp_group_insert d s;
           if ret \<noteq> 0 then at_fd d s
           else do {
             (ret, s) \<leftarrow> dp_first_link d s;
             if ret \<noteq> 0 then at_dpg d s
             else Some (True, s)
           }
         }
       }
     }
   }"

definition dp_create_initial :: "string \<Rightarrow> string \<Rightarrow> node \<Rightarrow> int \<times> node" where
  "dp_create_initial host port s =
     (let (ret, d, s) = dp_create_1 s
      in if ret < 0 then (- 1, s)
      else let (ok, s) = malloc s
      in if \<not> ok then (- 3, dp_cleanup_1 d s)
      else let (ret, s) = dp_spawn_th (Th_Initial d host port) s
      in if ret < 0 then (- 4, dp_cleanup_1 d s) else (0, s))"

text \<open>The members of \<open>remote_host\<close> that the initializer leaves out are zero.\<close>

definition dp_create_incoming :: "conn \<Rightarrow> sockaddr_in \<Rightarrow> node \<Rightarrow> (int \<times> node) option" where
  "dp_create_incoming fd addr s =
     (let (ok, s) = malloc s
      in if \<not> ok then Some (- 1, s)
      else let (ret, d, s) = dp_create_1 s
      in if ret < 0 then Some (- 1, s)
      else do {
        s \<leftarrow> set_con d fd (set_dp_host d \<lparr>ip_mac = Ether_Addr 0 0 0 0 0 0, ip_in = addr\<rparr> s);
        let (ret, s) = dp_spawn_th (Th_Incoming d) s;
        Some (if ret < 0 then (- 2, dp_cleanup_1 d s) else (0, s))
      })"

section \<open>The loop of a connected peer\<close>

definition DP_TIMEOUT_PROBE :: timeval where
  "DP_TIMEOUT_PROBE = \<lparr>tv_sec = 1, tv_usec = 0\<rparr>"

definition DP_TIMEOUT_LINK_MULT :: int where "DP_TIMEOUT_LINK_MULT = 10"

text \<open>What \<open>epoll_wait\<close> reports: an error, nothing in time, data to read, or another event.\<close>

datatype epoll_answer = EP_Error | EP_Timeout | EP_In | EP_Other

record dp_loop =
  wtime :: timeval
  before :: timeval
  after :: timeval
  probe_ct :: int

definition tv_zero :: timeval where "tv_zero = \<lparr>tv_sec = 0, tv_usec = 0\<rparr>"

text \<open>
  The first half of an iteration: the probe and, every tenth time, the link state.  The result says
  whether the loop goes on.
\<close>

definition dp_th_probe :: "dptr \<Rightarrow> dp_loop \<Rightarrow> node \<Rightarrow> (bool \<times> dp_loop \<times> node) option" where
  "dp_th_probe d l s =
     (if \<not> timer_gt (wtime l) tv_zero then do {
        (ret, s) \<leftarrow> dp_send_probe_req d s;
        if ret < 0 then Some (False, l, s)
        else do {
          (l, s) \<leftarrow> (if probe_ct l mod DP_TIMEOUT_LINK_MULT = 0
                     then do { (r, s) \<leftarrow> dpg_send_linkstate s; Some (l\<lparr>probe_ct := 0\<rparr>, s) }
                     else Some (l, s));
          let (now, s) = gettimeofday s;
          Some (True, l\<lparr>probe_ct := probe_ct l + 1, wtime := DP_TIMEOUT_PROBE, before := now\<rparr>, s)
        }
      }
      else Some (True, l\<lparr>before := after l\<rparr>, s))"

text \<open>The second half.  A nonzero result of \<open>dp_recv_packet\<close>, also a positive one, ends the loop.\<close>

definition dp_th_event :: "dptr \<Rightarrow> epoll_answer \<Rightarrow> node \<Rightarrow> (bool \<times> node) option" where
  "dp_th_event d ev s =
     (case ev of
        EP_Error \<Rightarrow> Some (True, s)
      | EP_Timeout \<Rightarrow> Some (True, s)
      | EP_In \<Rightarrow> do { (ret, s) \<leftarrow> dp_recv_packet d s; Some (ret = 0, s) }
      | EP_Other \<Rightarrow> Some (False, s))"

definition dp_th_iter :: "dptr \<Rightarrow> epoll_answer \<Rightarrow> dp_loop \<Rightarrow> node \<Rightarrow> (bool \<times> dp_loop \<times> node) option" where
  "dp_th_iter d ev l s = do {
     (go, l, s) \<leftarrow> dp_th_probe d l s;
     if \<not> go then Some (False, l, s)
     else do {
       (go, s) \<leftarrow> dp_th_event d ev s;
       if \<not> go then Some (False, l, s)
       else do {
         let (now, s) = gettimeofday s;
         let dtime = timersub now (before l);
         Some (True, l\<lparr>after := now, wtime := timersub (wtime l) dtime\<rparr>, s)
       }
     }
   }"

text \<open>The loop over the answers of \<open>epoll_wait\<close>; when they are used up the thread still runs.\<close>

fun dp_th_run :: "dptr \<Rightarrow> epoll_answer list \<Rightarrow> dp_loop \<Rightarrow> node \<Rightarrow> (bool \<times> dp_loop \<times> node) option" where
  "dp_th_run d [] l s = Some (True, l, s)"
| "dp_th_run d (ev # evs) l s = do {
     (go, l, s) \<leftarrow> dp_th_iter d ev l s;
     if go then dp_th_run d evs l s else Some (False, l, s)
   }"

text \<open>\<open>cleanup_1\<close>: out of the group, out of the table, free.  The connection is not closed.\<close>

definition dp_th_cleanup :: "dptr \<Rightarrow> node \<Rightarrow> node option" where
  "dp_th_cleanup d s = do {
     (r, s) \<leftarrow> dp_group_remove d s;
     (r, s) \<leftarrow> dp_drop_link d s;
     Some (dp_cleanup_1 d s)
   }"

text \<open>\<open>ep\<close>: whether \<open>epoll_create\<close> and \<open>epoll_ctl\<close> succeed.\<close>

definition dp_th :: "dptr \<Rightarrow> bool \<Rightarrow> epoll_answer list \<Rightarrow> node \<Rightarrow> (bool \<times> node) option" where
  "dp_th d ep evs s =
     (if \<not> ep then do { s \<leftarrow> dp_th_cleanup d s; Some (False, s) }
      else do {
        (go, l, s) \<leftarrow> dp_th_run d evs \<lparr>wtime = tv_zero, before = tv_zero, after = tv_zero, probe_ct = 0\<rparr> s;
        if go then Some (True, s) else do { s \<leftarrow> dp_th_cleanup d s; Some (False, s) }
      })"

end
