(* ===== verification/Vnet.thy ===== *)
theory Vnet
  imports Peer_Packets
begin

text \<open>
  The virtual network interface, src/vnet.h and src/vnet.c: opening the tap device or falling back
  on a made-up address, and the thread that passes on the frames of the local host.  The system
  calls are arguments.
\<close>

section \<open>Opening the interface\<close>

text \<open>\<open>addr[i] = random () % 255\<close>, the first one with the multicast bit cleared\<close>

definition vnet_init_noperm :: "(nat \<Rightarrow> nat) \<Rightarrow> vnet \<Rightarrow> int \<times> vnet" where
  "vnet_init_noperm random nd =
     (let byte = (\<lambda>i. of_nat (random i mod 255) :: u8)
      in (0, nd\<lparr>v_fd := - 1,
           v_mac := Ether_Addr (and (byte 0) 0xFE) (byte 1) (byte 2) (byte 3) (byte 4) (byte 5)\<rparr>))"

text \<open>
  \<open>fd\<close> is the result of \<open>open\<close>, \<open>set_if\<close> that of \<open>TUNSETIFF\<close> for the name, \<open>hw\<close> the address that
  \<open>SIOCGIFHWADDR\<close> gives, if it does.
\<close>

definition vnet_init :: "string \<Rightarrow> int \<Rightarrow> int \<Rightarrow> ether_addr option \<Rightarrow> (nat \<Rightarrow> nat) \<Rightarrow> vnet \<Rightarrow> int \<times> vnet" where
  "vnet_init ifname fd set_if hw random nd =
     (let nd = nd\<lparr>v_ifname := ifname, v_wlock := False\<rparr>
      in if fd < 0 then vnet_init_noperm random nd
      else if set_if < 0 then vnet_init_noperm random nd
      else case hw of
        None \<Rightarrow> vnet_init_noperm random nd
      | Some mac \<Rightarrow> (0, nd\<lparr>v_mac := mac, v_fd := fd\<rparr>))"

definition vnet_get_mac :: "vnet \<Rightarrow> ether_addr" where
  "vnet_get_mac vn = v_mac vn"

text \<open>\<open>sock\<close> is the result of \<open>socket\<close>, \<open>mtu_of\<close> what \<open>SIOCGIFMTU\<close> gives for a name.\<close>

definition vnet_get_mtu :: "int \<Rightarrow> (string \<Rightarrow> int option) \<Rightarrow> vnet \<Rightarrow> int" where
  "vnet_get_mtu sock mtu_of nd =
     (if sock < 0 then - 1 else case mtu_of (v_ifname nd) of None \<Rightarrow> - 2 | Some mtu \<Rightarrow> mtu)"

section \<open>Reading and writing frames\<close>

text \<open>\<open>w\<close> is the result of \<open>write\<close>.\<close>

definition vnet_send :: "int \<Rightarrow> vnet \<Rightarrow> u8 list \<Rightarrow> (int \<times> vnet) option" where
  "vnet_send w nd pkt =
     (if v_fd nd = - 1 then Some (0, nd)
      else if v_wlock nd then None
      else let nd = nd\<lparr>v_wlock := True\<rparr>
      in if w \<noteq> int (length pkt) then Some (- 1, nd\<lparr>v_wlock := False\<rparr>)
      else Some (0, nd\<lparr>v_wlock := False\<rparr>))"

definition DATA_MAX_LEN :: nat where "DATA_MAX_LEN = 2 ^ 16 - 1"

text \<open>
  \<open>vnet_recv\<close>: the frame that \<open>read\<close> gives, or its failure, goes to the front of the buffer; what was
  there before stays behind it.
\<close>

definition vnet_recv :: "u8 list option \<Rightarrow> u8 list \<Rightarrow> int \<times> u8 list \<times> nat" where
  "vnet_recv frame buf =
     (case frame of
        None \<Rightarrow> (- 1, buf, length buf)
      | Some f \<Rightarrow> let f = take (length buf) f in (0, f @ drop (length f) buf, length f))"

text \<open>One turn of \<open>vnet_reader_th\<close>; the first component says whether the thread goes on.\<close>

definition vnet_reader_iter :: "u8 list option \<Rightarrow> u8 list \<Rightarrow> node \<Rightarrow> (bool \<times> u8 list \<times> node) option" where
  "vnet_reader_iter frame data s =
     (let (r, data, pkt_len) = vnet_recv frame data
      in if r < 0 then Some (False, data, s)
      else do {
        (r, s) \<leftarrow> forward_frame (vnet_get_mac (n_vnet s)) (frame_dst data) (take pkt_len data) s;
        Some (True, data, s)
      })"

text \<open>The loop over what \<open>read\<close> answers; the thread still runs when the answers are used up.\<close>

fun vnet_reader_run :: "u8 list option list \<Rightarrow> u8 list \<Rightarrow> node \<Rightarrow> (bool \<times> node) option" where
  "vnet_reader_run [] data s = Some (True, s)"
| "vnet_reader_run (frame # frames) data s = do {
     (go, data, s) \<leftarrow> vnet_reader_iter frame data s;
     if go then vnet_reader_run frames data s else Some (False, s)
   }"

text \<open>\<open>data\<close> is the fresh buffer; where there is none, \<open>read\<close> fails and the thread ends.\<close>

definition vnet_reader_th :: "u8 list option \<Rightarrow> u8 list option list \<Rightarrow> node \<Rightarrow> (bool \<times> node) option" where
  "vnet_reader_th data frames s =
     (case data of None \<Rightarrow> Some (False, s) | Some buf \<Rightarrow> vnet_reader_run frames buf s)"

text \<open>
  \<open>vnet_spawn_listener\<close>; \<open>Inl\<close> is the exit status of a process that ended.  Only a failed
  \<open>pthread_create\<close> ends it.
\<close>

definition vnet_spawn_listener :: "node \<Rightarrow> int + int \<times> node" where
  "vnet_spawn_listener s =
     (if v_fd (n_vnet s) = - 1 then Inr (0, s)
      else let (ok, s) = malloc s
      in if \<not> ok then Inr (- 1, s)
      else let (ret, s) = dp_spawn_th Th_Vnet s
      in if ret \<noteq> 0 then Inl 1 else Inr (0, s))"

section \<open>Facts\<close>

text \<open>The address that is made up is never a multicast address.\<close>

lemma made_up_mac_unicast: "\<not> ether_addr_is_mcast (v_mac (snd (vnet_init_noperm random nd)))"
proof -
  have "\<not> bit (and x 0xFE :: u8) 0" for x by (simp add: bit_and_iff)
  then show ?thesis by (simp add: vnet_init_noperm_def Let_def bit_0)
qed

end
