(* ===== verification/Main_Prog.thy ===== *)
theory Main_Prog
  imports Peer_Threads Vnet
begin

text \<open>
  The main program, src/sock.c: the options, the order in which the parts are set up, the first
  connection and the listener.  \<open>Inl\<close> is the exit status of a process that has ended; \<open>getopt\<close>,
  the sockets and the name service are arguments.
\<close>

section \<open>Options\<close>

definition DEFAULT_PORT_STR :: string where "DEFAULT_PORT_STR = ''9004''"

record options =
  tap_if :: string
  ex_host :: "string option"
  ex_port :: string
  peer_host :: "string option"
  peer_port :: string
  listen_port :: string
  enc_key :: "string option"
  debug :: nat

definition default_options :: options where
  "default_options = \<lparr>tap_if = ''tap5'', ex_host = None, ex_port = DEFAULT_PORT_STR,
     peer_host = None, peer_port = DEFAULT_PORT_STR, listen_port = DEFAULT_PORT_STR,
     enc_key = None, debug = 0\<rparr>"

text \<open>One option as \<open>getopt\<close> reports it, with its argument; \<open>None\<close> is the call of \<open>usage\<close>.\<close>

definition main_option :: "char \<times> string \<Rightarrow> options \<Rightarrow> options option" where
  "main_option oa os =
     (let (opt, optarg) = oa
      in if opt = CHR ''v'' then Some (os\<lparr>debug := debug os + 1\<rparr>)
      else if opt = CHR ''i'' then Some (os\<lparr>tap_if := optarg\<rparr>)
      else if opt = CHR ''e'' then Some (os\<lparr>ex_host := Some optarg\<rparr>)
      else if opt = CHR ''E'' then Some (os\<lparr>ex_port := optarg\<rparr>)
      else if opt = CHR ''r'' then Some (os\<lparr>peer_host := Some optarg\<rparr>)
      else if opt = CHR ''R'' then Some (os\<lparr>peer_port := optarg\<rparr>)
      else if opt = CHR ''l'' then
        (let os = os\<lparr>listen_port := optarg\<rparr>;
             os = (if ex_port os = DEFAULT_PORT_STR then os\<lparr>ex_port := optarg\<rparr> else os)
         in Some (if peer_port os = DEFAULT_PORT_STR then os\<lparr>peer_port := optarg\<rparr> else os))
      else if opt = CHR ''Q'' then Some (os\<lparr>enc_key := Some optarg\<rparr>)
      else None)"

definition main_options :: "(char \<times> string) list \<Rightarrow> int + options" where
  "main_options args =
     (case foldM main_option args default_options of
        None \<Rightarrow> Inl 1
      | Some os \<Rightarrow> if ex_host os = None then Inl 1 else Inr os)"

section \<open>Setting up\<close>

text \<open>What the system answers to the calls of \<open>vnet_init\<close> and \<open>dpg_init\<close>.\<close>

record setup_answer =
  sa_tun :: int
  sa_setif :: int
  sa_hw :: "ether_addr option"
  sa_random :: "nat \<Rightarrow> nat"
  sa_resolve :: "sockaddr_in option"

definition set_allocs :: "allocs \<Rightarrow> node \<Rightarrow> node" where
  "set_allocs al s = s\<lparr>n_rd := (n_rd s)\<lparr>allocs := al\<rparr>\<rparr>"

text \<open>\<open>dpg_init\<close> and \<open>struct ipv4_host ip_host\<close> of \<open>main\<close>\<close>

definition setup_dpg :: "setup_answer \<Rightarrow> node \<Rightarrow> int + node" where
  "setup_dpg sa s =
     (let (ret, g, al) = dpg_init (sa_resolve sa) (n_dpg s) (allocs (n_rd s));
          s = set_allocs al (s\<lparr>n_dpg := g\<rparr>);
          ip_host = \<lparr>ip_mac = vnet_get_mac (n_vnet s), ip_in = l_addr g\<rparr>
      in if ret < 0 then Inl 1
      else Inr (s\<lparr>n_rd := (n_rd s)\<lparr>ipheap := (ipheap (n_rd s))(IP_Main \<mapsto> ip_host)\<rparr>\<rparr>))"

definition setup_routing :: "node \<Rightarrow> (int + node) option" where
  "setup_routing s =
     (let (ret, rd) = rt_init (n_rd s)
      in if ret < 0 then Some (Inl 1)
      else do {
        (ret, rd) \<leftarrow> rt_lhost_add rd IP_Main;
        Some (if ret < 0 then Inl 1 else Inr (s\<lparr>n_rd := rd\<rparr>))
      })"

definition setup_pcon :: "node \<Rightarrow> int + node" where
  "setup_pcon s =
     (let (ret, pc, al) = pcon_init (n_pc s) (allocs (n_rd s))
      in if ret < 0 then Inl 1 else Inr (set_allocs al (s\<lparr>n_pc := pc\<rparr>)))"

definition setup_threads :: "options \<Rightarrow> node \<Rightarrow> int + node" where
  "setup_threads os s =
     (case vnet_spawn_listener s of
        Inl e \<Rightarrow> Inl e
      | Inr (ret, s) \<Rightarrow>
          if ret < 0 then Inl 1
          else case peer_host os of
            None \<Rightarrow> Inr s
          | Some host \<Rightarrow> Inr (snd (dp_create_initial host (peer_port os) s)))"

text \<open>The body of \<open>main\<close> between the options and the listener.\<close>

definition main_setup :: "options \<Rightarrow> setup_answer \<Rightarrow> node \<Rightarrow> (int + node) option" where
  "main_setup os sa s =
     (let (ret, nd) = vnet_init (tap_if os) (sa_tun sa) (sa_setif sa) (sa_hw sa) (sa_random sa) (n_vnet s)
      in case setup_dpg sa (s\<lparr>n_vnet := nd\<rparr>) of
        Inl e \<Rightarrow> Some (Inl e)
      | Inr s \<Rightarrow> do {
          r \<leftarrow> setup_routing s;
          case r of
            Inl e \<Rightarrow> Some (Inl e)
          | Inr s \<Rightarrow>
              (case setup_pcon s of
                 Inl e \<Rightarrow> Some (Inl e)
               | Inr s \<Rightarrow> Some (setup_threads os s))
        })"

section \<open>The listener\<close>

text \<open>\<open>peer_listener_bind\<close>: whether the address, the socket, \<open>bind\<close> and \<open>listen\<close> come about.\<close>

definition peer_listener_bind :: "bool \<Rightarrow> bool \<Rightarrow> bool \<Rightarrow> bool \<Rightarrow> int" where
  "peer_listener_bind ai sock bound listening =
     (if \<not> ai then - 1 else if \<not> sock then - 2 else if \<not> bound then - 3
      else if \<not> listening then - 4 else 0)"

text \<open>The loop over what \<open>accept\<close> gives; a failure of it, or of the new peer, ends the process.\<close>

fun peer_listener :: "(conn \<times> sockaddr_in) option list \<Rightarrow> node \<Rightarrow> (int + node) option" where
  "peer_listener [] s = Some (Inr s)"
| "peer_listener (None # as) s = Some (Inl 1)"
| "peer_listener (Some (fd, addr) # as) s = do {
     (ret, s) \<leftarrow> dp_create_incoming fd addr s;
     if ret \<noteq> 0 then Some (Inl 1) else peer_listener as s
   }"

text \<open>\<open>main\<close>; \<open>ai\<close>, \<open>sock\<close>, \<open>bound\<close>, \<open>listening\<close> are the answers \<open>peer_listener_bind\<close> gets.\<close>

definition main ::
  "(char \<times> string) list \<Rightarrow> setup_answer \<Rightarrow> bool \<Rightarrow> bool \<Rightarrow> bool \<Rightarrow> bool \<Rightarrow>
    (conn \<times> sockaddr_in) option list \<Rightarrow> node \<Rightarrow> (int + node) option" where
  "main args sa ai sock bound listening accepts s =
     (case main_options args of
        Inl e \<Rightarrow> Some (Inl e)
      | Inr os \<Rightarrow> do {
          r \<leftarrow> main_setup os sa s;
          case r of
            Inl e \<Rightarrow> Some (Inl e)
          | Inr s \<Rightarrow>
              if peer_listener_bind ai sock bound listening \<noteq> 0 then Some (Inl 1)
              else peer_listener accepts s
        })"

end
