(* ===== verification/Routing_Ptrs.thy ===== *)
theory Routing_Ptrs
  imports Routing_Edges
begin

text \<open>
  A host of the table that is a peer uses the address inside the peer's own structure (src/dpeer.h),
  which the peer's thread frees.  Which hosts do so, and that each of them is linked from the local
  host, so that \<open>rt_dhost_remove\<close> finds it.
\<close>

section \<open>Which peers the table points into\<close>

text \<open>Hosts, in the table or not, with the peer whose address they use.\<close>

definition heap_ptrs :: "routing \<Rightarrow> (hptr \<times> nat) set" where
  "heap_ptrs s = {(p, d). \<exists>h. hheap s p = Some h \<and> h_host h = IP_Dp d}"

definition dps_of :: "ip_ptr \<Rightarrow> (hptr \<times> nat) set" where
  "dps_of a = {(p, d). a = IP_Dp d}"

lemma dps_of_simps [simp]: "dps_of (IP_Dp d) = UNIV \<times> {d}" "dps_of (IP_Heap a) = {}" "dps_of IP_Frame = {}" "dps_of IP_Main = {}"
  by (auto simp: dps_of_def)

named_theorems ptrs "steps and the pointers into peers"

lemma heap_ptrs_frame [simp]:
  "heap_ptrs (s\<lparr>hosts := b\<rparr>) = heap_ptrs s" "heap_ptrs (s\<lparr>brk := c\<rparr>) = heap_ptrs s"
  "heap_ptrs (s\<lparr>allocs := al\<rparr>) = heap_ptrs s" "heap_ptrs (s\<lparr>mats := e\<rparr>) = heap_ptrs s"
  "heap_ptrs (s\<lparr>m_ct := f\<rparr>) = heap_ptrs s" "heap_ptrs (s\<lparr>edges := g\<rparr>) = heap_ptrs s"
  "heap_ptrs (s\<lparr>lock := h\<rparr>) = heap_ptrs s" "heap_ptrs (s\<lparr>local_host := i\<rparr>) = heap_ptrs s"
  "heap_ptrs (s\<lparr>ipheap := j\<rparr>) = heap_ptrs s"
  by (simp_all add: heap_ptrs_def)

lemma heap_ptrs_set: "heap_ptrs (set_host p h s) \<subseteq> heap_ptrs s \<union> dps_of (h_host h)"
  by (auto simp: heap_ptrs_def set_host_def dps_of_def split: if_splits)

lemma heap_ptrs_same: "hheap s p = Some g \<Longrightarrow> h_host h = h_host g \<Longrightarrow> heap_ptrs (set_host p h s) \<subseteq> heap_ptrs s"
  by (auto simp: heap_ptrs_def set_host_def split: if_splits)

lemma heap_ptrs_drop: "heap_ptrs (s\<lparr>hheap := (hheap s)(p := None)\<rparr>) \<subseteq> heap_ptrs s"
  by (auto simp: heap_ptrs_def split: if_splits)

lemma host_alloc_ptrs [ptrs]:
  "host_alloc s a ty = Some (r, p, s') \<Longrightarrow> heap_ptrs s' \<subseteq> heap_ptrs s \<union> (if ty = HT_NORMAL then {} else dps_of a)"
  by (cases ty)
    (auto simp: host_alloc_def Let_def bind_Some_iff split: prod.splits if_splits dest!: subsetD[OF heap_ptrs_set])

lemma host_insert_unchecked_ptrs [ptrs]: "host_insert_unchecked s p = Some (r, s') \<Longrightarrow> heap_ptrs s' \<subseteq> heap_ptrs s"
  by (auto simp: host_insert_unchecked_def Let_def bind_Some_iff split: prod.splits if_splits)

lemma host_add_ptrs [ptrs]:
  assumes "host_add s a ty = Some (r, p, s')"
  shows "heap_ptrs s' \<subseteq> heap_ptrs s \<union> (if ty = HT_NORMAL then {} else dps_of a)"
proof -
  from assms obtain r1 q s1 where al: "host_alloc s a ty = Some (r1, q, s1)" and
    "s' = s1 \<or> (\<exists>r2 s2. host_insert_unchecked s1 (the q) = Some (r2, s2) \<and>
       (s' = s2 \<or> s' = s2\<lparr>hheap := (hheap s2)(the q := None)\<rparr>))" if "s' \<noteq> s"
    by (auto simp: host_add_def bind_Some_iff split: if_splits option.splits)
  with host_alloc_ptrs[OF al] show ?thesis
    using host_insert_unchecked_ptrs heap_ptrs_drop by (cases "s' = s") blast+
qed

lemma link_add_ptrs [ptrs]:
  assumes "link_add s a b c d = Some (r, s')"
  shows "heap_ptrs s' \<subseteq> heap_ptrs s"
proof -
  from assms obtain h where h: "hheap s a = Some h" by (auto simp: link_add_def bind_Some_iff)
  obtain fl ls al where "DA_ADD_TO_END (h_links h) \<lparr>l_dst = b, l_rtt_us = c, l_ts_ms = d\<rparr> (allocs s)
      = (fl, ls, al)" by (rule prod_cases3)
  with assms h have "s' = s\<lparr>allocs := al\<rparr> \<or> (\<exists>k m. s' = set_host a (h\<lparr>h_links := k, h_l_max_ts_ms := m\<rparr>) (s\<lparr>allocs := al\<rparr>))"
    by (cases fl) (auto simp: link_add_def bind_Some_iff Let_def)
  moreover have "heap_ptrs (set_host a (h\<lparr>h_links := k, h_l_max_ts_ms := m\<rparr>) (s\<lparr>allocs := al\<rparr>)) \<subseteq> heap_ptrs s" for k m
    using heap_ptrs_same[of "s\<lparr>allocs := al\<rparr>" a h "h\<lparr>h_links := k, h_l_max_ts_ms := m\<rparr>"] h by simp
  ultimately show ?thesis by auto
qed

lemma ihost_to_dhost_ptrs [ptrs]: "ihost_to_dhost s p a = Some s' \<Longrightarrow> heap_ptrs s' \<subseteq> heap_ptrs s \<union> dps_of a"
  by (auto simp: ihost_to_dhost_def bind_Some_iff split: if_splits ip_ptr.splits dest!: subsetD[OF heap_ptrs_set])

lemma heap_ptrs_links: "hheap s p = Some h \<Longrightarrow> heap_ptrs (set_host p (h\<lparr>h_links := k\<rparr>) s) \<subseteq> heap_ptrs s"
  by (erule heap_ptrs_same) simp

lemma link_remove_ptrs [ptrs]:
  assumes "link_remove s p j = Some s'"
  shows "heap_ptrs s' \<subseteq> heap_ptrs s"
proof -
  from assms obtain h k where "hheap s p = Some h" "s' = set_host p (h\<lparr>h_links := k\<rparr>) s"
    by (auto simp: link_remove_def bind_Some_iff)
  then show ?thesis using heap_ptrs_links by simp
qed

lemma refresh_link_ptrs [ptrs]:
  assumes "refresh_link ts s p j r = Some s'"
  shows "heap_ptrs s' \<subseteq> heap_ptrs s"
proof -
  from assms obtain h k where "hheap s p = Some h" "s' = set_host p (h\<lparr>h_links := k\<rparr>) s"
    by (auto simp: refresh_link_def bind_Some_iff Let_def)
  then show ?thesis using heap_ptrs_links by simp
qed

lemma free_host_ptrs [ptrs]: "free_host s p = Some s' \<Longrightarrow> heap_ptrs s' \<subseteq> heap_ptrs s"
proof -
  assume "free_host s p = Some s'"
  then obtain a where
    "s' = s\<lparr>ipheap := (ipheap s)(IP_Heap a := None), hheap := (hheap s)(p := None)\<rparr>"
    unfolding free_host_def bind_Some_iff by (elim exE conjE) (simp split: ip_ptr.split_asm, auto simp: bind_Some_iff)
  then show ?thesis using heap_ptrs_drop[of "s\<lparr>ipheap := (ipheap s)(IP_Heap a := None)\<rparr>" p] by simp
qed

lemma new_dhost_link_ptrs [ptrs]:
  "new_dhost_link ts s sh d m rtt = Some (r, s') \<Longrightarrow> heap_ptrs s' \<subseteq> heap_ptrs s \<union> dps_of d"
  by (auto simp: new_dhost_link_def bind_Some_iff split: if_splits option.splits dest!: ptrs)

lemma edge_link_ptrs [ptrs]: "edge_link s p d rtt ts = Some (r, s') \<Longrightarrow> heap_ptrs s' \<subseteq> heap_ptrs s"
  by (auto simp: edge_link_def bind_Some_iff split: option.splits dest!: ptrs)

lemma edge_source_ptrs [ptrs]: "edge_source s src ts = Some (r, s') \<Longrightarrow> heap_ptrs s' \<subseteq> heap_ptrs s"
  by (auto simp: edge_source_def bind_Some_iff split: option.splits if_splits
      dest!: ptrs dest: subsetD[OF heap_ptrs_links])

lemma update_edges_loop_ptrs [ptrs]:
  "update_edges_loop es ip p c s = Some (r, s') \<Longrightarrow> heap_ptrs s' \<subseteq> heap_ptrs s"
proof (induction es arbitrary: ip p c s)
  case (Cons e es)
  from Cons.prems show ?case
    by (cases rule: update_edges_loop_Cons) (auto dest!: Cons.IH ptrs)
qed simp

lemma detach_dhost_ptrs [ptrs]: "detach_dhost s sh j h = Some (r, s') \<Longrightarrow> heap_ptrs s' \<subseteq> heap_ptrs s"
  by (auto simp: detach_dhost_def Let_def bind_Some_iff split: if_splits prod.splits
      dest!: ptrs subsetD[OF heap_ptrs_set])

lemma trim_links_ptrs [ptrs]: "trim_links h i s = Some s' \<Longrightarrow> heap_ptrs s' \<subseteq> heap_ptrs s"
  by (auto simp: trim_links_def bind_Some_iff split: option.splits dest!: ptrs)

lemma foldM_ptrs:
  assumes "foldM f xs s = Some t" and "\<And>x s s'. f x s = Some s' \<Longrightarrow> heap_ptrs s' \<subseteq> heap_ptrs s"
  shows "heap_ptrs t \<subseteq> heap_ptrs s"
  using assms(1)
proof (rule foldM_invariant[where P = "\<lambda>t. heap_ptrs t \<subseteq> heap_ptrs s"])
  fix x u u' assume "heap_ptrs u \<subseteq> heap_ptrs s" "f x u = Some u'"
  with assms(2)[of x u u'] show "heap_ptrs u' \<subseteq> heap_ptrs s" by blast
qed simp

lemma trim_host_ptrs [ptrs]: "trim_host s i = Some s' \<Longrightarrow> heap_ptrs s' \<subseteq> heap_ptrs s"
  by (auto simp: trim_host_def Let_def bind_Some_iff host_remove_def split: if_splits
      dest!: free_host_ptrs foldM_ptrs[OF _ trim_links_ptrs]; blast)

lemma trim_step_ptrs [ptrs]: "trim_step a i s = Some s' \<Longrightarrow> heap_ptrs s' \<subseteq> heap_ptrs s"
  by (auto simp: trim_step_def bind_Some_iff split: if_splits dest!: ptrs)

lemma trim_disjoint_hosts_ptrs [ptrs]: "trim_disjoint_hosts s = Some (r, s') \<Longrightarrow> heap_ptrs s' \<subseteq> heap_ptrs s"
  by (auto simp: trim_disjoint_hosts_def bind_Some_iff split: if_splits dest!: foldM_ptrs[OF _ trim_step_ptrs])

lemma compute_paths_ptrs [ptrs]: "compute_paths s = Some (r, s') \<Longrightarrow> heap_ptrs s' = heap_ptrs s"
  by (auto simp: compute_paths_def Let_def bind_Some_iff split_beta split: if_splits)

lemma export_link_hheap: "export_link i src x (r, s) = Some (r', s') \<Longrightarrow> hheap s' = hheap s"
  by (auto simp: export_link_def Let_def bind_Some_iff split_beta split: if_splits)

lemma export_host_hheap: "export_host i (r, s) = Some (r', s') \<Longrightarrow> hheap s' = hheap s"
  by (auto simp: export_host_def bind_Some_iff split: if_splits
      dest!: foldM_invariant[where P = "\<lambda>rt. hheap (snd rt) = hheap s"] dest: export_link_hheap)

lemma update_exported_edges_ptrs [ptrs]:
  assumes "update_exported_edges s = Some (r, s')"
  shows "heap_ptrs s' = heap_ptrs s"
proof -
  have "hheap s' = hheap s" using assms unfolding update_exported_edges_def
    by (drule_tac foldM_invariant[where P = "\<lambda>rt. hheap (snd rt) = hheap s"]) (auto dest: export_host_hheap)
  then show ?thesis by (simp add: heap_ptrs_def)
qed

lemma update_cache_ptrs [ptrs]: "update_cache s = Some (r, s') \<Longrightarrow> heap_ptrs s' \<subseteq> heap_ptrs s"
  by (auto simp: update_cache_def bind_Some_iff split: if_splits dest!: ptrs; blast)

lemma unlock_ret_ptrs [ptrs]: "unlock_ret r s = Some (r', s') \<Longrightarrow> heap_ptrs s' = heap_ptrs s"
  by (auto simp: unlock_ret_def unlock_def bind_Some_iff split: rwlock.splits if_splits)

lemma wrlock_ptrs [ptrs]: "wrlock s = Some s' \<Longrightarrow> heap_ptrs s' = heap_ptrs s"
  by (auto simp: wrlock_Some)

lemma rt_dhost_add_link_ptrs:
  "rt_dhost_add_link now s d rtt = Some (r, s') \<Longrightarrow> heap_ptrs s' \<subseteq> heap_ptrs s \<union> dps_of d"
  by (auto simp: rt_dhost_add_link_def Let_def bind_Some_iff split: option.splits if_splits dest!: ptrs; blast)

lemma rt_update_edges_ptrs: "rt_update_edges s es = Some (r, s') \<Longrightarrow> heap_ptrs s' \<subseteq> heap_ptrs s"
  by (auto simp: rt_update_edges_def bind_Some_iff split: if_splits dest!: ptrs; blast)

lemma rt_dhost_remove_ptrs: "rt_dhost_remove s m = Some (r, s') \<Longrightarrow> heap_ptrs s' \<subseteq> heap_ptrs s"
  by (auto simp: rt_dhost_remove_def Let_def bind_Some_iff split: option.splits if_splits dest!: ptrs; blast)

section \<open>The peers of the table are anchored\<close>

lemma heap_ptrsI: "hheap s p = Some h \<Longrightarrow> h_host h = IP_Dp d \<Longrightarrow> (p, d) \<in> heap_ptrs s"
  by (simp add: heap_ptrs_def)

lemma anchored_ptrs:
  "anchored s \<longleftrightarrow> (\<forall>p d lp f. (p, d) \<in> heap_ptrs s \<longrightarrow> local_host s = Some lp \<longrightarrow> hheap s lp = Some f \<longrightarrow>
     p \<in> l_dst ` set (links_of f))"
  by (auto simp: anchored_def heap_ptrs_def)

lemma anchored_fewer:
  assumes "anchored s" and "heap_ptrs t \<subseteq> heap_ptrs s" and "local_host t = local_host s"
    and "\<And>lp. local_host s = Some lp \<Longrightarrow> hheap t lp = hheap s lp"
  shows "anchored t"
  using assms unfolding anchored_ptrs by (metis subsetD)

text \<open>The last lines of every writer.\<close>

lemma update_cache_anchored:
  assumes "rt_wf s" and "da_wf (edges s)" and "update_cache s = Some (0, s')" and "anchored s"
  shows "anchored s'"
  using update_cache_ok(6)[OF assms(1-3)] update_cache_ptrs[OF assms(3)]
  by (intro anchored_fewer[OF assms(4)]) (auto simp: keeps_direct_def)

text \<open>A peer whose address the local host has no link to is not used by any host.\<close>

lemma anchored_unlinked:
  assumes wf: "rt_wf s" and an: "anchored s" and no: "\<And>rtt ts. \<not> local_link s m rtt ts"
    and d: "ipheap s (IP_Dp d) = Some ip" "ip_mac ip = m"
  shows "(p, d) \<notin> heap_ptrs s"
proof
  assume "(p, d) \<in> heap_ptrs s"
  then obtain h where h: "hheap s p = Some h" "h_host h = IP_Dp d" by (auto simp: heap_ptrs_def)
  obtain q f where q: "local_host s = Some q" "hheap s q = Some f" by (rule rt_wf_localE[OF wf])
  with an h obtain l where l: "l \<in> set (links_of f)" "l_dst l = p" by (fastforce simp: anchored_def)
  with h d have "link_mac s l = Some m" by (simp add: link_mac_def host_mac_def)
  with no[of "l_rtt_us l" "l_ts_ms l"] q l(1) show False by (auto simp: local_link_def)
qed

end
