(* ===== verification/Routing_Frame.thy ===== *)
theory Routing_Frame
  imports Routing_Forward Routing_Ptrs
begin

text \<open>
  What the operations of src/routing.c leave alone, for the parts of the program that share memory
  with the routing table: the \<open>remote_host\<close> of each peer is read but never written or freed, and
  on a machine with memory to spare no operation fails for want of it.
\<close>

section \<open>The blocks inside the peers\<close>

definition dp_blocks :: "routing \<Rightarrow> nat \<Rightarrow> ipv4_host option" where
  "dp_blocks s d = ipheap s (IP_Dp d)"

named_theorems dp_kept "steps that do not touch the blocks inside the peers"

lemma dp_blocks_frame [simp]:
  "dp_blocks (s\<lparr>hheap := a\<rparr>) = dp_blocks s" "dp_blocks (s\<lparr>hosts := b\<rparr>) = dp_blocks s"
  "dp_blocks (s\<lparr>brk := c\<rparr>) = dp_blocks s" "dp_blocks (s\<lparr>allocs := al\<rparr>) = dp_blocks s"
  "dp_blocks (s\<lparr>mats := e\<rparr>) = dp_blocks s" "dp_blocks (s\<lparr>m_ct := f\<rparr>) = dp_blocks s"
  "dp_blocks (s\<lparr>edges := g\<rparr>) = dp_blocks s" "dp_blocks (s\<lparr>lock := h\<rparr>) = dp_blocks s"
  "dp_blocks (s\<lparr>local_host := i\<rparr>) = dp_blocks s" "dp_blocks (set_host p x s) = dp_blocks s"
  "dp_blocks (s\<lparr>ipheap := (ipheap t)(IP_Heap n := v)\<rparr>) = dp_blocks t"
  "dp_blocks (s\<lparr>ipheap := (ipheap t)(IP_Frame := v)\<rparr>) = dp_blocks t"
  by (simp_all add: fun_eq_iff dp_blocks_def set_host_def)

lemma host_alloc_dp [dp_kept]: "host_alloc s a ty = Some (r, p, s') \<Longrightarrow> dp_blocks s' = dp_blocks s"
  by (auto simp: host_alloc_def Let_def bind_Some_iff split: prod.splits if_splits)

lemma host_insert_unchecked_dp [dp_kept]:
  "host_insert_unchecked s p = Some (r, s') \<Longrightarrow> dp_blocks s' = dp_blocks s"
  by (auto simp: host_insert_unchecked_def Let_def bind_Some_iff split: prod.splits if_splits)

lemma host_add_dp [dp_kept]: "host_add s a ty = Some (r, p, s') \<Longrightarrow> dp_blocks s' = dp_blocks s"
  by (auto simp: host_add_def bind_Some_iff split: if_splits option.splits dest!: dp_kept)

lemma link_add_dp [dp_kept]:
  assumes "link_add s a b c d = Some (r, s')"
  shows "dp_blocks s' = dp_blocks s"
proof -
  from assms obtain h where h: "hheap s a = Some h" by (auto simp: link_add_def bind_Some_iff)
  obtain fl ls al where "DA_ADD_TO_END (h_links h) \<lparr>l_dst = b, l_rtt_us = c, l_ts_ms = d\<rparr> (allocs s)
      = (fl, ls, al)" by (rule prod_cases3)
  with assms h show ?thesis by (cases fl) (auto simp: link_add_def bind_Some_iff)
qed

lemma ihost_to_dhost_dp [dp_kept]: "ihost_to_dhost s p a = Some s' \<Longrightarrow> dp_blocks s' = dp_blocks s"
  by (auto simp: ihost_to_dhost_def bind_Some_iff split: if_splits ip_ptr.splits)

lemma link_remove_dp [dp_kept]: "link_remove s p j = Some s' \<Longrightarrow> dp_blocks s' = dp_blocks s"
  by (auto simp: link_remove_def bind_Some_iff)

lemma free_host_dp [dp_kept]: "free_host s p = Some s' \<Longrightarrow> dp_blocks s' = dp_blocks s"
proof -
  assume "free_host s p = Some s'"
  then obtain a where
    "s' = s\<lparr>ipheap := (ipheap s)(IP_Heap a := None), hheap := (hheap s)(p := None)\<rparr>"
    unfolding free_host_def bind_Some_iff by (elim exE conjE) (simp split: ip_ptr.split_asm, auto simp: bind_Some_iff)
  then show ?thesis by (simp add: fun_eq_iff dp_blocks_def)
qed

lemma refresh_link_dp [dp_kept]: "refresh_link ts s p j r = Some s' \<Longrightarrow> dp_blocks s' = dp_blocks s"
  by (auto simp: refresh_link_def bind_Some_iff Let_def)

lemma new_dhost_link_dp [dp_kept]:
  "new_dhost_link ts s sh d m rtt = Some (r, s') \<Longrightarrow> dp_blocks s' = dp_blocks s"
  by (auto simp: new_dhost_link_def bind_Some_iff split: if_splits option.splits dest!: dp_kept)

lemma edge_link_dp [dp_kept]: "edge_link s p d rtt ts = Some (r, s') \<Longrightarrow> dp_blocks s' = dp_blocks s"
  by (auto simp: edge_link_def bind_Some_iff split: option.splits dest!: dp_kept)

lemma edge_source_dp [dp_kept]: "edge_source s src ts = Some (r, s') \<Longrightarrow> dp_blocks s' = dp_blocks s"
  by (auto simp: edge_source_def bind_Some_iff split: option.splits if_splits dest!: dp_kept)

lemma update_edges_loop_dp [dp_kept]:
  "update_edges_loop es ip p c s = Some (r, s') \<Longrightarrow> dp_blocks s' = dp_blocks s"
proof (induction es arbitrary: ip p c s)
  case (Cons e es)
  from Cons.prems show ?case
    by (cases rule: update_edges_loop_Cons) (auto dest!: Cons.IH dp_kept)
qed simp

lemma detach_dhost_dp [dp_kept]: "detach_dhost s sh j h = Some (r, s') \<Longrightarrow> dp_blocks s' = dp_blocks s"
proof -
  assume run: "detach_dhost s sh j h = Some (r, s')"
  obtain ok al where al: "alloc (allocs s) = (ok, al)" by (rule prod.exhaust)
  show ?thesis
  proof (cases ok)
    case True
    with run al obtain hd v where
      "link_remove (set_host h (hd\<lparr>h_host := IP_Heap (brk s), h_type := HT_NORMAL\<rparr>)
         (s\<lparr>brk := brk s + 1, allocs := al, ipheap := (ipheap s)(IP_Heap (brk s) \<mapsto> v)\<rparr>)) sh j = Some s'"
      by (auto simp: detach_dhost_def Let_def bind_Some_iff)
    then show ?thesis by (auto dest!: dp_kept)
  qed (use run al in \<open>auto simp: detach_dhost_def\<close>)
qed

lemma trim_links_dp [dp_kept]: "trim_links h i s = Some s' \<Longrightarrow> dp_blocks s' = dp_blocks s"
  by (auto simp: trim_links_def bind_Some_iff split: option.splits dest!: dp_kept)

lemma trim_host_dp [dp_kept]: "trim_host s i = Some s' \<Longrightarrow> dp_blocks s' = dp_blocks s"
  by (auto simp: trim_host_def Let_def bind_Some_iff host_remove_def split: if_splits
      dest!: dp_kept foldM_invariant[where P = "\<lambda>t. dp_blocks t = dp_blocks s"] dest: dp_kept)

lemma trim_step_dp [dp_kept]: "trim_step a i s = Some s' \<Longrightarrow> dp_blocks s' = dp_blocks s"
  by (auto simp: trim_step_def bind_Some_iff split: if_splits dest!: dp_kept)

lemma trim_disjoint_hosts_dp [dp_kept]: "trim_disjoint_hosts s = Some (r, s') \<Longrightarrow> dp_blocks s' = dp_blocks s"
  by (auto simp: trim_disjoint_hosts_def bind_Some_iff split: if_splits
      dest!: foldM_invariant[where P = "\<lambda>t. dp_blocks t = dp_blocks s"] dest: dp_kept)

lemma compute_paths_dp [dp_kept]: "compute_paths s = Some (r, s') \<Longrightarrow> dp_blocks s' = dp_blocks s"
  by (auto simp: compute_paths_def Let_def bind_Some_iff split_beta split: if_splits)

lemma export_link_dp: "export_link i src x (r, s) = Some (r', s') \<Longrightarrow> dp_blocks s' = dp_blocks s"
  by (auto simp: export_link_def Let_def bind_Some_iff split_beta split: if_splits)

lemma export_host_dp: "export_host i (r, s) = Some (r', s') \<Longrightarrow> dp_blocks s' = dp_blocks s"
  by (auto simp: export_host_def bind_Some_iff split: if_splits
      dest!: foldM_invariant[where P = "\<lambda>rt. dp_blocks (snd rt) = dp_blocks s"] dest: export_link_dp)

lemma update_exported_edges_dp [dp_kept]:
  "update_exported_edges s = Some (r, s') \<Longrightarrow> dp_blocks s' = dp_blocks s"
  unfolding update_exported_edges_def
  by (drule foldM_invariant[where P = "\<lambda>rt. dp_blocks (snd rt) = dp_blocks s"]) (auto dest: export_host_dp)

lemma update_cache_dp [dp_kept]: "update_cache s = Some (r, s') \<Longrightarrow> dp_blocks s' = dp_blocks s"
  by (auto simp: update_cache_def bind_Some_iff split: if_splits dest!: dp_kept)

lemma wrlock_dp [dp_kept]: "wrlock s = Some s' \<Longrightarrow> dp_blocks s' = dp_blocks s"
  by (auto simp: wrlock_Some)

lemma rdlock_dp [dp_kept]: "rdlock s = Some s' \<Longrightarrow> dp_blocks s' = dp_blocks s"
  by (auto simp: rdlock_def split: rwlock.splits)

lemma unlock_dp [dp_kept]: "unlock s = Some s' \<Longrightarrow> dp_blocks s' = dp_blocks s"
  by (auto simp: unlock_def split: rwlock.splits)

lemma unlock_ret_dp [dp_kept]: "unlock_ret r s = Some (r', s') \<Longrightarrow> dp_blocks s' = dp_blocks s"
  by (auto simp: unlock_ret_def bind_Some_iff dest!: dp_kept)

lemma rt_dhost_add_link_dp [dp_kept]:
  "rt_dhost_add_link now s d rtt = Some (r, s') \<Longrightarrow> dp_blocks s' = dp_blocks s"
  by (auto simp: rt_dhost_add_link_def Let_def bind_Some_iff split: option.splits if_splits dest!: dp_kept)

lemma rt_update_edges_dp [dp_kept]: "rt_update_edges s es = Some (r, s') \<Longrightarrow> dp_blocks s' = dp_blocks s"
  by (auto simp: rt_update_edges_def bind_Some_iff split: if_splits dest!: dp_kept)

lemma rt_dhost_remove_dp [dp_kept]: "rt_dhost_remove s m = Some (r, s') \<Longrightarrow> dp_blocks s' = dp_blocks s"
  by (auto simp: rt_dhost_remove_def Let_def bind_Some_iff split: option.splits if_splits dest!: dp_kept)

section \<open>Memory to spare\<close>

named_theorems spare "steps on a machine that never runs out of memory"

lemmas [spare] = host_add_spare link_add_spare

lemma DA_ADD_TO_END_plenty [simp]: "fst (DA_ADD_TO_END d x []) = False" "snd (snd (DA_ADD_TO_END d x [])) = []"
  by (simp_all add: DA_ADD_TO_END_def DA_CHECK_AND_REALLOC_def Let_def)

lemma allocs_set_host [simp]: "allocs (set_host p h s) = allocs s"
  by (simp add: set_host_def)

lemma ihost_to_dhost_allocs: "ihost_to_dhost s p a = Some s' \<Longrightarrow> allocs s' = allocs s"
  by (auto simp: ihost_to_dhost_def bind_Some_iff split: if_splits ip_ptr.splits)

lemma link_remove_allocs: "link_remove s p j = Some s' \<Longrightarrow> allocs s' = allocs s"
  by (auto simp: link_remove_def bind_Some_iff)

lemma refresh_link_allocs: "refresh_link ts s p j r = Some s' \<Longrightarrow> allocs s' = allocs s"
  by (auto simp: refresh_link_def bind_Some_iff Let_def)

lemma unlock_ret_allocs: "unlock_ret r s = Some (r', s') \<Longrightarrow> r' = r \<and> allocs s' = allocs s"
  by (auto simp: unlock_ret_def unlock_def bind_Some_iff split: rwlock.splits)

lemmas allocs_kept = ihost_to_dhost_allocs link_remove_allocs refresh_link_allocs unlock_ret_allocs

lemma new_dhost_link_spare [spare]:
  assumes "allocs s = []" and "new_dhost_link ts s sh d m rtt = Some (r, s')"
  shows "allocs s' = []"
  using assms
  by (auto simp: new_dhost_link_def bind_Some_iff split: if_splits option.splits
      dest: spare dest!: allocs_kept)

lemma detach_dhost_spare:
  assumes "allocs s = []" and "detach_dhost s sh j h = Some (r, s')"
  shows "allocs s' = [] \<and> r = 0"
  using assms by (auto simp: detach_dhost_def Let_def bind_Some_iff dest!: link_remove_allocs)

lemma trim_disjoint_hosts_allocs: "trim_disjoint_hosts s = Some (r, s') \<Longrightarrow> allocs s' = allocs s"
proof -
  have "same_cache s s'" if "foldM (trim_step a) xs s = Some s'" for a xs
    using that by (rule foldM_invariant) (auto intro: same_cache_trans trim_step_same_cache)
  then show "trim_disjoint_hosts s = Some (r, s') \<Longrightarrow> allocs s' = allocs s"
    by (auto simp: trim_disjoint_hosts_def bind_Some_iff same_cache_def split: if_splits)
qed

lemma compute_paths_spare:
  assumes "allocs s = []" and "compute_paths s = Some (r, s')"
  shows "allocs s' = [] \<and> r = 0"
  using assms by (auto simp: compute_paths_def Let_def bind_Some_iff alloc_rows_spare split_beta split: if_splits)

lemma export_link_spare:
  assumes "allocs (snd rt) = []" "fst rt = 0" and "export_link i src x rt = Some rt'"
  shows "allocs (snd rt') = [] \<and> fst rt' = 0"
  using assms by (cases rt) (auto simp: export_link_def Let_def bind_Some_iff split_beta split: if_splits)

lemma export_host_spare:
  assumes "allocs (snd rt) = []" "fst rt = 0" and "export_host i rt = Some rt'"
  shows "allocs (snd rt') = [] \<and> fst rt' = 0"
proof -
  obtain s where rt: "rt = (0, s)" using assms(2) by (cases rt) simp
  with assms(3) obtain src ls where "foldM (export_link i src) ls (0, s) = Some rt'"
    by (auto simp: export_host_def bind_Some_iff)
  then show ?thesis
  proof (rule foldM_invariant[where P = "\<lambda>rt. allocs (snd rt) = [] \<and> fst rt = 0"])
    fix x t t' assume "allocs (snd t) = [] \<and> fst t = 0" "export_link i src x t = Some t'"
    with export_link_spare[of t i src x t'] show "allocs (snd t') = [] \<and> fst t' = 0" by blast
  qed (use assms(1) rt in simp)
qed

lemma update_exported_edges_spare:
  assumes "allocs s = []" and "update_exported_edges s = Some (r, s')"
  shows "allocs s' = [] \<and> r = 0"
proof -
  have "foldM export_host [0..<da_ct (hosts s)] (0, s) = Some (r, s')"
    using assms(2) by (simp add: update_exported_edges_def)
  then have "allocs (snd (r, s')) = [] \<and> fst (r, s') = 0"
  proof (rule foldM_invariant[where P = "\<lambda>rt. allocs (snd rt) = [] \<and> fst rt = 0"])
    fix i t t' assume "allocs (snd t) = [] \<and> fst t = 0" "export_host i t = Some t'"
    with export_host_spare[of t i t'] show "allocs (snd t') = [] \<and> fst t' = 0" by blast
  qed (use assms(1) in simp)
  then show ?thesis by simp
qed

lemma update_cache_spare:
  assumes "allocs s = []" and "update_cache s = Some (r, s')"
  shows "allocs s' = [] \<and> r = 0"
proof -
  from assms(2) obtain r1 s1 where t: "trim_disjoint_hosts s = Some (r1, s1)" by (auto simp: update_cache_def bind_Some_iff)
  have s1: "allocs s1 = []" using trim_disjoint_hosts_allocs[OF t] assms(1) by simp
  have r1: "\<not> r1 < 0" using t by (auto simp: trim_disjoint_hosts_def bind_Some_iff split: if_splits)
  with assms(2) t obtain r2 s2 where c: "compute_paths s1 = Some (r2, s2)" by (auto simp: update_cache_def bind_Some_iff)
  note s2 = compute_paths_spare[OF s1 c]
  with assms(2) t r1 c obtain r3 where "update_exported_edges s2 = Some (r3, s')" "r = (if r3 < 0 then r3 else 0)"
    by (auto simp: update_cache_def bind_Some_iff split: if_splits)
  with update_exported_edges_spare[of s2 r3 s'] s2 show ?thesis by simp
qed

text \<open>What the rest of the program relies on, and every operation keeps.\<close>

definition rd_ok :: "routing \<Rightarrow> bool" where
  "rd_ok s \<longleftrightarrow> rt_wf s \<and> da_wf (edges s) \<and> lock s = RW_Free \<and> allocs s = [] \<and> anchored s"

lemma rd_okD:
  assumes "rd_ok s"
  shows "rt_wf s" and "da_wf (edges s)" and "lock s = RW_Free" and "allocs s = []" and "anchored s"
  using assms by (simp_all add: rd_ok_def)

text \<open>The last lines of every writer.\<close>

lemma finish_ok:
  assumes "rt_wf s" and "da_wf (edges s)" and "lock s = RW_Write" and "allocs s = []" and "e \<noteq> 0"
    and res: "do { (ret, t) \<leftarrow> update_cache s; unlock_ret (if ret \<noteq> 0 then e else 0) t } = Some (r, s')"
  shows "r = 0" and "paths_current s'" and "keeps_direct s s'" and "heap_ptrs s' \<subseteq> heap_ptrs s"
    and "anchored s' \<Longrightarrow> rd_ok s'"
proof -
  from res obtain ret t where t: "update_cache s = Some (ret, t)" "unlock_ret (if ret \<noteq> 0 then e else 0) t = Some (r, s')"
    by (auto simp: bind_Some_iff)
  from update_cache_spare[OF assms(4) t(1)] unlock_ret_allocs[OF t(2)] have "r = 0" "allocs s' = []" by simp_all
  with update_cache_unlock[OF assms(1-3) res assms(5)]
  show "r = 0" "paths_current s'" "keeps_direct s s'" "anchored s' \<Longrightarrow> rd_ok s'"
    by (simp_all add: rd_ok_def)
  show "heap_ptrs s' \<subseteq> heap_ptrs s" using update_cache_ptrs[OF t(1)] unlock_ret_ptrs[OF t(2)] by simp
qed

lemma keeps_direct_anchored:
  assumes "anchored s" and "keeps_direct s s'" and "heap_ptrs s' \<subseteq> heap_ptrs s"
  shows "anchored s'"
  using assms by (intro anchored_fewer[OF assms(1)]) (auto simp: keeps_direct_def)

lemma rt_update_edges_keeps:
  assumes ok: "rd_ok s" and res: "rt_update_edges s es = Some (r, s')"
  shows "r = 0" and "rd_ok s'" and "paths_current s'"
proof -
  note D = rd_okD[OF ok]
  have "r = 0 \<and> rd_ok s' \<and> paths_current s'"
  proof (cases rule: rt_update_edges_start[OF D(1,3), of es])
    case (3 s1)
    have "da_wf (edges s1)" "allocs s1 = []" using D(2,4) 3(3,5) by (simp_all add: grows_def)
    with 3 res have fin: "r = 0" "paths_current s'" "keeps_direct s1 s'" "anchored s' \<Longrightarrow> rd_ok s'"
      using finish_ok[of s1 "- 5" r s'] by simp_all
    obtain q f where "local_host s = Some q" "q \<in> set (host_list s)" by (rule rt_wf_localE[OF D(1)])
    with 3(3) fin(3) rt_update_edges_ptrs[OF res] have "anchored s'"
      by (intro anchored_fewer[OF D(5)]) (auto simp: grows_def keeps_direct_def)
    with fin show ?thesis by simp
  qed (use D(4) res in auto)
  then show "r = 0" "rd_ok s'" "paths_current s'" by simp_all
qed

lemma rt_dhost_add_link_done:
  assumes "rt_wf s" and "da_wf (edges s)" and "ipheap s d = Some ip" and "ptr_fits HT_DIRECT d"
    and "rt_dhost_add_link now s d rtt = Some (0, s')"
  shows "rt_wf s' \<and> paths_current s' \<and> lock s' = RW_Free \<and>
    local_link s' (ip_mac ip) rtt (word_of_int (tv_ms now))"
proof -
  have free: "lock s = RW_Free" using rt_dhost_add_link_lock[OF assms(5)] by blast
  show ?thesis
  proof (cases rule: rt_dhost_add_link_start[OF assms(1) free assms(3,4), of now rtt])
    case (3 s1)
    have es: "da_wf (edges s1)" using assms(2) 3(3) by simp
    have res: "do { (ret, t) \<leftarrow> update_cache s1; unlock_ret (if ret \<noteq> 0 then - 5 else 0) t } = Some (0, s')"
      using 3(1) assms(5) by simp
    from update_cache_unlock[OF 3(2) es 3(4) res] local_link_keeps[OF 3(2), of s'] 3(5)
    show ?thesis by simp
  qed (use assms(5) in auto)
qed

lemma new_dhost_link_ret: "new_dhost_link ts s sh d m rtt = Some (r, s') \<Longrightarrow> r \<in> {0, - 2, - 3}"
  by (auto simp: new_dhost_link_def bind_Some_iff split: if_splits)

text \<open>The same facts with one premise, for chains of steps.\<close>

lemma spare_steps:
  "new_dhost_link ts s sh d m rtt = Some (r, s') \<Longrightarrow> (allocs s = [] \<longrightarrow> allocs s' = []) \<and> r \<noteq> - 5"
  "update_cache s = Some (r, s') \<Longrightarrow> allocs s = [] \<longrightarrow> allocs s' = [] \<and> r = 0"
  "detach_dhost s sh j h = Some (r, s') \<Longrightarrow> allocs s = [] \<longrightarrow> allocs s' = [] \<and> r = 0"
  using new_dhost_link_spare[of s ts sh d m rtt r s'] new_dhost_link_ret[of ts s sh d m rtt r s'] apply auto[1]
  using update_cache_spare[of s r s'] apply blast
  using detach_dhost_spare[of s sh j h r s'] apply blast
  done

lemma rt_dhost_add_link_spare:
  assumes "allocs s = []" and "rt_dhost_add_link now s d rtt = Some (r, s')"
  shows "allocs s' = [] \<and> r \<noteq> - 5"
  using assms
  by (auto simp: rt_dhost_add_link_def Let_def bind_Some_iff wrlock_Some split: option.splits if_splits
      dest!: spare_steps refresh_link_allocs unlock_ret_allocs)

lemma rt_dhost_remove_spare:
  assumes "allocs s = []" and "rt_dhost_remove s m = Some (r, s')"
  shows "allocs s' = [] \<and> r \<noteq> - 2 \<and> r \<noteq> - 3"
  using assms
  by (auto simp: rt_dhost_remove_def Let_def bind_Some_iff wrlock_Some split: option.splits if_splits
      dest!: spare_steps unlock_ret_allocs)

text \<open>With memory to spare, a link is refused only without any change.\<close>

lemma new_dhost_link_spare_ret:
  assumes "allocs s = []" and "ipheap s d = Some ip" and "new_dhost_link ts s sh d (ip_mac ip) rtt = Some (r, s')"
  shows "r = 0"
proof -
  obtain x where x: "find_host_by_addr s (ip_mac ip) = Some x"
    using assms(3) by (auto simp: new_dhost_link_def bind_Some_iff)
  have ret: "r1 = 0 \<and> allocs t = []" if "x = None" "host_add s d HT_DIRECT = Some (r1, p, t)" for r1 p t
    using host_add_spare[OF assms(1) that(2)] that x assms(2)
    by (auto simp: host_add_def bind_Some_iff split: option.splits if_splits)
  from assms(3) x show ?thesis
    by (cases x) (auto simp: new_dhost_link_def bind_Some_iff assms(1) split: if_splits
        dest!: ret link_add_spare(1)[rotated] ihost_to_dhost_allocs)
qed

lemma rt_dhost_add_link_refused:
  assumes ok: "rd_ok s" and res: "rt_dhost_add_link now s d rtt = Some (r, s')" and r: "r \<noteq> 0"
  shows "s' = s"
proof -
  note D = rd_okD[OF ok]
  have same: "s\<lparr>lock := RW_Free\<rparr> = s" using D(3) by simp
  have new: "r1 = 0 \<and> allocs t = []"
    if "new_dhost_link ts (locked s) sh d (ip_mac ip) rtt = Some (r1, t)" "ipheap s d = Some ip" for ts sh ip r1 t
    using new_dhost_link_spare_ret[of "locked s" d ip] new_dhost_link_spare[of "locked s"] that D(4) by simp
  have fresh: "allocs t = []" if "refresh_link ts (locked s) sh j rtt = Some t" for ts sh j t
    using refresh_link_allocs[OF that] D(4) by simp
  have fin: "r = 0" if "update_cache t = Some (r1, u)" "allocs t = []" "unlock_ret (if r1 \<noteq> 0 then - 5 else 0) u = Some (r, s')" for t r1 u
    using update_cache_spare[OF that(2,1)] unlock_ret_allocs[OF that(3)] by simp
  obtain lp lmac src where l: "local_host s = Some lp" "host_mac s lp = Some lmac" "find_host_by_addr s lmac = Some src"
    using res by (auto simp: rt_dhost_add_link_def bind_Some_iff wrlock_Some)
  note start = rt_dhost_add_link_def wrlock_def D(3) l
  show ?thesis
  proof (cases src)
    case None
    with res same show ?thesis by (simp add: start unlock_ret_Write)
  next
    case (Some i)
    with res obtain sh smac dst where x: "index_to_host s i = Some sh" "host_mac s sh = Some smac" "ipheap s d = Some dst"
      by (auto simp: start bind_Some_iff)
    show ?thesis
    proof (cases "mac_cmp smac (ip_mac dst) = 0")
      case True
      with res Some x same show ?thesis by (simp add: start unlock_ret_Write)
    next
      case False
      with res Some x obtain h stod where y: "hheap s sh = Some h"
        "find_link_by_addr (locked s) (h_links h) (ip_mac dst) = Some stod" by (auto simp: start bind_Some_iff)
      have "r = 0"
      proof (cases stod)
        case None
        from res Some x False y None obtain r1 t where
          n: "new_dhost_link (word_of_int (tv_ms now)) (locked s) sh d (ip_mac dst) rtt = Some (r1, t)"
          by (auto simp: start bind_Some_iff)
        with new[OF n x(3)] res Some x False y None fin show ?thesis by (auto simp: start bind_Some_iff)
      next
        case (Some j)
        with res \<open>src = Some i\<close> x False y fin fresh show ?thesis by (auto simp: start bind_Some_iff)
      qed
      with r show ?thesis by simp
    qed
  qed
qed

lemma rt_dhost_add_link_keeps:
  assumes ok: "rd_ok s" and d: "ipheap s d = Some ip" "ptr_fits HT_DIRECT d"
    and res: "rt_dhost_add_link now s d rtt = Some (r, s')"
  shows "rd_ok s'"
proof (cases "r = 0")
  case True
  note D = rd_okD[OF ok]
  show ?thesis
  proof (cases rule: rt_dhost_add_link_start[OF D(1,3) d, of now rtt])
    case (3 s1)
    have es: "da_wf (edges s1)" "anchored s1" using D(2,5) 3(3,6) by simp_all
    have run: "do { (ret, t) \<leftarrow> update_cache s1; unlock_ret (if ret \<noteq> 0 then - 5 else 0) t } = Some (r, s')"
      using 3(1) res by simp
    from run obtain ret t where "update_cache s1 = Some (ret, t)" "unlock_ret (if ret \<noteq> 0 then - 5 else 0) t = Some (r, s')"
      by (auto simp: bind_Some_iff)
    then have "heap_ptrs s' \<subseteq> heap_ptrs s1" using update_cache_ptrs unlock_ret_ptrs by fastforce
    moreover have "lock s' = RW_Free" "rt_wf s' \<and> da_wf (edges s') \<and> keeps_direct s1 s'"
      using update_cache_unlock[OF 3(2) es(1) 3(4) run] True by simp_all
    ultimately show ?thesis
      using keeps_direct_anchored[OF es(2)] rt_dhost_add_link_spare[OF D(4) res] by (simp add: rd_ok_def)
  qed (use ok res True in auto)
next
  case False
  from rt_dhost_add_link_refused[OF ok res False] ok show ?thesis by simp
qed

text \<open>Once the link to a peer is removed, no host uses the address inside the peer.\<close>

lemma rt_dhost_remove_keeps:
  assumes ok: "rd_ok s" and res: "rt_dhost_remove s m = Some (r, s')"
  shows "rd_ok s'" and "\<not> local_link s' m rtt ts"
proof -
  note D = rd_okD[OF ok] and sp = rt_dhost_remove_spare[OF rd_okD(4)[OF ok] res]
  have "rd_ok s' \<and> (\<forall>rtt ts. \<not> local_link s' m rtt ts)"
  proof (cases rule: rt_dhost_remove_start[OF D(1,3), of m])
    case (3 s1)
    have es: "da_wf (edges s1)" "anchored s1" using D(2,5) 3(3,6) by simp_all
    have run: "do { (ret, t) \<leftarrow> update_cache s1; unlock_ret (if ret \<noteq> 0 then - 2 else 0) t } = Some (r, s')"
      using 3(1) res by simp
    from run obtain ret t where "update_cache s1 = Some (ret, t)" "unlock_ret (if ret \<noteq> 0 then - 2 else 0) t = Some (r, s')"
      by (auto simp: bind_Some_iff)
    then have ptrs: "heap_ptrs s' \<subseteq> heap_ptrs s1" using update_cache_ptrs unlock_ret_ptrs by fastforce
    have "lock s' = RW_Free" "rt_wf s' \<and> da_wf (edges s') \<and> keeps_direct s1 s'"
      using update_cache_unlock[OF 3(2) es(1) 3(4) run] sp by auto
    with keeps_direct_anchored[OF es(2) _ ptrs] sp local_link_keeps[OF 3(2), of s' m] 3(5) show ?thesis
      by (auto simp: rd_ok_def)
  qed (use ok res sp in \<open>auto simp: rd_ok_def\<close>)
  then show "rd_ok s'" "\<not> local_link s' m rtt ts" by blast+
qed

section \<open>Links to other addresses\<close>

lemma keeps_links_keeps: "rt_wf s \<Longrightarrow> keeps_direct s s' \<Longrightarrow> keeps_links m s s'"
  unfolding keeps_links_def using local_link_keeps by blast

lemma rt_dhost_add_link_others:
  assumes ok: "rd_ok s" and ip: "ipheap s (IP_Dp d) = Some ip" and res: "rt_dhost_add_link now s (IP_Dp d) rtt = Some (r, s')"
  shows "keeps_links (ip_mac ip) s s'"
proof (cases "r = 0")
  case True
  note D = rd_okD[OF ok]
  have fit: "ptr_fits HT_DIRECT (IP_Dp d)" by simp
  show ?thesis
  proof (cases rule: rt_dhost_add_link_start[OF D(1,3) ip fit, of now rtt])
    case (3 s1)
    have "da_wf (edges s1)" using D(2) 3(3) by simp
    moreover have run: "do { (ret, t) \<leftarrow> update_cache s1; unlock_ret (if ret \<noteq> 0 then - 5 else 0) t } = Some (r, s')"
      using 3(1) res by simp
    ultimately have "keeps_direct s1 s'" using update_cache_unlock[OF 3(2) _ 3(4) run] True by auto
    from keeps_links_trans[OF 3(7) keeps_links_keeps[OF 3(2) this]] show ?thesis .
  qed (use res True in auto)
qed (use rt_dhost_add_link_refused[OF ok res] in simp)

lemma rt_dhost_remove_others:
  assumes ok: "rd_ok s" and res: "rt_dhost_remove s m = Some (r, s')"
  shows "keeps_links m s s'"
proof -
  note D = rd_okD[OF ok] and sp = rt_dhost_remove_spare[OF rd_okD(4)[OF ok] res]
  show ?thesis
  proof (cases rule: rt_dhost_remove_start[OF D(1,3), of m])
    case (3 s1)
    have es: "da_wf (edges s1)" using D(2) 3(3) by simp
    have run: "do { (ret, t) \<leftarrow> update_cache s1; unlock_ret (if ret \<noteq> 0 then - 2 else 0) t } = Some (r, s')"
      using 3(1) res by simp
    have "keeps_direct s1 s'" using update_cache_unlock[OF 3(2) es 3(4) run] sp by auto
    from keeps_links_trans[OF 3(7) keeps_links_keeps[OF 3(2) this]] show ?thesis .
  qed (use res sp in auto)
qed

lemma rt_update_edges_links:
  assumes ok: "rd_ok s" and res: "rt_update_edges s es = Some (r, s')"
  shows "local_link s' m rtt ts \<longleftrightarrow> local_link s m rtt ts"
proof -
  note D = rd_okD[OF ok]
  show ?thesis
  proof (cases rule: rt_update_edges_start[OF D(1,3), of es])
    case (3 s1)
    have "da_wf (edges s1)" "allocs s1 = []" using D(2,4) 3(3,5) by (simp_all add: grows_def)
    with 3 res have "keeps_direct s1 s'" using finish_ok[of s1 "- 5" r s'] by simp
    with local_link_keeps[OF 3(2)] local_link_grows[OF D(1) 3(3)] show ?thesis by simp
  qed (use D(4) res in auto)
qed

section \<open>Forwarding\<close>

text \<open>
  \<open>t\<close> differs from \<open>s\<close> at most in the lock, the matrices and the allocator's answers, and memory to
  spare stays so.
\<close>

definition reads :: "routing \<Rightarrow> routing \<Rightarrow> bool" where
  "reads s t \<longleftrightarrow>
     t = s\<lparr>m_ct := m_ct t, mats := mats t, allocs := allocs t, lock := lock t\<rparr> \<and>
     (allocs s = [] \<longrightarrow> allocs t = [])"

lemma reads_refl [simp]: "reads s s"
  by (simp add: reads_def)

lemma reads_trans: "reads s t \<Longrightarrow> reads t u \<Longrightarrow> reads s u"
  by (cases s; cases t; cases u) (simp add: reads_def)

lemma readsE:
  assumes "reads s t"
  obtains c m al lk where "t = s\<lparr>m_ct := c, mats := m, allocs := al, lock := lk\<rparr>" "allocs s = [] \<longrightarrow> al = []"
  using assms unfolding reads_def by blast

lemma reads_rd_ok: "reads s t \<Longrightarrow> rd_ok s \<Longrightarrow> lock t = RW_Free \<Longrightarrow> rd_ok t"
  by (erule readsE) (simp add: rd_ok_def)

lemma reads_dp: "reads s t \<Longrightarrow> dp_blocks t = dp_blocks s"
  by (erule readsE) simp

lemma reads_allocs [simp]: "reads s (s\<lparr>allocs := al\<rparr>) \<longleftrightarrow> (allocs s = [] \<longrightarrow> al = [])"
  by (auto simp: reads_def)

lemma rdlock_reads: "rdlock s = Some t \<Longrightarrow> reads s t"
  by (auto simp: rdlock_def reads_def split: rwlock.splits)

lemma unlock_reads: "unlock s = Some t \<Longrightarrow> reads s t"
  by (auto simp: unlock_def reads_def split: rwlock.splits)

lemma compute_paths_reads: "compute_paths s = Some (r, t) \<Longrightarrow> reads s t"
  by (auto simp: compute_paths_def Let_def bind_Some_iff reads_def alloc_rows_spare split_beta split: if_splits)

lemma follow_allocs:
  assumes "follow nxt cur i d al = Some r"
  shows "al = [] \<longrightarrow> snd r = []"
proof (rule follow.raw_induct[where P = "\<lambda>nxt cur i d al r. al = [] \<longrightarrow> snd r = []", OF _ assms])
  fix f nxt i r and cur :: nat and d :: "nat da" and al
  assume IH: "\<And>nxt cur i d al r. f nxt cur i d al = Some r \<Longrightarrow> al = [] \<longrightarrow> snd r = []"
    and step: "Option.bind (nxt i) (\<lambda>i. if i = NEXT_DISCON then Some (snd (DA_ADD_TO_END d cur al))
       else f nxt cur i (fst (snd (DA_ADD_TO_END d i al))) (snd (snd (DA_ADD_TO_END d i al)))) = Some r"
  from step obtain k where k: "(if k = NEXT_DISCON then Some (snd (DA_ADD_TO_END d cur al))
       else f nxt cur k (fst (snd (DA_ADD_TO_END d k al))) (snd (snd (DA_ADD_TO_END d k al)))) = Some r"
    by (auto simp: bind_Some_iff)
  show "al = [] \<longrightarrow> snd r = []"
  proof (cases "k = NEXT_DISCON")
    case False
    with k IH[of nxt cur k "fst (snd (DA_ADD_TO_END d k al))" "snd (snd (DA_ADD_TO_END d k al))" r] show ?thesis by simp
  qed (use k in auto)
qed

lemma collect_dst_allocs:
  assumes "foldM (collect_dst s i d) xs (e, []) = Some r"
  shows "snd r = []"
  using assms
proof (rule foldM_invariant[where P = "\<lambda>r. snd r = []"])
  fix x t t' assume "snd t = []" "collect_dst s i d x t = Some t'"
  then show "snd t' = []" by (cases t) (auto simp: collect_dst_def bind_Some_iff split: if_splits)
qed simp

lemma build_hosts_allocs: "build_hosts s js [] = Some (hs, al) \<Longrightarrow> al = []"
  by (induction js arbitrary: hs) (auto simp: bind_Some_iff)

lemma error_ret_one_reader:
  "lock u = RW_Read 1 \<Longrightarrow> error_ret r u = Some (r, [], u\<lparr>lock := RW_Free\<rparr>)"
  by (simp add: error_ret_def unlock_def)

text \<open>
  How the two branches end, for the only reader: still reading, with result 0, or with the lock
  released.
\<close>

definition ends :: "routing \<Rightarrow> int \<times> ip_ptr list \<times> routing \<Rightarrow> bool" where
  "ends s res = (case res of (ret, hs, t) \<Rightarrow>
     reads s t \<and> (lock t = RW_Read 1 \<and> ret = 0 \<or> lock t = RW_Free))"

lemma ucast_host_ends:
  assumes "lock s = RW_Read 1" and "allocs s = []" and "ucast_host s c dst = Some res"
  shows "ends s res"
  using assms
  by (auto simp: ucast_host_def bind_Some_iff error_ret_one_reader ends_def reads_def split: option.splits if_splits)

lemma mcast_hosts_ends:
  assumes "lock s = RW_Read 1" and "allocs s = []" and "mcast_hosts s c src = Some res"
  shows "ends s res"
proof -
  obtain d :: "nat da" where d: "DA_INIT 8 [] = (False, d, [])" using DA_INIT_spare by blast
  obtain e :: "nat da" where e: "DA_INIT (m_ct s) [] = (False, e, [])" using DA_INIT_spare by blast
  have fin: "ends s (0, hs, s\<lparr>allocs := al\<rparr>)"
    if "follow nxt c i d [] = Some (d', al2)" "DA_INIT (m_ct s) al2 = (False, e', al3)"
      "foldM (collect_dst s i d') xs (e', al3) = Some (e2, al4)" "build_hosts s js al4 = Some (hs, al)"
    for nxt i d' al2 e' al3 xs e2 al4 js hs al
  proof -
    have "al2 = []" using follow_allocs[OF that(1)] by simp
    with that(2) e have "al3 = []" by simp
    with collect_dst_allocs[of s i d' xs e' "(e2, al4)"] that(3) have "al4 = []" by simp
    with build_hosts_allocs[of s js hs al] that(4) have "al = []" by simp
    with assms(1,2) show ?thesis by (simp add: ends_def)
  qed
  from assms(3) obtain x where x: "find_host_by_addr s src = Some x" by (auto simp: mcast_hosts_def bind_Some_iff)
  note err = error_ret_one_reader[OF assms(1)] and def = mcast_hosts_def assms(2) d
  show ?thesis
  proof (cases x)
    case None
    with x assms(3) err show ?thesis by (auto simp: def ends_def reads_def)
  next
    case (Some i)
    from assms(3) Some x obtain w where w: "path_at s i c = Some w" by (auto simp: def bind_Some_iff)
    show ?thesis
    proof (cases "w = PATH_DISCON")
      case True
      with w x Some assms(2,3) err show ?thesis
        by (auto simp: def allocs_same[OF assms(2)] ends_def reads_def)
    next
      case False
      with w x Some assms(3) obtain d' al2 where f: "follow (\<lambda>j. next_at s j c) c i d [] = Some (d', al2)"
        by (auto simp: def bind_Some_iff)
      have "al2 = []" using follow_allocs[OF f] by simp
      with f e w x Some False assms(3) show ?thesis by (auto simp: def bind_Some_iff intro!: fin[OF f])
    qed
  qed
qed

lemma rt_dhosts_to_host_ends:
  assumes "rd_ok s" and "rt_dhosts_to_host s src dst = Some (ret, hs, t)"
  shows "reads s t" and "lock t = RW_Read 1 \<and> ret = 0 \<or> lock t = RW_Free"
proof -
  note D = rd_okD[OF assms(1)]
  let ?s = "s\<lparr>lock := RW_Read (Suc 0)\<rparr>"
  have lk: "rdlock s = Some ?s" using D(3) by (simp add: rdlock_def)
  obtain r u where u: "(if m_ct ?s \<noteq> da_ct (hosts ?s) then compute_paths ?s else Some (0, ?s)) = Some (r, u)"
    using assms(2) lk unfolding rt_dhosts_to_host_def by (auto elim!: bind_SomeE)
  have "reads ?s u" using u compute_paths_reads[of ?s r u] by (auto split: if_splits)
  moreover have "lock u = RW_Read 1" using u compute_paths_lock[of ?s r u] by (auto split: if_splits)
  moreover have "r = 0" using u compute_paths_spare[of ?s r u] D(4) by (auto split: if_splits)
  moreover have "allocs u = []" using \<open>reads ?s u\<close> D(4) by (auto simp: reads_def)
  ultimately obtain cur where run:
    "(case cur of None \<Rightarrow> error_ret (- 13) u
      | Some c \<Rightarrow> if ether_addr_is_mcast dst then mcast_hosts u c src else ucast_host u c dst) = Some (ret, hs, t)"
    using assms(2) lk u unfolding rt_dhosts_to_host_def by (auto elim!: bind_SomeE)
  have e: "ends u (ret, hs, t)"
  proof (cases cur)
    case None
    with run error_ret_one_reader[OF \<open>lock u = _\<close>] show ?thesis
      by (auto simp: ends_def reads_def)
  qed (use run \<open>lock u = _\<close> \<open>allocs u = _\<close> in \<open>auto split: if_splits intro: ucast_host_ends mcast_hosts_ends\<close>)
  have "reads s ?s" by (simp add: reads_def)
  with e reads_trans[OF reads_trans[OF this \<open>reads ?s u\<close>]]
  show "reads s t" "lock t = RW_Read 1 \<and> ret = 0 \<or> lock t = RW_Free" by (auto simp: ends_def)
qed

section \<open>Peers the table does not know\<close>

text \<open>Whether a host of the table has its address inside peer \<open>d\<close>.\<close>

definition points_to :: "routing \<Rightarrow> nat \<Rightarrow> bool" where
  "points_to s d \<longleftrightarrow> (\<exists>p\<in>set (host_list s). \<exists>h. hheap s p = Some h \<and> h_host h = IP_Dp d)"

lemma points_to_ptr: "points_to s d \<longleftrightarrow> (\<exists>p\<in>set (host_list s). (p, d) \<in> heap_ptrs s)"
  by (auto simp: points_to_def heap_ptrs_def)

lemma points_to_live:
  assumes "rt_wf s" and "points_to s d"
  shows "dp_blocks s d \<noteq> None"
proof -
  from assms(2) obtain p h where p: "p \<in> set (host_list s)" "hheap s p = Some h" "h_host h = IP_Dp d"
    by (auto simp: points_to_def)
  then have "host_mac s p \<noteq> None" using rt_wf_ascending[OF assms(1)] by (simp add: ascending_def keyed_def)
  with p show ?thesis by (auto simp: host_mac_def dp_blocks_def bind_Some_iff)
qed

lemma rt_wf_dp_block:
  assumes "rt_wf s" and "\<not> points_to s d"
  shows "rt_wf (s\<lparr>ipheap := (ipheap s)(IP_Dp d := v)\<rparr>)"
proof (rule rt_wf_retype[OF assms(1)])
  let ?s = "s\<lparr>ipheap := (ipheap s)(IP_Dp d := v)\<rparr>"
  show "heap_wf ?s" using rt_wf_heap[OF assms(1)] by (simp add: heap_wf_def)
  fix q assume q: "q \<in> set (host_list s)"
  from rt_wf_hostE[OF assms(1) q] obtain h where h: "hheap s q = Some h" by auto
  with q assms(2) have "h_host h \<noteq> IP_Dp d" by (auto simp: points_to_def)
  with h show "host_mac ?s q = host_mac s q" by (simp add: host_mac_def)
next
  fix q h assume "q \<in> set (host_list s)" "hheap s q = Some h"
  with rt_wf_host[OF assms(1) this]
  show "\<exists>h'. hheap (s\<lparr>ipheap := (ipheap s)(IP_Dp d := v)\<rparr>) q = Some h' \<and>
      ptr_fits (h_type h') (h_host h') \<and> h_links h' = h_links h \<and>
      (h_type h' = HT_LOCAL \<longleftrightarrow> h_type h = HT_LOCAL)"
    and "h_type h = HT_LOCAL \<Longrightarrow>
      direct_links (s\<lparr>ipheap := (ipheap s)(IP_Dp d := v)\<rparr>) (h_links h)"
    by (auto simp: host_wf_def direct_links_def)
qed simp_all

text \<open>An address that is added to the table is read first.\<close>

lemma rt_dhost_add_link_reads:
  assumes "rt_wf s" and "rt_dhost_add_link now s d rtt = Some (r, s')"
  shows "\<exists>ip. ipheap s d = Some ip"
proof -
  obtain c p m where c: "local_host s = Some p" "host_mac s p = Some m" "find_host_by_addr s m = Some (Some c)"
    by (rule rt_wf_local_index[OF assms(1)])
  with assms(2) show ?thesis by (auto simp: rt_dhost_add_link_def bind_Some_iff wrlock_Some)
qed

text \<open>What each operation does to the peers the table uses.\<close>

lemma points_to_frame [simp]:
  "points_to (rd\<lparr>ipheap := a\<rparr>) d = points_to rd d" "points_to (rd\<lparr>allocs := b\<rparr>) d = points_to rd d"
  by (simp_all add: points_to_def)

lemma rd_ok_points:
  assumes "rd_ok s"
  shows "points_to s d \<longleftrightarrow> (\<exists>p. (p, d) \<in> heap_ptrs s)"
proof -
  obtain q f where q: "local_host s = Some q" "q \<in> set (host_list s)" "hheap s q = Some f"
    by (rule rt_wf_localE[OF rd_okD(1)[OF assms]])
  have "p \<in> set (host_list s)" if "(p, d) \<in> heap_ptrs s" for p
    using rd_okD(5)[OF assms] that q rt_wf_links[OF rd_okD(1)[OF assms] q(2,3)]
    by (fastforce simp: anchored_ptrs links_wf_def)
  then show ?thesis by (auto simp: points_to_ptr)
qed

lemma reads_points: "reads s t \<Longrightarrow> points_to t d = points_to s d"
  by (erule readsE) (simp add: points_to_def)

lemma rt_update_edges_points:
  assumes "rd_ok s" and "rt_update_edges s es = Some (r, s')" and "points_to s' d"
  shows "points_to s d"
  using assms rt_update_edges_keeps(2)[OF assms(1,2)] rt_update_edges_ptrs[OF assms(2)]
  by (auto simp: rd_ok_points)

lemma rt_dhost_add_link_points:
  assumes "rd_ok s" and "rt_dhost_add_link now s (IP_Dp e) rtt = Some (r, s')" and "points_to s' d"
  shows "points_to s d \<or> d = e"
proof -
  obtain ip where ip: "ipheap s (IP_Dp e) = Some ip" using rt_dhost_add_link_reads[OF rd_okD(1)[OF assms(1)] assms(2)] by blast
  have "rd_ok s'" by (rule rt_dhost_add_link_keeps[OF assms(1) ip _ assms(2)]) simp
  with assms rt_dhost_add_link_ptrs[OF assms(2)] show ?thesis by (auto simp: rd_ok_points)
qed

lemma rt_dhost_remove_points:
  assumes ok: "rd_ok s" and res: "rt_dhost_remove s m = Some (r, s')" and d: "points_to s' d"
  shows "points_to s d" and "map_option ip_mac (dp_blocks s d) \<noteq> Some m"
proof -
  note keep = rt_dhost_remove_keeps[OF ok res]
  from d keep(1) obtain p where p: "(p, d) \<in> heap_ptrs s'" by (auto simp: rd_ok_points)
  with rt_dhost_remove_ptrs[OF res] ok show "points_to s d" by (auto simp: rd_ok_points)
  have "ipheap s' (IP_Dp d) = dp_blocks s d" using rt_dhost_remove_dp[OF res] by (metis dp_blocks_def)
  with anchored_unlinked[OF rd_okD(1,5)[OF keep(1)] keep(2), of d _ p] p
  show "map_option ip_mac (dp_blocks s d) \<noteq> Some m" by auto
qed

end
