(* ===== verification/Node.thy ===== *)
theory Node
  imports Main_Prog Routing_Frame
begin

text \<open>
  The node as a whole: an invariant that ties the routing table, the group of peers, the table of
  attempts and the peers together, and that every packet, frame, probe and new connection keeps.
\<close>

section \<open>The invariant\<close>

text \<open>
  The routing data is well-formed and unlocked and memory does not run out; the group is sorted by
  the addresses of its peers; every address block inside a peer belongs to a peer that is
  allocated; no write lock is held.  \<open>G\<close> are the peers that have entered the group and not left it
  again, \<open>L\<close> those that have added a link and not removed it: the group and the table refer to no
  others, and these are still allocated.
\<close>

definition node_wf :: "dptr set \<Rightarrow> dptr set \<Rightarrow> node \<Rightarrow> bool" where
  "node_wf G L s \<longleftrightarrow>
     rd_ok (n_rd s) \<and> dpg_wf (dp_mac s) (n_dpg s) \<and> pcon_wf (n_pc s) \<and>
     (\<forall>d\<ge>n_next s. n_peers s d = None) \<and>
     (\<forall>d. dp_blocks (n_rd s) d \<noteq> None \<longrightarrow> n_peers s d \<noteq> None) \<and>
     (\<forall>d dp. n_peers s d = Some dp \<longrightarrow> \<not> wlock dp) \<and>
     set (peers (n_dpg s)) \<subseteq> G \<and> (\<forall>d. points_to (n_rd s) d \<longrightarrow> d \<in> L) \<and> G \<union> L \<subseteq> dom (n_peers s)"

lemma dp_mac_blocks: "dp_mac s d = map_option ip_mac (dp_blocks (n_rd s) d)"
  by (simp add: dp_mac_def dp_host_def dp_blocks_def)

lemma node_wfD:
  assumes "node_wf G L s"
  shows "rd_ok (n_rd s)" and "dpg_wf (dp_mac s) (n_dpg s)" and "pcon_wf (n_pc s)"
    and "\<And>d. n_next s \<le> d \<Longrightarrow> n_peers s d = None"
    and "\<And>d. dp_blocks (n_rd s) d \<noteq> None \<Longrightarrow> n_peers s d \<noteq> None"
    and "\<And>d dp. n_peers s d = Some dp \<Longrightarrow> \<not> wlock dp"
    and "set (peers (n_dpg s)) \<subseteq> G" and "\<And>d. points_to (n_rd s) d \<Longrightarrow> d \<in> L" and "G \<union> L \<subseteq> dom (n_peers s)"
  using assms by (simp_all add: node_wf_def)

lemma dp_mac_cong: "dp_blocks (n_rd t) = dp_blocks (n_rd s) \<Longrightarrow> dp_mac t = dp_mac s"
  by (simp add: fun_eq_iff dp_mac_blocks)

lemma dp_mac_frame [simp]:
  "dp_mac (s\<lparr>n_clock := a\<rparr>) = dp_mac s" "dp_mac (s\<lparr>n_rand := b\<rparr>) = dp_mac s"
  "dp_mac (s\<lparr>n_spawns := c\<rparr>) = dp_mac s" "dp_mac (s\<lparr>n_threads := e\<rparr>) = dp_mac s"
  "dp_mac (s\<lparr>n_vnet := f\<rparr>) = dp_mac s" "dp_mac (s\<lparr>n_peers := g\<rparr>) = dp_mac s"
  "dp_mac (s\<lparr>n_dpg := h\<rparr>) = dp_mac s" "dp_mac (s\<lparr>n_pc := i\<rparr>) = dp_mac s"
  "dp_mac (s\<lparr>n_next := j\<rparr>) = dp_mac s"
  by (rule dp_mac_cong, simp)+

text \<open>Changes of one part.\<close>

lemma node_wf_env [simp]:
  "node_wf G L (s\<lparr>n_clock := a\<rparr>) = node_wf G L s" "node_wf G L (s\<lparr>n_rand := b\<rparr>) = node_wf G L s"
  "node_wf G L (s\<lparr>n_spawns := c\<rparr>) = node_wf G L s" "node_wf G L (s\<lparr>n_threads := d\<rparr>) = node_wf G L s"
  "node_wf G L (s\<lparr>n_vnet := e\<rparr>) = node_wf G L s"
  by (simp_all add: node_wf_def)

lemma node_wf_rd:
  assumes "node_wf G L s" and "rd_ok rd" and "dp_blocks rd = dp_blocks (n_rd s)"
    and "\<And>d. points_to rd d \<Longrightarrow> d \<in> L"
  shows "node_wf G L (s\<lparr>n_rd := rd\<rparr>)"
proof -
  have "dp_mac (s\<lparr>n_rd := rd\<rparr>) = dp_mac s" by (rule dp_mac_cong) (simp add: assms(3))
  with assms show ?thesis by (simp add: node_wf_def)
qed

lemma node_wf_peer:
  assumes "node_wf G L s" and "n_peers s d = Some dp0" and "\<not> wlock dp"
  shows "node_wf G L (s\<lparr>n_peers := (n_peers s)(d \<mapsto> dp)\<rparr>)"
proof -
  have "d < n_next s" using node_wfD(4)[OF assms(1), of d] assms(2) by (cases "n_next s \<le> d") simp_all
  with assms show ?thesis by (auto simp: node_wf_def)
qed

lemma node_wf_with_peer:
  assumes "node_wf G L s" and "with_peer d f s = Some (r, s')"
    and "\<And>dp dp' r. \<not> wlock dp \<Longrightarrow> f dp = Some (r, dp') \<Longrightarrow> \<not> wlock dp'"
  shows "node_wf G L s'"
proof -
  from assms(2) obtain dp dp' where "n_peers s d = Some dp" "f dp = Some (r, dp')"
    "s' = s\<lparr>n_peers := (n_peers s)(d \<mapsto> dp')\<rparr>" by (auto simp: with_peer_def bind_Some_iff)
  moreover have "\<not> wlock dp'" using node_wfD(6)[OF assms(1)] assms(3) calculation(1,2) by blast
  ultimately show ?thesis using node_wf_peer[OF assms(1), of d dp dp'] by simp
qed

lemma node_wf_malloc: "node_wf G L s \<Longrightarrow> malloc s = (True, s)"
  by (auto simp: malloc_def node_wf_def rd_ok_def)

lemma node_wf_gettimeofday: "node_wf G L s \<Longrightarrow> node_wf G L (snd (gettimeofday s))"
  by (auto simp: gettimeofday_def split: list.splits)

section \<open>Sending and receiving keep the lock free\<close>

lemma recv_wlock: "recv n dp = Some (r, dp') \<Longrightarrow> wlock dp' = wlock dp"
  by (auto simp: recv_def bind_Some_iff Let_def)

lemma dp_recv_header_wlock: "dp_recv_header dp = Some (r, dp') \<Longrightarrow> wlock dp' = wlock dp"
  by (auto simp: dp_recv_header_def bind_Some_iff Let_def split: if_splits dest!: recv_wlock)

lemma dp_send_packet_con: "dp_send_packet type len data dp = Some r \<Longrightarrow> (\<exists>c. con_fd dp = Some c) \<and> unat len \<le> length data"
  by (auto simp: dp_send_packet_def dp_psend_start_def dp_psend_data_def mutex_lock_def bind_Some_iff split: if_splits)

lemma dp_send_packet_wlock:
  assumes "\<not> wlock dp" and "dp_send_packet type len data dp = Some (r, dp')"
  shows "\<not> wlock dp'"
proof -
  from dp_send_packet_con[OF assms(2)] obtain c where c: "con_fd dp = Some c" "unat len \<le> length data" by auto
  show ?thesis by (rule dp_send_packet_cases[OF c(1) assms(1) c(2), of type]) (use assms in auto)
qed

lemma dp_send_linkstate_wlock:
  assumes "\<not> wlock dp" and "dp_send_linkstate me es dp = Some (r, dp')"
  shows "\<not> wlock dp'"
proof -
  from assms(2) obtain c where c: "con_fd dp = Some c"
    by (auto simp: dp_send_linkstate_def dp_psend_start_def dp_psend_data_def mutex_lock_def bind_Some_iff split: if_splits)
  let ?lpkt = "le_bytes 2 (htons (of_nat (length es))) @ host_bytes (pkt_ipv4_pack me)"
  let ?len = "of_nat (PL_EDGE * length es + PL_LINK_GRAPH_STATIC)"
  show ?thesis
  proof (cases rule: dp_psend_start_cases[OF c assms(1), of PT_LINK_GRAPH ?len ?lpkt])
    case (1 as)
    let ?c = "sent (packet PT_LINK_GRAPH ?len ?lpkt) as c"
    let ?m = "dp\<lparr>wlock := True, con_fd := Some ?c\<rparr>"
    have m: "con_fd ?m = Some ?c" "wlock ?m" by simp_all
    show ?thesis
      by (rule dp_psend_data_cases[OF m, of "concat (map edge_bytes es)"])
        (use 1 assms(2) in \<open>auto simp: dp_send_linkstate_def Let_def mutex_unlock_def\<close>)
  qed (use assms(2) in \<open>auto simp: dp_send_linkstate_def Let_def\<close>)
qed

lemma dp_handle_probe_req_wlock:
  assumes "\<not> wlock dp" and "dp_handle_probe_req dp = Some (r, dp')"
  shows "\<not> wlock dp'"
  using assms
  by (auto simp: dp_handle_probe_req_def bind_Some_iff split: if_splits
      dest!: recv_wlock dp_send_packet_wlock[rotated])

section \<open>Peers that are not in use\<close>

lemma dpg_wf_cong:
  assumes "\<And>q. q \<in> set (peers g) \<Longrightarrow> mac' q = mac q"
  shows "dpg_wf mac' g = dpg_wf mac g"
proof -
  have m: "map mac' (peers g) = map mac (peers g)" using assms by simp
  have asc: "ascending mac' (peers g) = ascending mac (peers g)" by (rule ascending_cong) (use assms in blast)
  show ?thesis unfolding dpg_wf_def table_wf_def m asc ..
qed

lemma dp_blocks_set: "dp_blocks (s\<lparr>ipheap := (ipheap s)(IP_Dp d := v)\<rparr>) = (dp_blocks s)(d := v)"
  by (auto simp: fun_eq_iff dp_blocks_def)

lemma rd_ok_dp_block:
  assumes "rd_ok rd" and "\<not> points_to rd d"
  shows "rd_ok (rd\<lparr>ipheap := (ipheap rd)(IP_Dp d := v)\<rparr>)"
  using assms rt_wf_dp_block[OF rd_okD(1)[OF assms(1)] assms(2)] by (simp add: rd_ok_def)

text \<open>The address of such a peer may be set, and the peer may be freed.\<close>

lemma node_wf_block:
  assumes wf: "node_wf G L s" and un: "d \<notin> G \<union> L" and live: "v \<noteq> None \<Longrightarrow> n_peers s d \<noteq> None"
  shows "node_wf G L (s\<lparr>n_rd := (n_rd s)\<lparr>ipheap := (ipheap (n_rd s))(IP_Dp d := v)\<rparr>\<rparr>)" (is "node_wf G L ?s")
proof -
  have un': "\<not> points_to (n_rd s) d" "d \<notin> set (peers (n_dpg s))" using wf un by (auto simp: node_wf_def)
  have "rd_ok (n_rd ?s)" using rd_ok_dp_block[OF node_wfD(1)[OF wf] un'(1)] by simp
  moreover have "dpg_wf (dp_mac ?s) (n_dpg s) = dpg_wf (dp_mac s) (n_dpg s)"
    by (rule dpg_wf_cong) (use un' in \<open>auto simp: dp_mac_blocks dp_blocks_set\<close>)
  ultimately show ?thesis using wf live by (auto simp: node_wf_def dp_blocks_set)
qed

lemma node_wf_set_dp_host:
  assumes "node_wf G L s" and "d \<notin> G \<union> L" and "n_peers s d \<noteq> None"
  shows "node_wf G L (set_dp_host d h s)"
  unfolding set_dp_host_def by (rule node_wf_block) (use assms in auto)

lemma node_wf_cleanup:
  assumes wf: "node_wf G L s" and un: "d \<notin> G \<union> L"
  shows "node_wf G L (dp_cleanup_1 d s)"
proof -
  let ?t = "s\<lparr>n_rd := (n_rd s)\<lparr>ipheap := (ipheap (n_rd s))(IP_Dp d := None)\<rparr>\<rparr>"
  have t: "node_wf G L ?t" by (rule node_wf_block[OF wf un]) simp
  have "dp_blocks (n_rd ?t) d = None" by (simp add: dp_blocks_set)
  with t un have "node_wf G L (?t\<lparr>n_peers := (n_peers ?t)(d := None)\<rparr>)" by (auto simp: node_wf_def)
  then show ?thesis by (simp add: dp_cleanup_1_def)
qed

section \<open>New peers\<close>

lemma node_wf_spawn:
  "node_wf G L (snd (dp_spawn_th th s)) = node_wf G L s" "n_peers (snd (dp_spawn_th th s)) = n_peers s"
  by (simp_all add: dp_spawn_th_def Let_def split: list.splits)

lemma dp_create_1_keeps:
  assumes wf: "node_wf G L s"
  obtains s' where "dp_create_1 s = (0, n_next s, s')" "node_wf G L s'" "n_next s \<notin> G \<union> L"
    "n_peers s' (n_next s) \<noteq> None" "n_next s' = n_next s + 1"
proof -
  have un: "n_next s \<notin> G \<union> L" using node_wfD(4,9)[OF wf] by (auto simp: domIff)
  let ?dp = "(n_fresh s (n_next s))\<lparr>con_fd := None, wlock := False\<rparr>"
  show thesis
    by (rule that[of "s\<lparr>n_peers := (n_peers s)(n_next s \<mapsto> ?dp), n_next := n_next s + 1\<rparr>"])
      (use un wf in \<open>auto simp: dp_create_1_def node_wf_malloc[OF wf] Let_def node_wf_def\<close>)
qed

lemma dp_create_linkstate_keeps:
  assumes wf: "node_wf G L s"
  shows "node_wf G L (snd (dp_create_linkstate h s))"
proof -
  obtain s1 where s1: "dp_create_1 s = (0, n_next s, s1)" "node_wf G L s1" "n_next s \<notin> G \<union> L"
    "n_peers s1 (n_next s) \<noteq> None" by (rule dp_create_1_keeps[OF wf])
  let ?t = "set_dp_host (n_next s) h s1"
  have t: "node_wf G L ?t" by (rule node_wf_set_dp_host[OF s1(2-4)])
  obtain r u where u: "dp_spawn_th (Th_Linkstate (n_next s)) ?t = (r, u)" by (rule prod.exhaust)
  then have "node_wf G L u" using t node_wf_spawn(1)[of G L "Th_Linkstate (n_next s)" ?t] by simp
  with s1(1,3) u node_wf_malloc[OF t] node_wf_cleanup show ?thesis
    by (simp add: dp_create_linkstate_def Let_def)
qed

lemma connect_peer_keeps:
  assumes wf: "node_wf G L s" and res: "connect_peer h s = Some s'"
  shows "node_wf G L s'"
proof -
  obtain now s1 where n: "gettimeofday s = (now, s1)" by (rule prod.exhaust)
  have s1: "node_wf G L s1" using node_wf_gettimeofday[OF wf] n by simp
  obtain ret c pc al where run: "pcon_connect now (n_pc s1) h (allocs (n_rd s1)) = Some (ret, c, pc, al)"
    and s': "s' = (let t = s1\<lparr>n_pc := pc, n_rd := (n_rd s1)\<lparr>allocs := al\<rparr>\<rparr> in if c then snd (dp_create_linkstate h t) else t)"
    using res n by (auto simp: connect_peer_def bind_Some_iff Let_def)
  have al0: "allocs (n_rd s1) = []" using rd_okD(4)[OF node_wfD(1)[OF s1]] .
  have "pcon_wf pc" "al = []" using pcon_connect_keeps[OF node_wfD(3)[OF s1] run] al0 by simp_all
  moreover have "rd_ok ((n_rd s1)\<lparr>allocs := []\<rparr>)" using node_wfD(1)[OF s1] by (simp add: rd_ok_def)
  ultimately have "node_wf G L (s1\<lparr>n_pc := pc, n_rd := (n_rd s1)\<lparr>allocs := al\<rparr>\<rparr>)"
    using node_wf_rd[of G L "s1\<lparr>n_pc := pc\<rparr>" "(n_rd s1)\<lparr>allocs := []\<rparr>"] s1 by (simp add: node_wf_def)
  with s' dp_create_linkstate_keeps show ?thesis by (simp add: Let_def)
qed

section \<open>Steps that change only the peers\<close>

definition all_free :: "node \<Rightarrow> bool" where
  "all_free s \<longleftrightarrow> (\<forall>d dp. n_peers s d = Some dp \<longrightarrow> \<not> wlock dp)"

definition peers_only :: "node \<Rightarrow> node \<Rightarrow> bool" where
  "peers_only s t \<longleftrightarrow> n_rd t = n_rd s \<and> n_dpg t = n_dpg s \<and> n_pc t = n_pc s \<and> n_next t = n_next s \<and>
     dom (n_peers t) = dom (n_peers s) \<and> (all_free s \<longrightarrow> all_free t)"

lemma peers_only_refl [simp]: "peers_only s s"
  by (simp add: peers_only_def)

lemma peers_only_trans: "peers_only s t \<Longrightarrow> peers_only t u \<Longrightarrow> peers_only s u"
  by (simp add: peers_only_def)

lemma peers_only_sel:
  assumes "peers_only s t"
  shows "n_rd t = n_rd s" "n_dpg t = n_dpg s" "n_pc t = n_pc s" "n_next t = n_next s" "dp_mac t = dp_mac s"
    "dom (n_peers t) = dom (n_peers s)"
proof -
  show eq: "n_rd t = n_rd s" "n_dpg t = n_dpg s" "n_pc t = n_pc s" "n_next t = n_next s"
    "dom (n_peers t) = dom (n_peers s)" using assms by (simp_all add: peers_only_def)
  show "dp_mac t = dp_mac s" by (rule dp_mac_cong) (simp add: eq)
qed

lemma node_wf_dom:
  "node_wf G L s \<longleftrightarrow>
     rd_ok (n_rd s) \<and> dpg_wf (dp_mac s) (n_dpg s) \<and> pcon_wf (n_pc s) \<and>
     (\<forall>d\<ge>n_next s. d \<notin> dom (n_peers s)) \<and>
     (\<forall>d. dp_blocks (n_rd s) d \<noteq> None \<longrightarrow> d \<in> dom (n_peers s)) \<and> all_free s \<and>
     set (peers (n_dpg s)) \<subseteq> G \<and> (\<forall>d. points_to (n_rd s) d \<longrightarrow> d \<in> L) \<and> G \<union> L \<subseteq> dom (n_peers s)"
  by (simp add: node_wf_def all_free_def domIff)

lemma node_wf_peers_only:
  assumes po: "peers_only s t" and wf: "node_wf G L s"
  shows "node_wf G L t"
proof -
  have "all_free t" using po wf by (simp add: peers_only_def node_wf_dom)
  with wf show ?thesis unfolding node_wf_dom peers_only_sel[OF po] by blast
qed

lemma all_free_rd [simp]: "all_free (s\<lparr>n_rd := rd\<rparr>) = all_free s" "all_free (s\<lparr>n_dpg := g\<rparr>) = all_free s"
  by (simp_all add: all_free_def)

lemma peers_only_put:
  "peers_only (s\<lparr>n_rd := rd\<rparr>) u \<Longrightarrow> peers_only (s\<lparr>n_rd := rd'\<rparr>) (u\<lparr>n_rd := rd'\<rparr>)"
  "peers_only (s\<lparr>n_rd := rd\<rparr>) u \<Longrightarrow> peers_only s (u\<lparr>n_rd := n_rd s\<rparr>)"
  "peers_only (s\<lparr>n_dpg := g, n_rd := rd\<rparr>) u \<Longrightarrow> peers_only s (u\<lparr>n_rd := n_rd s, n_dpg := n_dpg s\<rparr>)"
  by (simp_all add: peers_only_def)

lemma peers_only_with_peer:
  assumes "with_peer d f s = Some (r, s')"
    and "\<And>dp dp' r. \<not> wlock dp \<Longrightarrow> f dp = Some (r, dp') \<Longrightarrow> \<not> wlock dp'"
  shows "peers_only s s'"
proof -
  from assms(1) obtain dp dp' where dp: "n_peers s d = Some dp" "f dp = Some (r, dp')"
    "s' = s\<lparr>n_peers := (n_peers s)(d \<mapsto> dp')\<rparr>" by (auto simp: with_peer_def bind_Some_iff)
  moreover have "\<not> wlock dp \<longrightarrow> \<not> wlock dp'" using assms(2) dp(2) by blast
  ultimately show ?thesis by (auto simp: peers_only_def all_free_def)
qed

lemma peers_only_foldM:
  assumes "foldM f xs s = Some t" and "\<And>x s s'. f x s = Some s' \<Longrightarrow> peers_only s s'"
  shows "peers_only s t"
  using assms(1)
proof (rule foldM_invariant[where P = "peers_only s"])
  fix x u u' assume "peers_only s u" "f x u = Some u'"
  with assms(2) show "peers_only s u'" by (blast intro: peers_only_trans)
qed simp

lemma send_frame_to_peers:
  assumes "send_frame_to pkt a s = Some s'"
  shows "peers_only s s'"
proof -
  from assms obtain d r where "with_peer d (dp_send_data pkt (length pkt)) s = Some (r, s')"
    by (auto simp: send_frame_to_def split: ip_ptr.splits)
  then show ?thesis
    by (rule peers_only_with_peer) (simp add: dp_send_data_def dp_send_packet_wlock)
qed

lemma send_linkstate_to_peers:
  assumes "send_linkstate_to es d s = Some s'"
  shows "peers_only s s'"
proof -
  from assms obtain r where "with_peer d (dp_send_linkstate (own_host s) es) s = Some (r, s')"
    by (auto simp: send_linkstate_to_def)
  then show ?thesis by (rule peers_only_with_peer) (simp add: dp_send_linkstate_wlock)
qed

section \<open>Frames and link state\<close>

lemma unlock_last_reader:
  "lock s = RW_Read 1 \<or> lock s = RW_Free \<Longrightarrow> unlock s = Some t \<Longrightarrow> reads s t \<and> lock t = RW_Free"
  using unlock_reads[of s t] by (auto simp: unlock_def)

lemma forward_frame_keeps:
  assumes wf: "node_wf G L s" and res: "forward_frame src dst pkt s = Some (r, s')"
  shows "node_wf G L s'"
proof -
  from res obtain ret hs rd where rt: "rt_dhosts_to_host (n_rd s) src dst = Some (ret, hs, rd)"
    by (auto simp: forward_frame_def bind_Some_iff)
  note e = rt_dhosts_to_host_ends[OF node_wfD(1)[OF wf] rt]
  have put: "node_wf G L (s\<lparr>n_rd := rd'\<rparr>)" if "reads (n_rd s) rd'" "lock rd' = RW_Free" for rd'
    by (rule node_wf_rd[OF wf reads_rd_ok[OF that(1) node_wfD(1)[OF wf] that(2)] reads_dp[OF that(1)]])
      (use node_wfD(8)[OF wf] reads_points[OF that(1)] in simp)
  show ?thesis
  proof (cases "ret < 0")
    case True
    with e rt res put[of rd] show ?thesis by (auto simp: forward_frame_def)
  next
    case False
    with rt res obtain u rd' where u: "foldM (send_frame_to pkt) hs (s\<lparr>n_rd := rd\<rparr>) = Some u"
      "unlock (n_rd u) = Some rd'" "s' = u\<lparr>n_rd := rd'\<rparr>"
      by (auto simp: forward_frame_def bind_Some_iff rt_hosts_free_def)
    have po: "peers_only (s\<lparr>n_rd := rd\<rparr>) u" by (rule peers_only_foldM[OF u(1) send_frame_to_peers])
    then have rdu: "n_rd u = rd" by (simp add: peers_only_sel)
    have "reads rd rd'" "lock rd' = RW_Free" using unlock_last_reader[of rd rd'] e(2) u(2) rdu by auto
    with put[OF reads_trans[OF e(1)]] have "node_wf G L (s\<lparr>n_rd := rd'\<rparr>)" by simp
    moreover have "peers_only (s\<lparr>n_rd := rd'\<rparr>) s'" using peers_only_put(1)[OF po] u(3) by simp
    ultimately show ?thesis by (rule node_wf_peers_only[rotated])
  qed
qed

lemma rt_edges_keeps:
  assumes "rd_ok rd" and "rt_get_edges rd = Some (es, n, rd1)" and "rt_edges_free rd1 = Some rd2"
  shows "rd2 = rd"
  using assms by (auto simp: rd_ok_def rt_get_edges_def rt_edges_free_def rdlock_def unlock_def bind_Some_iff)

lemma dp_send_peer_linkstate_keeps:
  assumes wf: "node_wf G L s" and res: "dp_send_peer_linkstate d s = Some (r, s')"
  shows "peers_only s s'" and "node_wf G L s'"
proof -
  from res obtain es n rd u rd' where u: "rt_get_edges (n_rd s) = Some (es, n, rd)"
    "with_peer d (dp_send_linkstate (own_host s) es) (s\<lparr>n_rd := rd\<rparr>) = Some (r, u)"
    "rt_edges_free (n_rd u) = Some rd'" "s' = u\<lparr>n_rd := rd'\<rparr>"
    by (auto simp: dp_send_peer_linkstate_def bind_Some_iff)
  have po: "peers_only (s\<lparr>n_rd := rd\<rparr>) u"
    by (rule peers_only_with_peer[OF u(2)]) (simp add: dp_send_linkstate_wlock)
  then have "n_rd u = rd" by (simp add: peers_only_sel)
  with rt_edges_keeps[OF node_wfD(1)[OF wf] u(1)] u(3) have "rd' = n_rd s" by simp
  with peers_only_put(2)[OF po] u(4) show "peers_only s s'" by simp
  then show "node_wf G L s'" using wf by (rule node_wf_peers_only)
qed

lemma dpg_send_linkstate_keeps:
  assumes wf: "node_wf G L s" and res: "dpg_send_linkstate s = Some (r, s')"
  shows "peers_only s s'" and "node_wf G L s'"
proof -
  have free: "g_lock (n_dpg s) = RW_Free" using node_wfD(2)[OF wf] by (simp add: dpg_wf_def)
  let ?g = "(n_dpg s)\<lparr>g_lock := RW_Read 1\<rparr>"
  from res free obtain es n rd u rd' g where u: "rt_get_edges (n_rd s) = Some (es, n, rd)"
    "foldM (send_linkstate_to es) (peers ?g) (s\<lparr>n_dpg := ?g, n_rd := rd\<rparr>) = Some u"
    "rt_edges_free (n_rd u) = Some rd'" "g_unlock (n_dpg u) = Some g" "s' = u\<lparr>n_rd := rd', n_dpg := g\<rparr>"
    by (auto simp: dpg_send_linkstate_def bind_Some_iff g_rdlock_def)
  have po: "peers_only (s\<lparr>n_dpg := ?g, n_rd := rd\<rparr>) u"
    by (rule peers_only_foldM[OF u(2) send_linkstate_to_peers])
  then have eq: "n_rd u = rd" "n_dpg u = ?g" by (simp_all add: peers_only_sel)
  from rt_edges_keeps[OF node_wfD(1)[OF wf] u(1)] u(3) eq have "rd' = n_rd s" by simp
  moreover have "g = n_dpg s" using u(4) eq free by (auto simp: g_unlock_def)
  ultimately show "peers_only s s'" using peers_only_put(3)[OF po] u(5) by simp
  then show "node_wf G L s'" using wf by (rule node_wf_peers_only)
qed

section \<open>Packets\<close>

lemma recv_peers: "with_peer d (recv n) s = Some (r, s') \<Longrightarrow> peers_only s s'"
  by (erule peers_only_with_peer) (simp add: recv_wlock)

lemma dp_recv_header_peers: "with_peer d dp_recv_header s = Some (r, s') \<Longrightarrow> peers_only s s'"
  by (erule peers_only_with_peer) (simp add: dp_recv_header_wlock)

lemma dp_send_packet_peers: "with_peer d (dp_send_packet t l bs) s = Some (r, s') \<Longrightarrow> peers_only s s'"
  by (erule peers_only_with_peer) (simp add: dp_send_packet_wlock)

lemma dp_send_probe_req_keeps:
  assumes "dp_send_probe_req d s = Some (r, s')"
  shows "peers_only s s'"
proof -
  obtain q s1 now s2 where q: "rand s = (q, s1)" "gettimeofday s1 = (now, s2)" by (meson prod.exhaust)
  then have po: "peers_only s s2"
    by (auto simp: rand_def gettimeofday_def peers_only_def all_free_def split: list.splits)
  have peers: "n_peers s2 = n_peers s1" using q(2) by (auto simp: gettimeofday_def split: list.splits)
  from assms q obtain dp where dp: "n_peers s1 d = Some dp"
    "with_peer d (dp_send_packet PT_PROBE_REQ (of_nat PL_PROBE_REQ) (le_bytes 2 q))
       (s2\<lparr>n_peers := (n_peers s2)(d \<mapsto> dp\<lparr>probe_seq := q, probe_send_time := now\<rparr>)\<rparr>) = Some (r, s')"
    by (auto simp: dp_send_probe_req_def bind_Some_iff)
  have "peers_only s2 (s2\<lparr>n_peers := (n_peers s2)(d \<mapsto> dp\<lparr>probe_seq := q, probe_send_time := now\<rparr>)\<rparr>)"
    using dp(1) peers by (auto simp: peers_only_def all_free_def)
  with po dp_send_packet_peers[OF dp(2)] show ?thesis by (blast intro: peers_only_trans)
qed

text \<open>Adding or refreshing the link to a peer.\<close>

lemma add_link_keeps:
  assumes wf: "node_wf G L s" and res: "rt_dhost_add_link now (n_rd s) (IP_Dp d) rtt = Some (r, rd)"
  shows "d \<in> L \<Longrightarrow> node_wf G L (s\<lparr>n_rd := rd\<rparr>)" and "r \<noteq> 0 \<Longrightarrow> s\<lparr>n_rd := rd\<rparr> = s"
    and "node_wf G (insert d L) (s\<lparr>n_rd := rd\<rparr>)"
proof -
  have ok: "rd_ok (n_rd s)" using wf by (rule node_wfD)
  obtain ip where ip: "ipheap (n_rd s) (IP_Dp d) = Some ip" using rt_dhost_add_link_reads[OF rd_okD(1)[OF ok] res] by auto
  have keep: "rd_ok rd" by (rule rt_dhost_add_link_keeps[OF ok ip _ res]) simp
  have pts: "points_to rd e \<Longrightarrow> e \<in> insert d L" for e
    using rt_dhost_add_link_points[OF ok res] node_wfD(8)[OF wf] by blast
  have put: "node_wf G L' (s\<lparr>n_rd := rd\<rparr>)" if "insert d L \<subseteq> L'" "node_wf G L' s" for L'
    by (rule node_wf_rd[OF that(2) keep rt_dhost_add_link_dp[OF res]]) (use pts that(1) in blast)
  from put[of L] wf show "d \<in> L \<Longrightarrow> node_wf G L (s\<lparr>n_rd := rd\<rparr>)" by (simp add: insert_absorb)
  have "dp_blocks (n_rd s) d \<noteq> None" using ip by (simp add: dp_blocks_def)
  then have "node_wf G (insert d L) s" using wf by (auto simp: node_wf_def)
  then show "node_wf G (insert d L) (s\<lparr>n_rd := rd\<rparr>)" by (rule put[OF order_refl])
  show "r \<noteq> 0 \<Longrightarrow> s\<lparr>n_rd := rd\<rparr> = s" using rt_dhost_add_link_refused[OF ok res] by simp
qed

lemma dp_handle_probe_resp_keeps:
  assumes wf: "node_wf G L s" and d: "d \<in> L" and res: "dp_handle_probe_resp d s = Some (r, s')"
  shows "node_wf G L s'"
proof -
  from res obtain x req s1 where s1: "with_peer d (recv PL_PROBE_RESP) s = Some ((x, req), s1)"
    by (auto simp: dp_handle_probe_resp_def bind_Some_iff)
  have wf1: "node_wf G L s1" by (rule node_wf_peers_only[OF recv_peers[OF s1] wf])
  show ?thesis
  proof (cases "x \<noteq> int PL_PROBE_REQ")
    case True
    with res s1 wf1 show ?thesis by (simp add: dp_handle_probe_resp_def)
  next
    case False
    with res s1 obtain dp where dp: "n_peers s1 d = Some dp" by (auto simp: dp_handle_probe_resp_def bind_Some_iff)
    show ?thesis
    proof (cases "of_le_bytes req = probe_seq dp")
      case True
      obtain tv s2 where t: "gettimeofday s1 = (tv, s2)" by (rule prod.exhaust)
      let ?us = "word_of_int (tv_us (timersub tv (probe_send_time dp)))"
      let ?s3 = "s2\<lparr>n_peers := (n_peers s2)(d \<mapsto> dp\<lparr>rtt_tv := timersub tv (probe_send_time dp), rtt_us := ?us\<rparr>)\<rparr>"
      obtain now s4 where n: "gettimeofday ?s3 = (now, s4)" by (rule prod.exhaust)
      have peers: "n_peers s2 = n_peers s1" using t by (auto simp: gettimeofday_def split: list.splits)
      have wf2: "node_wf G L s2" using node_wf_gettimeofday[OF wf1] t by simp
      have "n_peers s2 d = Some dp" "\<not> wlock dp" using dp peers node_wfD(6)[OF wf1] by auto
      then have "node_wf G L ?s3" using node_wf_peer[OF wf2, of d dp] by simp
      then have wf4: "node_wf G L s4" using node_wf_gettimeofday[of G L ?s3] n by simp
      from res s1 False dp True t n obtain rd where
        "rt_dhost_add_link now (n_rd s4) (IP_Dp d) ?us = Some (r, rd)" "s' = s4\<lparr>n_rd := rd\<rparr>"
        by (auto simp: dp_handle_probe_resp_def bind_Some_iff Let_def)
      with add_link_keeps(1)[OF wf4 _ d] show ?thesis by simp
    next
      case False
      with \<open>\<not> x \<noteq> _\<close> res s1 dp wf1 show ?thesis by (simp add: dp_handle_probe_resp_def)
    qed
  qed
qed

lemma connect_edges_keeps:
  assumes "node_wf G L s" and "foldM connect_edge es s = Some t"
  shows "node_wf G L t"
  using assms(2,1)
proof (rule foldM_invariant)
  fix e u u' assume "node_wf G L u" "connect_edge e u = Some u'"
  then show "node_wf G L u'" by (auto simp: connect_edge_def bind_Some_iff dest: connect_peer_keeps)
qed

lemma populate_mac_keeps:
  assumes "node_wf G L s" and "d \<notin> G \<union> L" and "n_peers s d \<noteq> None" and "populate_mac d plink s = Some s'"
  shows "node_wf G L s'"
  using assms by (auto simp: populate_mac_def bind_Some_iff intro!: node_wf_set_dp_host split: if_splits)

lemma dp_read_pkt_link_graph_keeps:
  assumes wf: "node_wf G L s" and res: "dp_read_pkt_link_graph d n populate s = Some (r, s')"
    and pop: "populate \<Longrightarrow> d \<notin> G \<union> L"
  shows "node_wf G L s'"
proof -
  from res obtain x plink s1 where s1: "with_peer d (recv n) s = Some ((x, plink), s1)"
    by (auto simp: dp_read_pkt_link_graph_def node_wf_malloc[OF wf] bind_Some_iff)
  have po: "peers_only s s1" by (rule recv_peers[OF s1])
  have wf1: "node_wf G L s1" by (rule node_wf_peers_only[OF po wf])
  note def = dp_read_pkt_link_graph_def node_wf_malloc[OF wf] s1
  show ?thesis
  proof (cases "x = int n")
    case True
    with res obtain s2 where s2: "(if populate then populate_mac d plink s1 else Some s1) = Some s2"
      by (auto simp: def bind_Some_iff)
    have wf2: "node_wf G L s2"
    proof (cases populate)
      case True
      have "n_peers s1 d \<noteq> None" using s1 by (auto simp: with_peer_def bind_Some_iff)
      with populate_mac_keeps[OF wf1 pop[OF True]] s2 True show ?thesis by simp
    qed (use s2 wf1 in simp)
    let ?e = "link_edge_ct n" and ?es = "edges_of_bytes (unat (link_edge_ct n)) (drop PL_LINK_GRAPH_STATIC plink)"
    show ?thesis
    proof (cases "?e = ntohs (of_le_bytes (take 2 plink))")
      case same: True
      with res True s2 obtain s3 rd where s3: "foldM connect_edge ?es s2 = Some s3"
        "rt_update_edges (n_rd s3) ?es = Some (r, rd)" "s' = s3\<lparr>n_rd := rd\<rparr>"
        by (auto simp: def bind_Some_iff Let_def split: if_splits)
      have wf3: "node_wf G L s3" by (rule connect_edges_keeps[OF wf2 s3(1)])
      have "node_wf G L (s3\<lparr>n_rd := rd\<rparr>)"
        by (rule node_wf_rd[OF wf3 rt_update_edges_keeps(2)[OF node_wfD(1)[OF wf3] s3(2)] rt_update_edges_dp[OF s3(2)]])
          (use node_wfD(8)[OF wf3] rt_update_edges_points[OF node_wfD(1)[OF wf3] s3(2)] in blast)
      with s3(3) show ?thesis by simp
    qed (use res True s2 wf2 in \<open>auto simp: def Let_def split: if_splits\<close>)
  qed (use res wf1 in \<open>auto simp: def\<close>)
qed

lemma dp_recv_data_keeps:
  assumes wf: "node_wf G L s" and res: "dp_recv_data d n s = Some (r, s')"
  shows "node_wf G L s'"
proof -
  from res obtain x pkt s1 where s1: "with_peer d (recv n) s = Some ((x, pkt), s1)"
    by (auto simp: dp_recv_data_def node_wf_malloc[OF wf] bind_Some_iff)
  have wf1: "node_wf G L s1" by (rule node_wf_peers_only[OF recv_peers[OF s1] wf])
  with res s1 show ?thesis
    by (auto simp: dp_recv_data_def node_wf_malloc[OF wf] bind_Some_iff split: if_splits
        dest: forward_frame_keeps[OF wf1])
qed

lemma dp_recv_flush_keeps:
  assumes wf: "node_wf G L s" and res: "dp_recv_flush d n s = Some (r, s')"
  shows "node_wf G L s'"
  using res wf
  by (auto simp: dp_recv_flush_def node_wf_malloc[OF wf] bind_Some_iff intro: node_wf_peers_only dest!: recv_peers)

text \<open>Whatever a peer sends, the invariant survives.\<close>

lemma dp_recv_packet_keeps:
  assumes wf: "node_wf G L s" and d: "d \<in> L" and res: "dp_recv_packet d s = Some (r, s')"
  shows "node_wf G L s'"
proof -
  from res obtain ret ty len s1 where s1: "with_peer d dp_recv_header s = Some ((ret, ty, len), s1)"
    by (auto simp: dp_recv_packet_def bind_Some_iff)
  have wf1: "node_wf G L s1" by (rule node_wf_peers_only[OF dp_recv_header_peers[OF s1] wf])
  have req: "node_wf G L s'" if "with_peer d dp_handle_probe_req s1 = Some (r, s')"
    by (rule node_wf_with_peer[OF wf1 that]) (rule dp_handle_probe_req_wlock)
  from res s1 wf1 req show ?thesis
    by (auto simp: dp_recv_packet_def split: if_splits
        dest: dp_recv_data_keeps dp_recv_flush_keeps dp_handle_probe_resp_keeps[OF _ d] dp_read_pkt_link_graph_keeps)
qed

end
