(* ===== verification/Node_Steps.thy ===== *)
theory Node_Steps
  imports Node
begin

text \<open>
  The threads of the process side by side: one step is one call that a thread makes on the shared
  data or on its connection, so that the reachable states are those of every interleaving of such
  calls.  Every reachable state satisfies the invariant, and the thread functions of src/dpeer.c,
  src/vnet.c and src/sock.c are sequences of steps.
\<close>

section \<open>Calls on the group and on the table\<close>

lemma dp_group_insert_keeps:
  assumes wf: "node_wf G L s" and m: "dp_mac s d \<noteq> None" and res: "dp_group_insert d s = Some (r, s')"
  shows "node_wf (if r = 0 then insert d G else G) L s'"
proof -
  from m obtain a where a: "dp_mac s d = Some a" by auto
  have al: "allocs (n_rd s) = []" using rd_okD(4)[OF node_wfD(1)[OF wf]] .
  from res obtain g al' where g: "dpg_insert (dp_mac s) (n_dpg s) d [] = Some (r, g, al')"
    "s' = s\<lparr>n_dpg := g, n_rd := (n_rd s)\<lparr>allocs := al'\<rparr>\<rparr>"
    by (auto simp: dp_group_insert_def al bind_Some_iff)
  have al': "al' = []" using dpg_insert_spare[OF g(1)] .
  then have s': "s' = s\<lparr>n_dpg := g\<rparr>" using g(2) al by simp
  have live: "d \<in> dom (n_peers s)" using node_wfD(5)[OF wf, of d] a by (auto simp: dp_mac_blocks)
  show ?thesis
  proof (cases rule: dpg_insert_cases[OF node_wfD(2)[OF wf] a, of "[]"])
    case (1 q)
    with g(1) have "g = n_dpg s" "r = 1" by auto
    with wf s' show ?thesis by simp
  next
    case (2 al2)
    with g(1) have "g = n_dpg s" "r = - 2" by auto
    with wf s' show ?thesis by simp
  next
    case (3 g2 al2)
    with g(1) have "r = 0" "dpg_wf (dp_mac s) g" "set (peers g) = insert d (set (peers (n_dpg s)))"
      using set_add[of "peers g" d "peers (n_dpg s)"] by auto
    with wf s' live show ?thesis by (auto simp: node_wf_def)
  qed
qed

lemma dp_group_remove_keeps:
  assumes wf: "node_wf G L s" and m: "dp_mac s d \<noteq> None" and res: "dp_group_remove d s = Some (r, s')"
  shows "node_wf (G - {d}) L s'"
proof -
  from m obtain a where a: "dp_mac s d = Some a" by auto
  from res obtain g where g: "dpg_remove (dp_mac s) (n_dpg s) d = Some (r, g)" "s' = s\<lparr>n_dpg := g\<rparr>"
    by (auto simp: dp_group_remove_def bind_Some_iff)
  have "dpg_wf (dp_mac s) g \<and> set (peers g) \<subseteq> set (peers (n_dpg s)) - {d}"
    by (cases rule: dpg_remove_cases[OF node_wfD(2)[OF wf] a]) (use g a node_wfD(2)[OF wf] in auto)
  with wf g(2) show ?thesis by (auto simp: node_wf_def)
qed

lemma dp_first_link_keeps:
  assumes wf: "node_wf G L s" and res: "dp_first_link d s = Some (r, s')"
  shows "node_wf G (if r = 0 then insert d L else L) s'"
proof -
  from res obtain dp where dp: "n_peers s d = Some dp" by (auto simp: dp_first_link_def bind_Some_iff)
  let ?t = "s\<lparr>n_peers := (n_peers s)(d \<mapsto> dp\<lparr>rtt_us := 1000000\<rparr>)\<rparr>"
  obtain now u where u: "gettimeofday ?t = (now, u)" by (rule prod.exhaust)
  have "node_wf G L ?t" by (rule node_wf_peer[OF wf dp]) (use node_wfD(6)[OF wf dp] in simp)
  then have wfu: "node_wf G L u" using node_wf_gettimeofday[of G L ?t] u by simp
  from res dp u obtain rd where "rt_dhost_add_link now (n_rd u) (IP_Dp d) 1000000 = Some (r, rd)" "s' = u\<lparr>n_rd := rd\<rparr>"
    by (auto simp: dp_first_link_def bind_Some_iff Let_def)
  with add_link_keeps(2,3)[OF wfu this(1)] wfu show ?thesis by simp
qed

lemma dp_drop_link_keeps:
  assumes wf: "node_wf G L s" and res: "dp_drop_link d s = Some (r, s')"
  shows "node_wf G (L - {d}) s'"
proof -
  from res obtain m rd where m: "dp_mac s d = Some m" "rt_dhost_remove (n_rd s) m = Some (r, rd)" "s' = s\<lparr>n_rd := rd\<rparr>"
    by (auto simp: dp_drop_link_def bind_Some_iff)
  have ok: "rd_ok (n_rd s)" by (rule node_wfD(1)[OF wf])
  note pts = rt_dhost_remove_points[OF ok m(2)]
  have wf': "node_wf G L s'"
    unfolding m(3) by (rule node_wf_rd[OF wf rt_dhost_remove_keeps(1)[OF ok m(2)] rt_dhost_remove_dp[OF m(2)]])
      (use pts(1) node_wfD(8)[OF wf] in blast)
  moreover have "\<not> points_to (n_rd s') d" using pts(2)[of d] m(1,3) by (auto simp: dp_mac_blocks)
  ultimately show ?thesis by (auto simp: node_wf_def)
qed

section \<open>Calls on a peer that is not in use\<close>

lemma dp_handle_join_keeps:
  assumes wf: "node_wf G L s" and un: "d \<notin> G \<union> L" and res: "dp_handle_join d s = Some (r, s')"
  shows "node_wf G L s'"
proof -
  from res obtain x join s1 where s1: "with_peer d (recv PL_JOIN) s = Some ((x, join), s1)"
    by (auto simp: dp_handle_join_def bind_Some_iff)
  have "n_peers s1 d \<noteq> None" using s1 by (auto simp: with_peer_def bind_Some_iff)
  with res s1 node_wf_set_dp_host[OF node_wf_peers_only[OF recv_peers[OF s1] wf] un] node_wf_peers_only[OF recv_peers[OF s1] wf]
  show ?thesis by (auto simp: dp_handle_join_def split: if_splits)
qed

lemma set_con_peers: "set_con d c s = Some s' \<Longrightarrow> peers_only s s'"
  by (auto simp: set_con_def bind_Some_iff peers_only_def all_free_def split: if_splits)

lemma dp_send_join_peers: "dp_send_join d s = Some (r, s') \<Longrightarrow> peers_only s s'"
  by (simp add: dp_send_join_def Let_def dp_send_packet_peers)

lemma dp_create_incoming_keeps:
  assumes wf: "node_wf G L s" and res: "dp_create_incoming c addr s = Some (r, s')"
  shows "node_wf G L s'"
proof -
  obtain s1 where s1: "dp_create_1 s = (0, n_next s, s1)" "node_wf G L s1" "n_next s \<notin> G \<union> L"
    "n_peers s1 (n_next s) \<noteq> None" by (rule dp_create_1_keeps[OF wf])
  let ?h = "\<lparr>ip_mac = Ether_Addr 0 0 0 0 0 0, ip_in = addr\<rparr>"
  from res s1(1) obtain s2 where s2: "set_con (n_next s) c (set_dp_host (n_next s) ?h s1) = Some s2"
    by (auto simp: dp_create_incoming_def node_wf_malloc[OF wf] bind_Some_iff)
  have wf2: "node_wf G L s2"
    by (rule node_wf_peers_only[OF set_con_peers[OF s2] node_wf_set_dp_host[OF s1(2-4)]])
  obtain e u where u: "dp_spawn_th (Th_Incoming (n_next s)) s2 = (e, u)" by (rule prod.exhaust)
  then have "node_wf G L u" using wf2 node_wf_spawn(1)[of G L "Th_Incoming (n_next s)" s2] by simp
  with res s1(1,3) s2 u node_wf_cleanup show ?thesis
    by (auto simp: dp_create_incoming_def node_wf_malloc[OF wf] split: if_splits)
qed

lemma dp_create_initial_keeps:
  assumes wf: "node_wf G L s"
  shows "node_wf G L (snd (dp_create_initial host port s))"
proof -
  obtain s1 where s1: "dp_create_1 s = (0, n_next s, s1)" "node_wf G L s1" "n_next s \<notin> G \<union> L"
    by (rule dp_create_1_keeps[OF wf])
  obtain e u where u: "dp_spawn_th (Th_Initial (n_next s) host port) s1 = (e, u)" by (rule prod.exhaust)
  then have "node_wf G L u" using s1(2) node_wf_spawn(1)[of G L "Th_Initial (n_next s) host port" s1] by simp
  with s1(1,3) u node_wf_malloc[OF s1(2)] node_wf_cleanup show ?thesis
    by (simp add: dp_create_initial_def Let_def)
qed

text \<open>
  A peer learnt from link state is linked before its first answer is read; the answer then sets its
  address once more.  As long as it is the same address, nothing changes.
\<close>

definition names_itself :: "dptr \<Rightarrow> nat \<Rightarrow> node \<Rightarrow> bool" where
  "names_itself d n s \<longleftrightarrow>
     (case with_peer d (recv n) s of
        Some ((r, plink), t) \<Rightarrow>
          r = int n \<and> PL_LINK_GRAPH_STATIC \<le> length plink \<longrightarrow> dp_mac s d = Some (mac_of_bytes (drop 8 plink))
      | None \<Rightarrow> True)"

lemma populate_mac_same:
  assumes "dp_mac s d = Some (mac_of_bytes (drop 8 plink))" and "populate_mac d plink s = Some s'"
  shows "s' = s"
proof -
  from assms obtain h where h: "ipheap (n_rd s) (IP_Dp d) = Some h" "ip_mac h = mac_of_bytes (drop 8 plink)"
    "s' = set_dp_host d (h\<lparr>ip_mac := mac_of_bytes (drop 8 plink)\<rparr>) s"
    by (auto simp: populate_mac_def dp_mac_def dp_host_def bind_Some_iff split: if_splits)
  then have "h\<lparr>ip_mac := mac_of_bytes (drop 8 plink)\<rparr> = h" by simp
  with h show ?thesis by (simp add: set_dp_host_def fun_upd_idem)
qed

lemma dp_read_pkt_link_graph_named:
  assumes wf: "node_wf G L s" and nm: "names_itself d n s" and res: "dp_read_pkt_link_graph d n True s = Some (r, s')"
  shows "dp_read_pkt_link_graph d n False s = Some (r, s')"
proof -
  from res obtain x plink s1 where s1: "with_peer d (recv n) s = Some ((x, plink), s1)"
    by (auto simp: dp_read_pkt_link_graph_def node_wf_malloc[OF wf] bind_Some_iff)
  have "s2 = s1" if "x = int n" "populate_mac d plink s1 = Some s2" for s2
  proof (rule populate_mac_same)
    have "PL_LINK_GRAPH_STATIC \<le> length plink" using that(2) by (simp add: populate_mac_def split: if_splits)
    with nm s1 that(1) show "dp_mac s1 d = Some (mac_of_bytes (drop 8 plink))"
      using peers_only_sel(5)[OF recv_peers[OF s1]] by (simp add: names_itself_def)
  qed (rule that(2))
  with res s1 show ?thesis
    by (auto simp: dp_read_pkt_link_graph_def node_wf_malloc[OF wf] bind_Some_iff Let_def split: if_splits)
qed

section \<open>The step relation\<close>

text \<open>
  A configuration is the state of the process with the peers that have entered the group and those
  that have added a link.  The conditions are those the threads meet: only a thread whose peer is
  out of the group and the table sets its address or frees it, only a peer with an address enters
  the group, and packets are read by peers that have added their link.
\<close>

type_synonym config = "node \<times> dptr set \<times> dptr set"

inductive node_step :: "config \<Rightarrow> config \<Rightarrow> bool" where
  accept: "dp_create_incoming c addr s = Some (r, s') \<Longrightarrow> node_step (s, G, L) (s', G, L)"
| initial: "dp_create_initial host port s = (r, s') \<Longrightarrow> node_step (s, G, L) (s', G, L)"
| address: "d \<notin> G \<union> L \<Longrightarrow> n_peers s d \<noteq> None \<Longrightarrow> node_step (s, G, L) (set_dp_host d h s, G, L)"
| connected: "set_con d c s = Some s' \<Longrightarrow> node_step (s, G, L) (s', G, L)"
| send_join: "dp_send_join d s = Some (r, s') \<Longrightarrow> node_step (s, G, L) (s', G, L)"
| header: "with_peer d dp_recv_header s = Some (r, s') \<Longrightarrow> node_step (s, G, L) (s', G, L)"
| join: "d \<notin> G \<union> L \<Longrightarrow> dp_handle_join d s = Some (r, s') \<Longrightarrow> node_step (s, G, L) (s', G, L)"
| first_state: "d \<notin> G \<union> L \<or> names_itself d n s \<Longrightarrow> dp_read_pkt_link_graph d n True s = Some (r, s') \<Longrightarrow>
    node_step (s, G, L) (s', G, L)"
| peer_state: "dp_send_peer_linkstate d s = Some (r, s') \<Longrightarrow> node_step (s, G, L) (s', G, L)"
| enter: "dp_mac s d \<noteq> None \<Longrightarrow> dp_group_insert d s = Some (r, s') \<Longrightarrow>
    node_step (s, G, L) (s', if r = 0 then insert d G else G, L)"
| leave: "dp_mac s d \<noteq> None \<Longrightarrow> dp_group_remove d s = Some (r, s') \<Longrightarrow> node_step (s, G, L) (s', G - {d}, L)"
| link: "dp_first_link d s = Some (r, s') \<Longrightarrow> node_step (s, G, L) (s', G, if r = 0 then insert d L else L)"
| unlink: "dp_drop_link d s = Some (r, s') \<Longrightarrow> node_step (s, G, L) (s', G, L - {d})"
| free: "d \<notin> G \<union> L \<Longrightarrow> node_step (s, G, L) (dp_cleanup_1 d s, G, L)"
| receive: "d \<in> L \<Longrightarrow> dp_recv_packet d s = Some (r, s') \<Longrightarrow> node_step (s, G, L) (s', G, L)"
| probe: "dp_send_probe_req d s = Some (r, s') \<Longrightarrow> node_step (s, G, L) (s', G, L)"
| link_state: "dpg_send_linkstate s = Some (r, s') \<Longrightarrow> node_step (s, G, L) (s', G, L)"
| frame: "forward_frame src dst pkt s = Some (r, s') \<Longrightarrow> node_step (s, G, L) (s', G, L)"
| clock: "gettimeofday s = (now, s') \<Longrightarrow> node_step (s, G, L) (s', G, L)"

lemma node_step_wf:
  assumes "node_step (s, G, L) (s', G', L')" and wf: "node_wf G L s"
  shows "node_wf G' L' s'"
  using assms(1)
proof cases
  case (initial host port r)
  then show ?thesis using dp_create_initial_keeps[OF wf, of host port] by simp
next
  case (clock now)
  then show ?thesis using node_wf_gettimeofday[OF wf] by simp
next
  case (first_state d n r)
  then show ?thesis
    using dp_read_pkt_link_graph_keeps[OF wf] dp_read_pkt_link_graph_named[OF wf] by blast
qed (use wf in \<open>auto intro: node_wf_set_dp_host node_wf_cleanup
      dest: dp_create_incoming_keeps dp_handle_join_keeps dp_group_insert_keeps dp_group_remove_keeps
        dp_first_link_keeps dp_drop_link_keeps dp_recv_packet_keeps forward_frame_keeps
        dp_send_peer_linkstate_keeps(2) dpg_send_linkstate_keeps(2)
      dest!: set_con_peers dp_send_join_peers dp_recv_header_peers dp_send_probe_req_keeps node_wf_peers_only\<close>)

lemma node_steps_wf:
  assumes "node_step\<^sup>*\<^sup>* (s, G, L) (s', G', L')" and "node_wf G L s"
  shows "node_wf G' L' s'"
  using assms
  by (induction "(s', G', L')" arbitrary: s' G' L' rule: rtranclp_induct) (auto dest: node_step_wf)

end
