(* ===== verification/Node_Threads.thy ===== *)
theory Node_Threads
  imports Node_Steps
begin

text \<open>
  The thread functions as sequences of steps, and the state in which they leave the process: a
  thread that connects and goes on has its peer in the group and in the table; one that gives up,
  or ends, has taken it out of both before freeing it.
\<close>

section \<open>Following a thread\<close>

definition outcome :: "dptr \<Rightarrow> dptr set \<Rightarrow> dptr set \<Rightarrow> config \<Rightarrow> (bool \<times> node) option \<Rightarrow> bool" where
  "outcome d G L c res \<longleftrightarrow>
     (\<forall>go s'. res = Some (go, s') \<longrightarrow>
        node_step\<^sup>*\<^sup>* c (if go then (s', insert d G, insert d L) else (s', G, L)))"

lemma outcome_call:
  assumes wf: "node_wf G1 L1 s"
    and step: "\<And>x s'. f = Some (x, s') \<Longrightarrow> node_step (s, G1, L1) (s', G2 x, L2 x)"
    and rest: "\<And>x s'. f = Some (x, s') \<Longrightarrow> node_wf (G2 x) (L2 x) s' \<Longrightarrow> outcome d G L (s', G2 x, L2 x) (k (x, s'))"
  shows "outcome d G L (s, G1, L1) (f \<bind> k)"
proof -
  have "node_step\<^sup>*\<^sup>* (s, G1, L1) (if go then (t, insert d G, insert d L) else (t, G, L))"
    if "f \<bind> k = Some (go, t)" for go t
  proof -
    from that obtain x s' where x: "f = Some (x, s')" "k (x, s') = Some (go, t)" by (auto simp: bind_Some_iff)
    have "node_wf (G2 x) (L2 x) s'" by (rule node_step_wf[OF step[OF x(1)] wf])
    from rest[OF x(1) this] x(2) step[OF x(1)] show ?thesis
      by (auto simp: outcome_def intro: converse_rtranclp_into_rtranclp)
  qed
  then show ?thesis by (simp add: outcome_def)
qed

lemma outcome_same:
  assumes "node_wf G1 L1 s" and "\<And>x s'. f = Some (x, s') \<Longrightarrow> node_step (s, G1, L1) (s', G1, L1)"
    and "\<And>x s'. f = Some (x, s') \<Longrightarrow> node_wf G1 L1 s \<Longrightarrow> node_wf G1 L1 s' \<Longrightarrow> outcome d G L (s', G1, L1) (k (x, s'))"
  shows "outcome d G L (s, G1, L1) (f \<bind> k)"
  by (rule outcome_call[where ?G2.0 = "\<lambda>_. G1" and ?L2.0 = "\<lambda>_. L1"]) (use assms in auto)

lemma outcome_step:
  "node_step c c' \<Longrightarrow> outcome d G L c' res \<Longrightarrow> outcome d G L c res"
  unfolding outcome_def by (blast intro: converse_rtranclp_into_rtranclp)

lemma outcome_address:
  assumes wf: "node_wf G1 L1 s" and d: "d \<notin> G1 \<union> L1" "n_peers s d \<noteq> None"
    and rest: "node_wf G1 L1 (set_dp_host d h s) \<Longrightarrow> outcome e G L (set_dp_host d h s, G1, L1) res"
  shows "outcome e G L (s, G1, L1) res"
  by (rule outcome_step[OF address[OF d] rest[OF node_wf_set_dp_host[OF wf d]]])

lemma outcome_set_con:
  assumes "node_wf G1 L1 s" and "set_con d c s = Some t"
    and "node_wf G1 L1 t \<Longrightarrow> outcome e G L (t, G1, L1) res"
  shows "outcome e G L (s, G1, L1) res"
  by (rule outcome_step[OF connected[OF assms(2)] assms(3)[OF node_wf_peers_only[OF set_con_peers[OF assms(2)] assms(1)]]])

lemma outcome_if: "(P \<Longrightarrow> outcome d G L c a) \<Longrightarrow> (\<not> P \<Longrightarrow> outcome d G L c b) \<Longrightarrow> outcome d G L c (if P then a else b)"
  by simp

lemma outcome_go [simp]: "outcome d G L (s, insert d G, insert d L) (Some (True, s))"
  by (simp add: outcome_def)

lemma outcome_fd: "d \<notin> G \<union> L \<Longrightarrow> outcome d G L (s, G, L) (at_fd d s)"
  by (auto simp: outcome_def at_fd_def intro!: free)

lemma outcome_dpg:
  assumes "node_wf G' L s" and "d \<notin> G \<union> L" and "G' - {d} = G" and "dp_mac s d \<noteq> None"
  shows "outcome d G L (s, G', L) (at_dpg d s)"
  unfolding at_dpg_def
  by (rule outcome_call[OF assms(1), where ?G2.0 = "\<lambda>_. G" and ?L2.0 = "\<lambda>_. L"])
    (use assms leave[of s d _ _ G' L] in \<open>auto intro: outcome_fd\<close>)

lemma dp_mac_set_dp_host [simp]: "dp_mac (set_dp_host d h s) d = Some (ip_mac h)"
  by (simp add: dp_mac_def dp_host_def set_dp_host_def)

lemma dp_handle_join_mac: "dp_handle_join d s = Some (r, s') \<Longrightarrow> \<not> r < 0 \<Longrightarrow> dp_mac s' d \<noteq> None"
  by (auto simp: dp_handle_join_def bind_Some_iff split: if_splits)

lemma dp_group_insert_mac: "dp_group_insert d s = Some (r, s') \<Longrightarrow> dp_mac s' e = dp_mac s e"
  by (auto simp: dp_group_insert_def bind_Some_iff dp_mac_def dp_host_def)

lemma gettimeofday_rd: "gettimeofday s = (now, s') \<Longrightarrow> n_rd s' = n_rd s"
  by (auto simp: gettimeofday_def split: list.splits)

lemma dp_first_link_mac:
  assumes "dp_first_link d s = Some (r, s')"
  shows "dp_mac s' e = dp_mac s e"
proof -
  from assms obtain dp where dp: "n_peers s d = Some dp" by (auto simp: dp_first_link_def bind_Some_iff)
  obtain now u where u: "gettimeofday (s\<lparr>n_peers := (n_peers s)(d \<mapsto> dp\<lparr>rtt_us := 1000000\<rparr>)\<rparr>) = (now, u)"
    by (rule prod.exhaust)
  with assms dp obtain rd where "rt_dhost_add_link now (n_rd u) (IP_Dp d) 1000000 = Some (r, rd)" "s' = u\<lparr>n_rd := rd\<rparr>"
    by (auto simp: dp_first_link_def bind_Some_iff Let_def)
  then show ?thesis using gettimeofday_rd[OF u] rt_dhost_add_link_dp by (fastforce simp: dp_mac_blocks)
qed

lemma dp_send_peer_linkstate_mac:
  "dp_send_peer_linkstate d s = Some (r, s') \<Longrightarrow> node_wf G L s \<Longrightarrow> dp_mac s' e = dp_mac s e"
  using dp_send_peer_linkstate_keeps(1)[of G L s d r s'] by (simp add: peers_only_sel)

section \<open>A peer that connects to us\<close>

text \<open>From the group insertion on, the threads are alike.\<close>

lemma outcome_first_link:
  assumes wf: "node_wf (insert d G) L s" and un: "d \<notin> G \<union> L" and m: "dp_mac s d \<noteq> None"
    and rest: "\<And>s'. node_wf (insert d G) (insert d L) s' \<Longrightarrow> outcome d G L (s', insert d G, insert d L) (k s')"
  shows "outcome d G L (s, insert d G, L) (do { (ret, s) \<leftarrow> dp_first_link d s; if ret \<noteq> 0 then at_dpg d s else k s })"
proof (rule outcome_call[OF wf, where ?G2.0 = "\<lambda>_. insert d G" and ?L2.0 = "\<lambda>r. if r = 0 then insert d L else L"])
  fix r s' assume res: "dp_first_link d s = Some (r, s')"
    and wf': "node_wf (insert d G) (if r = 0 then insert d L else L) s'"
  show "outcome d G L (s', insert d G, if r = 0 then insert d L else L)
      (case (r, s') of (ret, s) \<Rightarrow> if ret \<noteq> 0 then at_dpg d s else k s)"
    using wf' un m rest dp_first_link_mac[OF res] outcome_dpg[of "insert d G" L s' d G] by auto
qed (rule link)

lemma outcome_enter:
  assumes wf: "node_wf G L s" and un: "d \<notin> G \<union> L" and m: "dp_mac s d \<noteq> None"
    and rest: "\<And>s'. node_wf (insert d G) L s' \<Longrightarrow> dp_mac s' d \<noteq> None \<Longrightarrow> outcome d G L (s', insert d G, L) (k s')"
  shows "outcome d G L (s, G, L) (do { (ret, s) \<leftarrow> dp_group_insert d s; if ret \<noteq> 0 then at_fd d s else k s })"
proof (rule outcome_call[OF wf, where ?G2.0 = "\<lambda>r. if r = 0 then insert d G else G" and ?L2.0 = "\<lambda>_. L"])
  fix r s' assume res: "dp_group_insert d s = Some (r, s')" and wf': "node_wf (if r = 0 then insert d G else G) L s'"
  show "outcome d G L (s', if r = 0 then insert d G else G, L) (case (r, s') of (ret, s) \<Rightarrow> if ret \<noteq> 0 then at_fd d s else k s)"
    using wf' un m rest dp_group_insert_mac[OF res] outcome_fd[OF un] by auto
qed (rule enter[OF m])

lemma dp_th_incoming_outcome:
  assumes wf: "node_wf G L s" and un: "d \<notin> G \<union> L"
  shows "outcome d G L (s, G, L) (dp_th_incoming d s)"
proof (cases "dp_host s d")
  case (Some h)
  have live: "n_peers s d \<noteq> None" using node_wfD(5)[OF wf, of d] Some by (simp add: dp_blocks_def dp_host_def)
  note fd = outcome_fd[OF un]
  show ?thesis
    unfolding dp_th_incoming_def Some Option.bind.simps Let_def
    apply (rule outcome_address[OF wf un live])
    apply (rule outcome_same, assumption, erule header)
    apply (clarsimp simp: fd)
    apply (rule outcome_same, assumption, erule join[OF un])
    apply (clarsimp simp: fd)
    apply (drule dp_handle_join_mac, simp)
    apply (rule outcome_same, assumption, erule peer_state)
    apply (drule dp_send_peer_linkstate_mac[where e = d], assumption)
    apply (simp only: prod.case)
    apply (rule outcome_if)
     apply (rule outcome_dpg, assumption, rule un, use un in simp, simp)
    apply (rule outcome_enter, assumption, rule un, simp)
    apply (rule outcome_first_link, assumption, rule un, assumption)
    apply simp
    done
qed (simp add: dp_th_incoming_def outcome_def)

section \<open>The peer named on the command line\<close>

text \<open>Peers created on the way have addresses of their own.\<close>

lemma connect_peer_host:
  assumes "connect_peer h s = Some s'" and "d < n_next s"
  shows "dp_host s' d = dp_host s d \<and> d < n_next s'"
proof -
  have create: "dp_host (snd (dp_create_linkstate h t)) d = dp_host t d \<and> d < n_next (snd (dp_create_linkstate h t))"
    if "d < n_next t" for t
    using that by (auto simp: dp_create_linkstate_def dp_create_1_def malloc_def dp_spawn_th_def dp_cleanup_1_def
        set_dp_host_def dp_host_def Let_def split: prod.splits list.splits)
  obtain now t where t: "gettimeofday s = (now, t)" by (rule prod.exhaust)
  then have eq: "dp_host t d = dp_host s d" "n_next t = n_next s"
    by (auto simp: gettimeofday_def dp_host_def split: list.splits)
  from assms(1) t obtain c pc al where "s' = (let t = t\<lparr>n_pc := pc, n_rd := (n_rd t)\<lparr>allocs := al\<rparr>\<rparr>
      in if c then snd (dp_create_linkstate h t) else t)"
    by (auto simp: connect_peer_def bind_Some_iff Let_def)
  with create[of "t\<lparr>n_pc := pc, n_rd := (n_rd t)\<lparr>allocs := al\<rparr>\<rparr>"] eq assms(2) show ?thesis
    by (auto simp: Let_def dp_host_def)
qed

lemma connect_edges_host:
  assumes "foldM connect_edge es s = Some s'" and "d < n_next s"
  shows "dp_host s' d = dp_host s d"
proof -
  have "dp_host s' d = dp_host s d \<and> d < n_next s'"
    using assms(1)
  proof (rule foldM_invariant[where P = "\<lambda>t. dp_host t d = dp_host s d \<and> d < n_next t"])
    fix e t t' assume "dp_host t d = dp_host s d \<and> d < n_next t" "connect_edge e t = Some t'"
    then show "dp_host t' d = dp_host s d \<and> d < n_next t'"
      by (auto simp: connect_edge_def bind_Some_iff dest!: connect_peer_host)
  qed (use assms(2) in simp)
  then show ?thesis by simp
qed

lemma dp_read_pkt_link_graph_mac:
  assumes res: "dp_read_pkt_link_graph d n True s = Some (r, s')" and wf: "node_wf G L s"
  shows "r = 0 \<longrightarrow> dp_mac s' d \<noteq> None"
proof
  assume r: "r = 0"
  note def = dp_read_pkt_link_graph_def node_wf_malloc[OF wf]
  from res r obtain x plink s1 s2 es s3 rd where s1: "with_peer d (recv n) s = Some ((x, plink), s1)"
    and s2: "populate_mac d plink s1 = Some s2" and s3: "foldM connect_edge es s2 = Some s3"
    and rd: "rt_update_edges (n_rd s3) es = Some (0, rd)" "s' = s3\<lparr>n_rd := rd\<rparr>"
    by (auto simp: def bind_Some_iff Let_def split: if_splits)
  have "n_peers s1 d \<noteq> None" using s1 by (auto simp: with_peer_def bind_Some_iff)
  then have "d < n_next s1"
    using node_wfD(4)[OF node_wf_peers_only[OF recv_peers[OF s1] wf], of d] by (cases "n_next s1 \<le> d") auto
  moreover have "n_next s2 = n_next s1" "dp_host s2 d \<noteq> None"
    using s2 by (auto simp: populate_mac_def bind_Some_iff set_dp_host_def dp_host_def split: if_splits)
  ultimately have "dp_host s3 d \<noteq> None" using connect_edges_host[OF s3, of d] by simp
  moreover have "dp_mac s' d = dp_mac s3 d" using rt_update_edges_dp[OF rd(1)] rd(2) by (simp add: dp_mac_blocks)
  ultimately show "dp_mac s' d \<noteq> None" by (simp add: dp_mac_def)
qed

lemma dp_drop_link_mac: "dp_drop_link d s = Some (r, s') \<Longrightarrow> dp_mac s' e = dp_mac s e \<and> dp_mac s d \<noteq> None"
  by (auto simp: dp_drop_link_def bind_Some_iff dp_mac_blocks dest!: rt_dhost_remove_dp)

lemma outcome_unlink:
  assumes wf: "node_wf (insert d G) (insert d L) s" and un: "d \<notin> G \<union> L"
  shows "outcome d G L (s, insert d G, insert d L) (do { (r, s) \<leftarrow> dp_drop_link d s; at_dpg d s })"
proof (rule outcome_call[OF wf, where ?G2.0 = "\<lambda>_. insert d G" and ?L2.0 = "\<lambda>_. L"])
  fix r s' assume res: "dp_drop_link d s = Some (r, s')"
  then show "node_step (s, insert d G, insert d L) (s', insert d G, L)" using unlink[OF res, of "insert d G" "insert d L"] un by simp
  assume "node_wf (insert d G) L s'"
  with dp_drop_link_mac[OF res] un show "outcome d G L (s', insert d G, L) (case (r, s') of (r, s) \<Rightarrow> at_dpg d s)"
    by (auto intro!: outcome_dpg)
qed

lemma dp_th_initial_outcome:
  assumes wf: "node_wf G L s" and un: "d \<notin> G \<union> L" and live: "n_peers s d \<noteq> None"
  shows "outcome d G L (s, G, L) (dp_th_initial d na s)"
proof (cases "connect_host na")
  case (Inl e)
  then show ?thesis by (simp add: dp_th_initial_def outcome_fd[OF un])
next
  case (Inr ca)
  obtain c addr where ca: "ca = (c, addr)" by (cases ca)
  note fd = outcome_fd[OF un]
  let ?h = "\<lparr>ip_mac = junk_mac, ip_in = addr\<rparr>"
  obtain t where t: "set_con d c (set_dp_host d ?h s) = Some t"
    using live by (auto simp: set_con_def set_dp_host_def)
  show ?thesis
    unfolding dp_th_initial_def Inr ca sum.case prod.case t Option.bind.simps
    apply (rule outcome_address[OF wf un live, where h = ?h])
    apply (rule outcome_set_con[OF _ t], assumption)
    apply (rule outcome_same, assumption, erule send_join)
    apply (clarsimp simp: fd)
    apply (rule outcome_same, assumption, erule header)
    apply (clarsimp simp: fd)
    apply (rule outcome_same, assumption, rule first_state, rule disjI1, rule un, assumption)
    apply (drule dp_read_pkt_link_graph_mac, assumption)
    apply (clarsimp simp: fd)
    apply (rule outcome_enter, assumption, rule un, simp)
    apply (rule outcome_first_link, assumption, rule un, assumption)
    apply (rule outcome_same, assumption, erule probe)
    apply (clarsimp simp: outcome_unlink[OF _ un])
    done
qed

section \<open>A peer learnt from link state\<close>

text \<open>What has arrived on the connection of a peer and is not read yet.\<close>

definition waiting :: "node \<Rightarrow> dptr \<Rightarrow> u8 list option" where
  "waiting s d = do { dp \<leftarrow> n_peers s d; c \<leftarrow> con_fd dp; Some (rx c) }"

lemma waiting_set_con: "set_con d c s = Some s' \<Longrightarrow> waiting s' d = Some (rx c)"
  by (auto simp: set_con_def waiting_def bind_Some_iff)

lemma waiting_with_peer:
  assumes "with_peer d f s = Some (r, s')" and "waiting s d = Some bs"
    and "\<And>dp c dp'. con_fd dp = Some c \<Longrightarrow> f dp = Some (r, dp') \<Longrightarrow> rx c = bs \<Longrightarrow> map_option rx (con_fd dp') = Some bs'"
  shows "waiting s' d = Some bs'"
  using assms by (force simp: with_peer_def waiting_def bind_Some_iff map_option_eq_Some)

lemma dp_psend_data_rx: "dp_psend_data dp bs = Some (r, dp') \<Longrightarrow> map_option rx (con_fd dp') = map_option rx (con_fd dp)"
  by (auto simp: dp_psend_data_def mutex_unlock_def Let_def bind_Some_iff split_beta split: if_splits)

lemma dp_send_packet_rx:
  assumes "dp_send_packet type len data dp = Some (r, dp')"
  shows "map_option rx (con_fd dp') = map_option rx (con_fd dp)"
  using assms
  by (auto simp: dp_send_packet_def dp_psend_start_def mutex_lock_def mutex_unlock_def Let_def bind_Some_iff
      split: if_splits dest!: dp_psend_data_rx)

lemma waiting_send_join: "dp_send_join d s = Some (r, s') \<Longrightarrow> waiting s d = Some bs \<Longrightarrow> waiting s' d = Some bs"
  unfolding dp_send_join_def Let_def by (erule waiting_with_peer) (auto dest: dp_send_packet_rx)

lemma waiting_header:
  "with_peer d dp_recv_header s = Some (r, s') \<Longrightarrow> waiting s d = Some bs \<Longrightarrow> waiting s' d = Some (drop PL_HEADER bs)"
  by (erule waiting_with_peer) (auto simp: dp_recv_header_def recv_def Let_def bind_Some_iff split: if_splits)

lemma waiting_first_link:
  assumes "dp_first_link d s = Some (r, s')"
  shows "waiting s' d = waiting s d"
proof -
  from assms obtain dp where dp: "n_peers s d = Some dp" by (auto simp: dp_first_link_def bind_Some_iff)
  obtain now u where u: "gettimeofday (s\<lparr>n_peers := (n_peers s)(d \<mapsto> dp\<lparr>rtt_us := 1000000\<rparr>)\<rparr>) = (now, u)"
    by (rule prod.exhaust)
  then have "n_peers u d = Some (dp\<lparr>rtt_us := 1000000\<rparr>)" by (auto simp: gettimeofday_def split: list.splits)
  with assms dp u show ?thesis by (auto simp: dp_first_link_def waiting_def Let_def bind_Some_iff)
qed

lemma mac_of_bytes_take: "ETH_ALEN \<le> n \<Longrightarrow> mac_of_bytes (take n bs) = mac_of_bytes bs"
  by (simp add: mac_of_bytes_def ETH_ALEN_def)

lemma names_itselfI:
  assumes "waiting s d = Some bs" and "dp_mac s d = Some (mac_of_bytes (drop 8 bs))"
  shows "names_itself d n s"
proof -
  have "dp_mac s d = Some (mac_of_bytes (drop 8 (take n bs)))" if "PL_LINK_GRAPH_STATIC \<le> length (take n bs)"
    using that assms(2) mac_of_bytes_take[of "n - 8" "drop 8 bs"]
    by (fastforce simp: drop_take PL_LINK_GRAPH_STATIC_def PL_HOST_def ETH_ALEN_def)
  with assms(1) show ?thesis
    by (auto simp: names_itself_def waiting_def with_peer_def recv_def Let_def bind_Some_iff split: option.splits)
qed

text \<open>From the first answer on.\<close>

lemma outcome_rt:
  assumes "node_wf G (insert d L) s" and un: "d \<notin> G \<union> L"
  shows "outcome d G L (s, G, insert d L) (at_rt d s)"
  unfolding at_rt_def
  by (rule outcome_call[OF assms(1), where ?G2.0 = "\<lambda>_. G" and ?L2.0 = "\<lambda>_. L"])
    (use un unlink[of d s _ _ G "insert d L"] in \<open>auto intro: outcome_fd\<close>)

lemma outcome_leave_rt:
  assumes wf: "node_wf (insert d G) (insert d L) s" and un: "d \<notin> G \<union> L" and m: "dp_mac s d \<noteq> None"
  shows "outcome d G L (s, insert d G, insert d L) (do { (r, s) \<leftarrow> dp_group_remove d s; at_rt d s })"
  by (rule outcome_call[OF wf, where ?G2.0 = "\<lambda>_. G" and ?L2.0 = "\<lambda>_. insert d L"])
    (use un leave[OF m, of _ _ "insert d G" "insert d L"] in \<open>auto intro: outcome_rt\<close>)

lemma outcome_enter_linked:
  assumes wf: "node_wf G (insert d L) s" and un: "d \<notin> G \<union> L" and m: "dp_mac s d \<noteq> None"
    and rest: "\<And>s'. node_wf (insert d G) (insert d L) s' \<Longrightarrow> dp_mac s' d \<noteq> None \<Longrightarrow>
      outcome d G L (s', insert d G, insert d L) (k s')"
  shows "outcome d G L (s, G, insert d L) (do { (ret, s) \<leftarrow> dp_group_insert d s; if ret \<noteq> 0 then at_rt d s else k s })"
proof (rule outcome_call[OF wf, where ?G2.0 = "\<lambda>r. if r = 0 then insert d G else G" and ?L2.0 = "\<lambda>_. insert d L"])
  fix r s' assume res: "dp_group_insert d s = Some (r, s')" and wf': "node_wf (if r = 0 then insert d G else G) (insert d L) s'"
  show "outcome d G L (s', if r = 0 then insert d G else G, insert d L) (case (r, s') of (ret, s) \<Rightarrow> if ret \<noteq> 0 then at_rt d s else k s)"
    using wf' un m rest dp_group_insert_mac[OF res] outcome_rt[OF _ un] by auto
qed (rule enter[OF m])

lemma dp_send_probe_req_mac: "dp_send_probe_req d s = Some (r, s') \<Longrightarrow> dp_mac s' e = dp_mac s e"
  by (simp add: peers_only_sel[OF dp_send_probe_req_keeps])

lemma outcome_link:
  assumes wf: "node_wf G L s" and un: "d \<notin> G \<union> L"
    and rest: "\<And>s'. dp_first_link d s = Some (0, s') \<Longrightarrow> node_wf G (insert d L) s' \<Longrightarrow> outcome d G L (s', G, insert d L) (k s')"
  shows "outcome d G L (s, G, L) (do { (ret, s) \<leftarrow> dp_first_link d s; if ret \<noteq> 0 then at_fd d s else k s })"
  by (rule outcome_call[OF wf, where ?G2.0 = "\<lambda>_. G" and ?L2.0 = "\<lambda>r. if r = 0 then insert d L else L"])
    (use rest un in \<open>auto intro: outcome_fd dest: link[of _ _ _ _ G L]\<close>)

text \<open>The peer answers under the address it was announced with.\<close>

lemma outcome_answer:
  assumes wf: "node_wf G (insert d L) s" and un: "d \<notin> G \<union> L"
    and w: "waiting s d = Some bs" and m: "dp_mac s d = Some (mac_of_bytes (drop 8 bs))"
  shows "outcome d G L (s, G, insert d L) (do {
    (ret, s) \<leftarrow> dp_read_pkt_link_graph d n True s;
    if ret \<noteq> 0 then at_rt d s
    else do {
      (ret, s) \<leftarrow> dp_group_insert d s;
      if ret \<noteq> 0 then at_rt d s
      else do {
        (ret, s) \<leftarrow> dp_send_probe_req d s;
        if ret \<noteq> 0 then do { (r, s) \<leftarrow> dp_group_remove d s; at_rt d s }
        else Some (True, s)
      }
    }
  })"
  apply (rule outcome_same[OF wf], erule first_state[OF disjI2[OF names_itselfI[OF w m]]])
  apply (drule dp_read_pkt_link_graph_mac[OF _ wf])
  apply (clarsimp simp: outcome_rt[OF _ un])
  apply (rule outcome_enter_linked, assumption, rule un, simp)
  apply (rule outcome_same, assumption, erule probe)
  apply (drule dp_send_probe_req_mac[where e = d])
  apply (clarsimp simp: outcome_leave_rt[OF _ un])
  done

lemma dp_th_linkstate_outcome:
  assumes wf: "node_wf G L s" and un: "d \<notin> G \<union> L" and live: "n_peers s d \<noteq> None"
    and nm: "\<And>c. na_conn na = Some c \<Longrightarrow> dp_mac s d = Some (mac_of_bytes (drop (PL_HEADER + 8) (rx c)))"
  shows "outcome d G L (s, G, L) (dp_th_linkstate d na s)"
proof (cases "connect_inet na")
  case (Inl e)
  then show ?thesis by (simp add: dp_th_linkstate_def outcome_fd[OF un])
next
  case (Inr c)
  note fd = outcome_fd[OF un]
  have c: "dp_mac s d = Some (mac_of_bytes (drop (PL_HEADER + 8) (rx c)))"
    using Inr nm by (auto simp: connect_inet_def split: if_splits option.splits)
  obtain t where t: "set_con d c s = Some t" using live by (auto simp: set_con_def)
  have mt: "dp_mac t d = dp_mac s d" using peers_only_sel(5)[OF set_con_peers[OF t]] by simp
  show ?thesis
    unfolding dp_th_linkstate_def Inr sum.case t Option.bind.simps
    apply (rule outcome_set_con[OF wf t])
    apply (rule outcome_same, assumption, erule send_join)
    apply (frule waiting_send_join[OF _ waiting_set_con[OF t]], drule dp_send_join_peers, drule peers_only_sel(5))
    apply (clarsimp simp: fd)
    apply (rule outcome_same, assumption, erule header)
    apply (frule waiting_header, assumption, drule dp_recv_header_peers, drule peers_only_sel(5))
    apply (clarsimp simp: fd)
    apply (rule outcome_link, assumption, rule un)
    apply (frule waiting_first_link, drule dp_first_link_mac[where e = d])
    apply (rule outcome_answer, assumption, rule un, simp, simp add: mt c add.commute)
    done
qed

section \<open>Where a thread leaves its peer\<close>

lemma dp_group_insert_member:
  assumes wf: "node_wf G L s" and m: "dp_mac s d \<noteq> None" and res: "dp_group_insert d s = Some (0, s')"
  shows "d \<in> set (peers (n_dpg s'))"
proof -
  from m obtain a where a: "dp_mac s d = Some a" by auto
  from res obtain g al where g: "dpg_insert (dp_mac s) (n_dpg s) d (allocs (n_rd s)) = Some (0, g, al)" "n_dpg s' = g"
    by (auto simp: dp_group_insert_def bind_Some_iff)
  show ?thesis
    by (cases rule: dpg_insert_cases[OF node_wfD(2)[OF wf] a, of "allocs (n_rd s)"]) (use g set_add in fastforce)+
qed

lemma dp_first_link_links:
  assumes wf: "node_wf G L s" and res: "dp_first_link d s = Some (0, s')"
  obtains m ts where "dp_mac s' d = Some m" "local_link (n_rd s') m 1000000 ts" "n_dpg s' = n_dpg s"
proof -
  from res obtain dp where dp: "n_peers s d = Some dp" by (auto simp: dp_first_link_def bind_Some_iff)
  obtain now u where u: "gettimeofday (s\<lparr>n_peers := (n_peers s)(d \<mapsto> dp\<lparr>rtt_us := 1000000\<rparr>)\<rparr>) = (now, u)"
    by (rule prod.exhaust)
  then have un: "n_rd u = n_rd s" "n_dpg u = n_dpg s" by (auto simp: gettimeofday_def split: list.splits)
  from res dp u obtain rd where rd: "rt_dhost_add_link now (n_rd s) (IP_Dp d) 1000000 = Some (0, rd)" "s' = u\<lparr>n_rd := rd\<rparr>"
    by (auto simp: dp_first_link_def bind_Some_iff Let_def un)
  note ok = rd_okD[OF node_wfD(1)[OF wf]]
  obtain ip where ip: "ipheap (n_rd s) (IP_Dp d) = Some ip" using rt_dhost_add_link_reads[OF ok(1) rd(1)] by auto
  have "local_link rd (ip_mac ip) 1000000 (word_of_int (tv_ms now))"
    using rt_dhost_add_link_done[OF ok(1,2) ip _ rd(1)] by simp
  moreover have "dp_mac s' d = Some (ip_mac ip)"
    using dp_first_link_mac[OF res] ip by (simp add: dp_mac_def dp_host_def)
  ultimately show thesis using that rd(2) un by simp
qed

text \<open>A thread that has given up has freed its peer.\<close>

lemma at_fd_gone: "at_fd d s = Some (go, s') \<Longrightarrow> \<not> go \<and> n_peers s' d = None"
  by (auto simp: at_fd_def dp_cleanup_1_def)

lemma at_dpg_gone: "at_dpg d s = Some (go, s') \<Longrightarrow> \<not> go \<and> n_peers s' d = None"
  by (auto simp: at_dpg_def bind_Some_iff dest: at_fd_gone)

lemma dp_th_incoming_gone: "dp_th_incoming d s = Some (False, s') \<Longrightarrow> n_peers s' d = None"
  by (auto simp: dp_th_incoming_def Let_def bind_Some_iff split: if_splits dest: at_fd_gone at_dpg_gone)

lemma dp_th_initial_gone: "dp_th_initial d na s = Some (False, s') \<Longrightarrow> n_peers s' d = None"
  by (auto simp: dp_th_initial_def bind_Some_iff split: if_splits sum.splits prod.splits dest: at_fd_gone at_dpg_gone)

lemma at_rt_gone: "at_rt d s = Some (go, s') \<Longrightarrow> \<not> go \<and> n_peers s' d = None"
  by (auto simp: at_rt_def bind_Some_iff dest: at_fd_gone)

lemma dp_th_linkstate_gone: "dp_th_linkstate d na s = Some (False, s') \<Longrightarrow> n_peers s' d = None"
  by (auto simp: dp_th_linkstate_def bind_Some_iff split: if_splits sum.splits prod.splits dest: at_fd_gone at_rt_gone)

section \<open>A running peer\<close>

lemma dp_th_probe_steps:
  assumes "dp_th_probe d l s = Some (go, l', s')"
  shows "node_step\<^sup>*\<^sup>* (s, G, L) (s', G, L)"
proof (cases "timer_gt (wtime l) tv_zero")
  case False
  with assms obtain ret t where t: "dp_send_probe_req d s = Some (ret, t)"
    by (auto simp: dp_th_probe_def bind_Some_iff)
  note p = probe[OF t, of G L]
  show ?thesis
  proof (cases "ret < 0")
    case True
    with assms t p \<open>\<not> timer_gt _ _\<close> show ?thesis by (auto simp: dp_th_probe_def)
  next
    case ok: False
    with assms t False obtain u where u: "u = t \<or> (\<exists>r. dpg_send_linkstate t = Some (r, u))"
      and s': "s' = snd (gettimeofday u)"
      by (cases "probe_ct l mod DP_TIMEOUT_LINK_MULT = 0") (auto simp: dp_th_probe_def bind_Some_iff split_beta)
    have c: "gettimeofday u = (fst (gettimeofday u), s')" by (simp add: s')
    have "node_step\<^sup>*\<^sup>* (t, G, L) (u, G, L)" using u link_state[of t _ u G L] by auto
    with p clock[OF c, of G L] show ?thesis by (meson converse_rtranclp_into_rtranclp rtranclp.rtrancl_into_rtrancl)
  qed
qed (use assms in \<open>simp add: dp_th_probe_def\<close>)

lemma dp_th_event_steps:
  assumes "dp_th_event d ev s = Some (go, s')" and "d \<in> L"
  shows "node_step\<^sup>*\<^sup>* (s, G, L) (s', G, L)"
  using assms by (auto simp: dp_th_event_def bind_Some_iff intro!: receive split: epoll_answer.splits)

lemma dp_th_iter_steps:
  assumes "dp_th_iter d ev l s = Some (go, l', s')" and "d \<in> L"
  shows "node_step\<^sup>*\<^sup>* (s, G, L) (s', G, L)"
proof -
  from assms(1) obtain go1 l1 t where t: "dp_th_probe d l s = Some (go1, l1, t)"
    by (auto simp: dp_th_iter_def bind_Some_iff)
  note p = dp_th_probe_steps[OF t, of G L]
  show ?thesis
  proof (cases go1)
    case True
    with assms(1) t obtain go2 u where u: "dp_th_event d ev t = Some (go2, u)"
      by (auto simp: dp_th_iter_def bind_Some_iff)
    note e = rtranclp_trans[OF p dp_th_event_steps[OF u assms(2), of G]]
    show ?thesis
    proof (cases go2)
      case True
      obtain now v where v: "gettimeofday u = (now, v)" by (rule prod.exhaust)
      with assms(1) t \<open>go1\<close> u True have "s' = v" by (auto simp: dp_th_iter_def Let_def)
      with clock[OF v, of G L] e show ?thesis by (simp add: rtranclp.rtrancl_into_rtrancl)
    qed (use assms(1) t \<open>go1\<close> u e in \<open>auto simp: dp_th_iter_def\<close>)
  qed (use assms(1) t p in \<open>auto simp: dp_th_iter_def\<close>)
qed

lemma dp_th_run_steps:
  assumes "dp_th_run d evs l s = Some (go, l', s')" and "d \<in> L"
  shows "node_step\<^sup>*\<^sup>* (s, G, L) (s', G, L)"
  using assms(1)
proof (induction evs arbitrary: l s)
  case (Cons ev evs)
  from Cons.prems obtain go1 l1 t where t: "dp_th_iter d ev l s = Some (go1, l1, t)"
    by (auto simp: bind_Some_iff)
  note i = dp_th_iter_steps[OF t assms(2), of G]
  show ?case
  proof (cases go1)
    case True
    with Cons.prems t have "dp_th_run d evs l1 t = Some (go, l', s')" by simp
    from rtranclp_trans[OF i Cons.IH[OF this]] show ?thesis .
  qed (use Cons.prems t i in auto)
qed simp

lemma dp_th_cleanup_steps:
  assumes "dp_th_cleanup d s = Some s'"
  shows "node_step\<^sup>*\<^sup>* (s, G, L) (s', G - {d}, L - {d})"
proof -
  from assms obtain r t r2 u where t: "dp_group_remove d s = Some (r, t)" and u: "dp_drop_link d t = Some (r2, u)"
    and s': "s' = dp_cleanup_1 d u" by (auto simp: dp_th_cleanup_def bind_Some_iff)
  have "dp_mac s d = dp_mac t d" using t by (auto simp: dp_group_remove_def bind_Some_iff)
  with dp_drop_link_mac[OF u] have m: "dp_mac s d \<noteq> None" by simp
  have "node_step (u, G - {d}, L - {d}) (s', G - {d}, L - {d})" unfolding s' by (rule free) simp
  with leave[OF m t, of G L] unlink[OF u, of "G - {d}" L] show ?thesis
    by (meson converse_rtranclp_into_rtranclp rtranclp.rtrancl_refl)
qed

lemma dp_th_steps:
  assumes "dp_th d ep evs s = Some (go, s')" and "d \<in> L"
  shows "node_step\<^sup>*\<^sup>* (s, G, L) (if go then (s', G, L) else (s', G - {d}, L - {d}))"
proof (cases ep)
  case True
  let ?l = "\<lparr>wtime = tv_zero, before = tv_zero, after = tv_zero, probe_ct = 0\<rparr>"
  from assms(1) True obtain go1 l1 t where t: "dp_th_run d evs ?l s = Some (go1, l1, t)"
    by (auto simp: dp_th_def bind_Some_iff)
  note r = dp_th_run_steps[OF t assms(2), of G]
  show ?thesis
  proof (cases go1)
    case False
    with assms(1) True t have "dp_th_cleanup d t = Some s'" "\<not> go" by (auto simp: dp_th_def bind_Some_iff)
    with rtranclp_trans[OF r dp_th_cleanup_steps[OF this(1), of G L]] show ?thesis by simp
  qed (use assms(1) True t r in \<open>auto simp: dp_th_def\<close>)
next
  case False
  with assms(1) have "dp_th_cleanup d s = Some s'" "\<not> go" by (auto simp: dp_th_def bind_Some_iff)
  with dp_th_cleanup_steps[OF this(1), of G L] show ?thesis by simp
qed

section \<open>The tap device and the listener\<close>

lemma vnet_reader_run_steps:
  assumes "vnet_reader_run frames data s = Some (go, s')"
  shows "node_step\<^sup>*\<^sup>* (s, G, L) (s', G, L)"
  using assms
proof (induction frames arbitrary: data s)
  case (Cons f fs)
  from Cons.prems obtain go1 data1 t where t: "vnet_reader_iter f data s = Some (go1, data1, t)"
    by (auto simp: bind_Some_iff)
  then have i: "node_step\<^sup>*\<^sup>* (s, G, L) (t, G, L)"
    by (auto simp: vnet_reader_iter_def bind_Some_iff intro!: frame split: if_splits prod.splits)
  show ?case
  proof (cases go1)
    case True
    with Cons.prems t have "vnet_reader_run fs data1 t = Some (go, s')" by simp
    from rtranclp_trans[OF i Cons.IH[OF this]] show ?thesis .
  qed (use Cons.prems t i in auto)
qed simp

lemma peer_listener_steps:
  assumes "peer_listener accepts s = Some (Inr s')"
  shows "node_step\<^sup>*\<^sup>* (s, G, L) (s', G, L)"
  using assms
proof (induction accepts s rule: peer_listener.induct)
  case (3 fd addr as s0)
  from 3(2) obtain r t where t: "dp_create_incoming fd addr s0 = Some (r, t)" "peer_listener as t = Some (Inr s')"
    by (auto simp: bind_Some_iff split: if_splits)
  with 3(1)[OF t(1) refl] 3(2) have "node_step\<^sup>*\<^sup>* (t, G, L) (s', G, L)" by (auto split: if_splits)
  with accept[OF t(1), of G L] show ?case by (rule converse_rtranclp_into_rtranclp)
qed simp_all

lemma dp_create_incoming_spare:
  assumes wf: "node_wf G L s" and sp: "n_spawns s = []"
  obtains s' where "dp_create_incoming c addr s = Some (0, s')" "node_wf G L s'" "n_spawns s' = []"
    "n_threads s' = n_threads s @ [Th_Incoming (n_next s)]" "n_next s' = n_next s + 1"
proof -
  obtain s' where s': "dp_create_incoming c addr s = Some (0, s')" "n_spawns s' = []"
    "n_threads s' = n_threads s @ [Th_Incoming (n_next s)]" "n_next s' = n_next s + 1"
    using sp by (simp add: dp_create_incoming_def node_wf_malloc[OF wf] dp_create_1_def Let_def
        set_con_def set_dp_host_def dp_spawn_th_def)
  with that dp_create_incoming_keeps[OF wf s'(1)] show thesis by blast
qed

text \<open>The listener starts a thread for every connection it accepts.\<close>

lemma peer_listener_serves:
  assumes "node_wf G L s" and "n_spawns s = []"
  shows "\<exists>s'. peer_listener (map Some cs) s = Some (Inr s') \<and> node_wf G L s' \<and>
    n_threads s' = n_threads s @ map Th_Incoming [n_next s..<n_next s + length cs]"
  using assms
proof (induction cs arbitrary: s)
  case (Cons x cs)
  obtain fd addr where x: "x = (fd, addr)" by (rule prod.exhaust)
  obtain s1 where s1: "dp_create_incoming fd addr s = Some (0, s1)" "node_wf G L s1" "n_spawns s1 = []"
    "n_threads s1 = n_threads s @ [Th_Incoming (n_next s)]" "n_next s1 = n_next s + 1"
    by (rule dp_create_incoming_spare[OF Cons.prems])
  have "[n_next s..<n_next s + length (x # cs)] = n_next s # [n_next s1..<n_next s1 + length cs]"
    using s1(5) upt_conv_Cons[of "n_next s" "n_next s + length (x # cs)"] by simp
  with Cons.IH[OF s1(2,3)] s1(1,4) x show ?case by auto
qed simp

section \<open>Setting up\<close>

text \<open>A process that starts: nothing is allocated yet.\<close>

definition fresh_process :: "node \<Rightarrow> bool" where
  "fresh_process s \<longleftrightarrow>
     allocs (n_rd s) = [] \<and> hheap (n_rd s) = Map.empty \<and>
     (\<forall>d. ipheap (n_rd s) (IP_Dp d) = None \<and> ipheap (n_rd s) (IP_Heap d) = None) \<and> n_peers s = Map.empty"

lemma rt_init_spare:
  assumes "allocs s = []"
  obtains s' where "rt_init s = (0, s')" "allocs s' = []"
proof -
  obtain hs :: "hptr da" where "DA_INIT RT_HOST_INIT [] = (False, hs, [])" using DA_INIT_spare by blast
  moreover obtain es :: "pkt_edge da" where "DA_INIT DA_INIT_MEM [] = (False, es, [])" using DA_INIT_spare by blast
  ultimately have "rt_init s = (0, snd (rt_init s)) \<and> allocs (snd (rt_init s)) = []"
    using assms by (simp add: rt_init_def)
  with that show thesis by blast
qed

lemma rt_lhost_add_spare:
  assumes hp: "heap_wf s" and da: "da_wf (hosts s)" "host_list s = []" and al: "allocs s = []"
    and ip: "ipheap s IP_Main = Some ip" and free: "lock s = RW_Free"
  obtains s' where "rt_lhost_add s IP_Main = Some (0, s')" "allocs s' = []"
proof -
  let ?s = "locked s"
  have ct: "da_ct (hosts s) = 0" using da by (simp flip: length_da_list)
  have none: "find_host_by_addr ?s (ip_mac ip) = Some None"
    using ct by (simp add: find_host_by_addr_def bsearch_def bsearch_loop.simps)
  have hpl: "heap_wf ?s" "ipheap ?s IP_Main = Some ip" using hp ip by (simp_all add: heap_wf_def)
  obtain s1 h where s1: "host_alloc ?s IP_Main HT_LOCAL = Some (0, Some (brk s), s1)" "hosts s1 = hosts s"
      "host_mac s1 (brk s) = Some (ip_mac ip)"
    by (cases rule: host_alloc_cases[OF hpl, of HT_LOCAL]) (use host_alloc_spare(1)[of ?s IP_Main HT_LOCAL] al in \<open>force+\<close>)
  have al1: "allocs s1 = []" using host_alloc_spare(2)[OF _ s1(1)] al by simp
  obtain d al2 where d: "host_insert_unchecked s1 (brk s) = Some (0, s1\<lparr>hosts := d, allocs := al2\<rparr>)"
    by (cases rule: host_insert_unchecked_cases[of s1 "brk s"])
      (use da s1 al1 in \<open>auto simp: keyed_def host_insert_unchecked_def Let_def split_beta bind_Some_iff split: if_splits\<close>)
  have add: "host_add ?s IP_Main HT_LOCAL = Some (0, Some (brk s), s1\<lparr>hosts := d, allocs := al2\<rparr>)"
    using ip none s1(1) d by (simp add: host_add_def)
  have "al2 = []" using host_add_spare[of ?s, OF _ add] al by simp
  moreover have "lock (s1\<lparr>hosts := d, allocs := al2\<rparr>) = RW_Write" using host_add_lock[OF add] by simp
  ultimately show thesis using add free
    by (intro that[of "s1\<lparr>hosts := d, allocs := [], local_host := Some (brk s), lock := RW_Free\<rparr>"])
      (simp_all add: rt_lhost_add_def wrlock_def unlock_ret_Write)
qed

lemma rt_lhost_add_frame:
  assumes "rt_lhost_add s IP_Main = Some (r, s')"
  shows "dp_blocks s' = dp_blocks s" and "heap_ptrs s' \<subseteq> heap_ptrs s"
proof -
  from assms obtain p h t where t: "host_add (locked s) IP_Main HT_LOCAL = Some (p, h, t)"
    "unlock_ret p (if p = 0 then t\<lparr>local_host := h\<rparr> else t) = Some (r, s')"
    by (auto simp: rt_lhost_add_def bind_Some_iff wrlock_Some)
  show "dp_blocks s' = dp_blocks s" using host_add_dp[OF t(1)] unlock_ret_dp[OF t(2)] by (simp split: if_splits)
  show "heap_ptrs s' \<subseteq> heap_ptrs s" using host_add_ptrs[OF t(1)] unlock_ret_ptrs[OF t(2)] by (simp split: if_splits)
qed

text \<open>A table that holds the process itself and nothing else.\<close>

definition alone :: "ether_addr \<Rightarrow> routing \<Rightarrow> bool" where
  "alone m s \<longleftrightarrow> da_list (edges s) = [] \<and> mats s = M_NULL \<and> m_ct s = 0 \<and>
     length (host_list s) = 1 \<and> (\<forall>p\<in>set (host_list s). host_mac s p = Some m)"

lemma setup_routing_wf:
  assumes al: "allocs (n_rd s) = []" "hheap (n_rd s) = Map.empty" "\<And>d. ipheap (n_rd s) (IP_Heap d) = None"
    and ip: "ipheap (n_rd s) IP_Main = Some ip"
  obtains rd where "setup_routing s = Some (Inr (s\<lparr>n_rd := rd\<rparr>))" "rd_ok rd" "dp_blocks rd = dp_blocks (n_rd s)"
    "\<And>d. \<not> points_to rd d" "alone (ip_mac ip) rd"
proof -
  obtain s1 where s1: "rt_init (n_rd s) = (0, s1)" "allocs s1 = []" by (rule rt_init_spare[OF al(1)])
  note i = rt_init_ok[OF s1(1)]
  have hp: "heap_wf s1" using i(8,9) al by (simp add: heap_wf_def)
  have ip1: "ipheap s1 IP_Main = Some ip" using i(9) ip by simp
  obtain s2 where s2: "rt_lhost_add s1 IP_Main = Some (0, s2)" "allocs s2 = []"
    by (rule rt_lhost_add_spare[OF hp i(1,2) s1(2) ip1 i(7)])
  note f = rt_lhost_add_first[OF hp i(1,2) ip1 s2(1)]
  have ptrs: "heap_ptrs s2 = {}"
    using rt_lhost_add_frame(2)[OF s2(1)] i(8) al(2) by (auto simp: heap_ptrs_def)
  then have "anchored s2" by (simp add: anchored_ptrs)
  moreover have "lock s2 = RW_Free" using rt_lhost_add_lock[OF s2(1)] by simp
  ultimately have ok: "rd_ok s2" using f(1,2) i(3) s2(2) by (simp add: rd_ok_def)
  have "dp_blocks s2 = dp_blocks (n_rd s)" using rt_lhost_add_frame(1)[OF s2(1)] i(9) by (simp add: dp_blocks_def fun_eq_iff)
  moreover have "alone (ip_mac ip) s2" using f(2-5,7) i(4-6) by (simp add: alone_def)
  ultimately show thesis using that[of s2] s1 s2 ok ptrs by (simp add: setup_routing_def rd_ok_points)
qed

text \<open>A process whose own address resolves comes up, and its first state satisfies the invariant.\<close>

lemma setup_dpg_wf:
  assumes fr: "fresh_process s" and a: "sa_resolve sa = Some a"
  obtains s' where "setup_dpg sa s = Inr s'" "fresh_process s'" "n_vnet s' = n_vnet s" "n_spawns s' = n_spawns s"
    "\<And>mac. dpg_wf mac (n_dpg s')" "peers (n_dpg s') = []" "l_addr (n_dpg s') = a"
    "ipheap (n_rd s') IP_Main = Some \<lparr>ip_mac = v_mac (n_vnet s), ip_in = a\<rparr>"
proof -
  obtain d :: "dptr da" where d: "DA_INIT DPG_INIT_SIZE [] = (False, d, [])" using DA_INIT_spare by blast
  define g where "g = (n_dpg s)\<lparr>g_lock := RW_Free, dps := d, l_addr := a\<rparr>"
  have init: "dpg_init (sa_resolve sa) (n_dpg s) [] = (0, g, [])" using d a by (simp add: dpg_init_def g_def)
  let ?s = "s\<lparr>n_dpg := g, n_rd := (n_rd s)\<lparr>allocs := [], ipheap := (ipheap (n_rd s))(IP_Main \<mapsto> \<lparr>ip_mac = v_mac (n_vnet s), ip_in = a\<rparr>)\<rparr>\<rparr>"
  have al: "allocs (n_rd s) = []" using fr by (simp add: fresh_process_def)
  have l: "l_addr g = a" by (simp add: g_def)
  show thesis
    by (rule that[of ?s]) (use fr dpg_init_wf[OF init] init al l in
      \<open>simp_all add: setup_dpg_def set_allocs_def vnet_get_mac_def fresh_process_def\<close>)
qed

lemma setup_threads_wf:
  assumes wf: "node_wf {} {} s"
  shows "setup_threads os s = Inr s' \<Longrightarrow> node_wf {} {} s'"
    and "n_spawns s = [] \<Longrightarrow> \<exists>s'. setup_threads os s = Inr s' \<and> n_spawns s' = []"
proof -
  have ok: "malloc s = (True, s)" by (rule node_wf_malloc[OF wf])
  have spawn: "node_wf {} {} u" if "vnet_spawn_listener s = Inr (r, u)" for r u
    using that wf ok node_wf_spawn(1)[of "{}" "{}" Th_Vnet s]
    by (auto simp: vnet_spawn_listener_def Let_def split: prod.splits if_splits)
  show "setup_threads os s = Inr s' \<Longrightarrow> node_wf {} {} s'"
    by (auto simp: setup_threads_def split: sum.splits prod.splits if_splits option.splits
        intro: dp_create_initial_keeps spawn)
  show "\<exists>s'. setup_threads os s = Inr s' \<and> n_spawns s' = []" if "n_spawns s = []"
    using that ok by (auto simp: setup_threads_def vnet_spawn_listener_def dp_spawn_th_def dp_create_initial_def
        dp_create_1_def malloc_def dp_cleanup_1_def Let_def split: option.split prod.split)
qed

lemma main_setup_start:
  assumes fr: "fresh_process s" and a: "sa_resolve sa = Some a"
  obtains t where "main_setup os sa s = Some (setup_threads os t)" "node_wf {} {} t" "n_spawns t = n_spawns s"
    "peers (n_dpg t) = []" "alone (v_mac (n_vnet t)) (n_rd t)"
proof -
  obtain r nd where nd: "vnet_init (tap_if os) (sa_tun sa) (sa_setif sa) (sa_hw sa) (sa_random sa) (n_vnet s) = (r, nd)" by (rule prod.exhaust)
  have "fresh_process (s\<lparr>n_vnet := nd\<rparr>)" using fr by (simp add: fresh_process_def)
  from setup_dpg_wf[OF this a] obtain s1 where s1: "setup_dpg sa (s\<lparr>n_vnet := nd\<rparr>) = Inr s1" "fresh_process s1"
    "n_spawns s1 = n_spawns s" "\<And>mac. dpg_wf mac (n_dpg s1)" "peers (n_dpg s1) = []"
    "ipheap (n_rd s1) IP_Main = Some \<lparr>ip_mac = v_mac nd, ip_in = a\<rparr>" "n_vnet s1 = nd" by auto
  have f1: "allocs (n_rd s1) = []" "hheap (n_rd s1) = Map.empty" "\<And>d. ipheap (n_rd s1) (IP_Heap d) = None"
    "n_peers s1 = Map.empty" "dp_blocks (n_rd s1) = Map.empty"
    using s1(2) by (auto simp: fresh_process_def dp_blocks_def)
  obtain rd where rd: "setup_routing s1 = Some (Inr (s1\<lparr>n_rd := rd\<rparr>))" "rd_ok rd" "dp_blocks rd = dp_blocks (n_rd s1)"
    "\<And>d. \<not> points_to rd d" "alone (v_mac nd) rd" by (rule setup_routing_wf[OF f1(1-3) s1(6)]) simp
  obtain d :: "ip_attempt da" where d: "DA_INIT PC_INIT_SZ [] = (False, d, [])" using DA_INIT_spare by blast
  define pc where "pc = (n_pc s1)\<lparr>ipas := d, p_lock := False\<rparr>"
  have init: "pcon_init (n_pc s1) [] = (0, pc, [])" using d by (simp add: pcon_init_def pc_def)
  let ?t = "s1\<lparr>n_pc := pc, n_rd := rd\<rparr>"
  have pcon: "setup_pcon (s1\<lparr>n_rd := rd\<rparr>) = Inr ?t"
    using init rd_okD(4)[OF rd(2)] by (simp add: setup_pcon_def set_allocs_def)
  have wf: "node_wf {} {} ?t"
    using rd f1 s1(4,5) pcon_init_wf(1)[OF init] by (simp add: node_wf_def)
  show thesis
    by (rule that[of ?t]) (use nd s1 rd pcon wf in \<open>simp_all add: main_setup_def\<close>)
qed

lemma main_setup_wf:
  assumes "fresh_process s" and "sa_resolve sa = Some a"
  shows "main_setup os sa s \<noteq> None" and "main_setup os sa s = Some (Inr s') \<Longrightarrow> node_wf {} {} s'"
    and "n_spawns s = [] \<Longrightarrow> \<exists>s'. main_setup os sa s = Some (Inr s') \<and> n_spawns s' = []"
proof -
  obtain t where t: "main_setup os sa s = Some (setup_threads os t)" "node_wf {} {} t" "n_spawns t = n_spawns s"
    by (rule main_setup_start[OF assms])
  note threads = setup_threads_wf[OF t(2)]
  show "main_setup os sa s \<noteq> None" by (simp add: t(1))
  show "main_setup os sa s = Some (Inr s') \<Longrightarrow> node_wf {} {} s'" using t(1) threads(1) by simp
  show "n_spawns s = [] \<Longrightarrow> \<exists>s'. main_setup os sa s = Some (Inr s') \<and> n_spawns s' = []" using t(1,3) threads(2) by simp
qed

lemma main_setup_resolved: "main_setup os sa s = Some (Inr s') \<Longrightarrow> sa_resolve sa \<noteq> None"
  by (cases "sa_resolve sa") (auto simp: main_setup_def setup_dpg_def dpg_init_def Let_def split: prod.splits if_splits)

text \<open>What the threads leave behind, put together.\<close>

lemma outcome_wf:
  assumes "node_wf G L s" and "outcome d G L (s, G, L) (Some (go, s'))"
  shows "if go then node_wf (insert d G) (insert d L) s' else node_wf G L s'"
  using assms node_steps_wf[of s G L s'] by (auto simp: outcome_def split: if_splits)

text \<open>A thread that goes on has taken no exit.\<close>

lemma goes_on:
  "(if b then at_fd d s else res) = Some (True, t) \<longleftrightarrow> \<not> b \<and> res = Some (True, t)"
  "(if b then at_dpg d s else res) = Some (True, t) \<longleftrightarrow> \<not> b \<and> res = Some (True, t)"
  "(if b then at_rt d s else res) = Some (True, t) \<longleftrightarrow> \<not> b \<and> res = Some (True, t)"
  "(if b then do { (r, s) \<leftarrow> dp_drop_link d s; at_dpg d s } else res) = Some (True, t) \<longleftrightarrow> \<not> b \<and> res = Some (True, t)"
  "(if b then do { (r, s) \<leftarrow> dp_group_remove d s; at_rt d s } else res) = Some (True, t) \<longleftrightarrow> \<not> b \<and> res = Some (True, t)"
  by (auto simp: at_fd_def at_dpg_def at_rt_def bind_Some_iff)

lemma dp_handle_join_zero: "dp_handle_join d s = Some (r, s') \<Longrightarrow> \<not> r < 0 \<Longrightarrow> dp_handle_join d s = Some (0, s')"
  by (auto simp: dp_handle_join_def bind_Some_iff split: if_splits)

lemma connect_inet_cases:
  obtains e where "connect_inet na = Inl e" | c where "connect_inet na = Inr c" "na_conn na = Some c"
proof (cases "connect_inet na")
  case (Inr c)
  then show thesis by (intro that(2)) (auto simp: connect_inet_def split: if_splits option.splits)
qed (rule that(1))

lemma dp_th_incoming_joined:
  assumes wf: "node_wf G L s" and un: "d \<notin> G \<union> L" and res: "dp_th_incoming d s = Some (True, s')"
  obtains m ts where "d \<in> set (peers (n_dpg s'))" "dp_mac s' d = Some m" "local_link (n_rd s') m 1000000 ts"
proof -
  from res obtain h s1 s2 s3 s4 hd where h: "dp_host s d = Some h"
    and s1: "with_peer d dp_recv_header (set_dp_host d (h\<lparr>ip_mac := junk_mac\<rparr>) s) = Some (hd, s1)"
    and s2: "dp_handle_join d s1 = Some (0, s2)" and s3: "dp_send_peer_linkstate d s2 = Some (0, s3)"
    and s4: "dp_group_insert d s3 = Some (0, s4)" and s5: "dp_first_link d s4 = Some (0, s')"
    by (auto simp: dp_th_incoming_def Let_def bind_Some_iff goes_on dest: dp_handle_join_zero)
  have live: "n_peers s d \<noteq> None" using node_wfD(5)[OF wf, of d] h by (simp add: dp_blocks_def dp_host_def)
  have wf1: "node_wf G L s1"
    by (rule node_wf_peers_only[OF dp_recv_header_peers[OF s1] node_wf_set_dp_host[OF wf un live]])
  have wf2: "node_wf G L s2" by (rule dp_handle_join_keeps[OF wf1 un s2])
  have wf3: "node_wf G L s3" by (rule dp_send_peer_linkstate_keeps(2)[OF wf2 s3])
  have m: "dp_mac s3 d \<noteq> None" using dp_handle_join_mac[OF s2] dp_send_peer_linkstate_mac[OF s3 wf2] by simp
  have wf4: "node_wf (insert d G) L s4" using dp_group_insert_keeps[OF wf3 m s4] by simp
  obtain a ts where "dp_mac s' d = Some a" "local_link (n_rd s') a 1000000 ts" "n_dpg s' = n_dpg s4"
    by (rule dp_first_link_links[OF wf4 s5])
  with that dp_group_insert_member[OF wf3 m s4] show thesis by simp
qed

lemma dp_th_initial_joined:
  assumes wf: "node_wf G L s" and un: "d \<notin> G \<union> L" and live: "n_peers s d \<noteq> None"
    and res: "dp_th_initial d na s = Some (True, s')"
  obtains m ts where "d \<in> set (peers (n_dpg s'))" "dp_mac s' d = Some m" "local_link (n_rd s') m 1000000 ts"
proof -
  from res obtain c addr s1 s2 s3 s4 s5 s6 r hd n where
    s1: "set_con d c (set_dp_host d \<lparr>ip_mac = junk_mac, ip_in = addr\<rparr> s) = Some s1"
    and s2: "dp_send_join d s1 = Some (r, s2)" and s3: "with_peer d dp_recv_header s2 = Some (hd, s3)"
    and s4: "dp_read_pkt_link_graph d n True s3 = Some (0, s4)"
    and s5: "dp_group_insert d s4 = Some (0, s5)" and s6: "dp_first_link d s5 = Some (0, s6)"
    and s7: "dp_send_probe_req d s6 = Some (0, s')"
    by (cases "connect_host na") (auto simp: dp_th_initial_def bind_Some_iff goes_on dest: at_fd_gone)
  have "node_wf G L s1" by (rule node_wf_peers_only[OF set_con_peers[OF s1] node_wf_set_dp_host[OF wf un live]])
  then have wf3: "node_wf G L s3"
    using node_wf_peers_only[OF dp_recv_header_peers[OF s3]] node_wf_peers_only[OF dp_send_join_peers[OF s2]] by blast
  have wf4: "node_wf G L s4" by (rule dp_read_pkt_link_graph_keeps[OF wf3 s4 un])
  have m: "dp_mac s4 d \<noteq> None" using dp_read_pkt_link_graph_mac[OF s4 wf3] by simp
  have wf5: "node_wf (insert d G) L s5" using dp_group_insert_keeps[OF wf4 m s5] by simp
  obtain a ts where "dp_mac s6 d = Some a" "local_link (n_rd s6) a 1000000 ts" "n_dpg s6 = n_dpg s5"
    by (rule dp_first_link_links[OF wf5 s6])
  with that dp_group_insert_member[OF wf4 m s5] peers_only_sel[OF dp_send_probe_req_keeps[OF s7]] show thesis by simp
qed

lemma dp_th_gone:
  assumes "dp_th d ep evs s = Some (False, s')"
  shows "n_peers s' d = None"
proof -
  have "n_peers t' d = None" if "dp_th_cleanup d t = Some t'" for t t'
    using that by (auto simp: dp_th_cleanup_def dp_cleanup_1_def bind_Some_iff)
  with assms show ?thesis by (auto simp: dp_th_def bind_Some_iff split: if_splits)
qed

end
