(* ===== verification/Node_Traffic.thy ===== *)
theory Node_Traffic
  imports Node_Threads
begin

text \<open>
  What travels between two nodes: the bytes that one sends and what the other makes of them, for
  link state, the join packet, probes and data frames.
\<close>

section \<open>Reading from the connection\<close>

text \<open>The node after \<open>n\<close> bytes were read from the connection \<open>c\<close> of its peer \<open>d\<close>.\<close>

abbreviation reading :: "dptr \<Rightarrow> peer \<Rightarrow> conn \<Rightarrow> nat \<Rightarrow> node \<Rightarrow> node" where
  "reading d dp c n s \<equiv> s\<lparr>n_peers := (n_peers s)(d \<mapsto> dp\<lparr>con_fd := Some (fed n c)\<rparr>)\<rparr>"

lemma malloc_spare: "allocs (n_rd s) = [] \<Longrightarrow> malloc s = (True, s)"
  by (simp add: malloc_def)

lemma read_header:
  assumes "n_peers s d = Some dp" and "con_fd dp = Some c" and "rx c = packet type len payload @ rest"
  shows "with_peer d dp_recv_header s = Some ((0, type, len), reading d dp c PL_HEADER s)"
  using dp_recv_header_packet[OF assms(2,3)] assms(1) by (simp add: with_peer_def)

lemma read_more:
  assumes "m + n \<le> length (rx c)"
  shows "with_peer d (recv n) (reading d dp c m s) = Some ((int n, take n (drop m (rx c))), reading d dp c (m + n) s)"
proof -
  have "recv n (dp\<lparr>con_fd := Some (fed m c)\<rparr>) = Some ((int n, take n (drop m (rx c))), dp\<lparr>con_fd := Some (fed (m + n) c)\<rparr>)"
    using recv_all[of "dp\<lparr>con_fd := Some (fed m c)\<rparr>" "fed m c" n] assms by simp
  then show ?thesis by (simp add: with_peer_def)
qed

lemma packet_rx:
  assumes "rx c = packet type len payload @ rest"
  shows "drop PL_HEADER (rx c) = payload @ rest" and "length (rx c) = PL_HEADER + length payload + length rest"
  using assms by (simp_all add: packet_def PL_HEADER_def)

section \<open>Link state\<close>

definition link_payload :: "ipv4_host \<Rightarrow> pkt_edge list \<Rightarrow> u8 list" where
  "link_payload me es = le_bytes 2 (htons (of_nat (length es))) @ host_bytes (pkt_ipv4_pack me) @ concat (map edge_bytes es)"

definition link_len :: "pkt_edge list \<Rightarrow> nat" where
  "link_len es = PL_EDGE * length es + PL_LINK_GRAPH_STATIC"

lemma length_edges: "length (concat (map edge_bytes es)) = PL_EDGE * length es"
  by (induction es) simp_all

lemma length_link_payload: "length (link_payload me es) = link_len es"
  by (simp add: link_payload_def link_len_def length_edges PL_LINK_GRAPH_STATIC_def)

text \<open>The number of edges that fit: the length is a 16-bit number.\<close>

lemma link_len_fits: "length es \<le> 1820 \<Longrightarrow> link_len es < 2 ^ 16"
  by (simp add: link_len_def PL_EDGE_def PL_LINK_GRAPH_STATIC_def PL_HOST_def)

lemma link_edge_ct_link_len:
  assumes "length es \<le> 1820"
  shows "link_edge_ct (link_len es) = of_nat (length es)"
proof -
  have "link_len es - PL_LINK_GRAPH_STATIC = PL_EDGE * length es" by (simp add: link_len_def)
  moreover have "PL_EDGE * length es < 2 ^ 64" "(0::nat) < PL_EDGE" using assms by (simp_all add: PL_EDGE_def PL_HOST_def)
  ultimately show ?thesis
    by (simp add: link_edge_ct_def link_len_def)
qed

lemma link_payload_parts:
  assumes "length es \<le> 1820"
  shows "ntohs (of_le_bytes (take 2 (link_payload me es))) = of_nat (length es)"
    and "edges_of_bytes (length es) (drop PL_LINK_GRAPH_STATIC (link_payload me es)) = es"
proof -
  show "ntohs (of_le_bytes (take 2 (link_payload me es))) = of_nat (length es)"
    by (simp add: link_payload_def of_le_bytes_le_bytes)
  have "drop PL_LINK_GRAPH_STATIC (link_payload me es) = concat (map edge_bytes es) @ []"
    by (simp add: link_payload_def PL_LINK_GRAPH_STATIC_def)
  then show "edges_of_bytes (length es) (drop PL_LINK_GRAPH_STATIC (link_payload me es)) = es"
    by (simp only: edges_of_bytes_concat)
qed

lemma dp_send_linkstate_bytes:
  assumes "con_fd dp = Some c" and "\<not> wlock dp" and "no_errors c"
  obtains as where "dp_send_linkstate me es dp = Some (0, dp\<lparr>con_fd :=
      Some (sent (packet PT_LINK_GRAPH (of_nat (link_len es)) (link_payload me es)) as c)\<rparr>)"
  by (rule dp_send_linkstate_cases[OF assms, of me es]) (simp add: link_len_def link_payload_def)

lemma dp_recv_linkstate:
  assumes p: "n_peers s d = Some dp" "con_fd dp = Some c" and mem: "allocs (n_rd s) = []"
    and rx: "rx c = packet PT_LINK_GRAPH (of_nat (link_len es)) (link_payload me es) @ rest" and few: "length es \<le> 1820"
  shows "dp_recv_packet d s = do {
      t \<leftarrow> foldM connect_edge es (reading d dp c (PL_HEADER + link_len es) s);
      (ret, rd) \<leftarrow> rt_update_edges (n_rd t) es;
      Some (ret, t\<lparr>n_rd := rd\<rparr>) }"
proof -
  let ?s = "reading d dp c PL_HEADER s"
  have fits: "unat (of_nat (link_len es) :: u16) = link_len es" using link_len_fits[OF few] by (simp add: unat_of_nat)
  have k: "unat (of_nat (length es) :: u16) = length es" using few by (simp add: unat_of_nat)
  have mem1: "malloc ?s = (True, ?s)" using mem by (simp add: malloc_spare)
  note r = packet_rx[OF rx]
  have read: "with_peer d (recv (link_len es)) ?s =
      Some ((int (link_len es), link_payload me es), reading d dp c (PL_HEADER + link_len es) s)"
    using read_more[of PL_HEADER "link_len es" c] r by (simp add: length_link_payload)
  have ge: "\<not> link_len es < 2" "\<not> link_len es < PL_LINK_GRAPH_STATIC + PL_EDGE * length es"
    by (simp_all add: link_len_def PL_LINK_GRAPH_STATIC_def)
  have "dp_recv_packet d s = dp_read_pkt_link_graph d (link_len es) False ?s"
    using read_header[OF p rx] fits by (simp add: dp_recv_packet_def PT_LINK_GRAPH_def PT_DATA_def)
  also have "\<dots> = do {
      t \<leftarrow> foldM connect_edge es (reading d dp c (PL_HEADER + link_len es) s);
      (ret, rd) \<leftarrow> rt_update_edges (n_rd t) es;
      Some (ret, t\<lparr>n_rd := rd\<rparr>) }"
    using mem1 read ge link_payload_parts[OF few] link_edge_ct_link_len[OF few] k
    by (simp add: dp_read_pkt_link_graph_def Let_def)
  finally show ?thesis .
qed

section \<open>Joining\<close>

text \<open>The bytes of the join packet.\<close>

definition join_payload :: "node \<Rightarrow> u8 list" where
  "join_payload s = host_bytes \<lparr>p_ip = sin_addr (l_addr (n_dpg s)), p_port = sin_port (l_addr (n_dpg s)), p_mac = v_mac (n_vnet s)\<rparr>"

lemma dp_send_join_bytes:
  assumes "n_peers s d = Some dp" and "con_fd dp = Some c" and "\<not> wlock dp" and "no_errors c"
  obtains as where "dp_send_join d s = Some (0, s\<lparr>n_peers := (n_peers s)(d \<mapsto>
      dp\<lparr>con_fd := Some (sent (packet PT_JOIN_PART (of_nat PL_JOIN) (join_payload s)) as c)\<rparr>)\<rparr>)"
    "no_errors (sent (packet PT_JOIN_PART (of_nat PL_JOIN) (join_payload s)) as c)"
proof -
  have len: "unat (of_nat PL_JOIN :: u16) = PL_JOIN" "length (join_payload s) = PL_JOIN"
    by (simp_all add: PL_JOIN_def PL_HOST_def join_payload_def)
  show thesis
    by (rule dp_send_packet_cases[OF assms(2,3), of "of_nat PL_JOIN" "join_payload s" PT_JOIN_PART])
      (use len assms that in \<open>auto simp: dp_send_join_def with_peer_def Let_def join_payload_def\<close>)
qed

lemma dp_handle_join_bytes:
  assumes "n_peers t e = Some dp" and "con_fd dp = Some c" and "rx c = join_payload s @ rest"
    and "sin_family (l_addr (n_dpg s)) = AF_INET"
  shows "dp_handle_join e t = Some (0, set_dp_host e (own_host s) (reading e dp c PL_JOIN t))"
proof -
  have len: "length (join_payload s) = PL_JOIN" by (simp add: PL_JOIN_def join_payload_def)
  have "with_peer e (recv PL_JOIN) t = Some ((int PL_JOIN, join_payload s), reading e dp c PL_JOIN t)"
    using recv_all[OF assms(2), of PL_JOIN] assms(1,3) len by (simp add: with_peer_def)
  moreover have "pkt_ipv4_unpack (host_of_bytes (join_payload s)) = own_host s"
    using assms(4) by (cases "l_addr (n_dpg s)") (simp add: join_payload_def pkt_ipv4_unpack_def own_host_def)
  ultimately show ?thesis by (simp add: dp_handle_join_def)
qed

section \<open>Probes\<close>

text \<open>An answer to the probe that is under way measures the time since it was sent.\<close>

lemma dp_handle_probe_resp_match:
  assumes p: "n_peers s d = Some dp" "con_fd dp = Some c" and rx: "rx c = le_bytes 2 (probe_seq dp) @ rest"
    and clock: "n_clock s = t1 # t2 # ts"
    and res: "dp_handle_probe_resp d s = Some (r, s')"
  shows "rt_dhost_add_link t2 (n_rd s) (IP_Dp d) (word_of_int (tv_us t1 - tv_us (probe_send_time dp))) = Some (r, n_rd s')"
proof -
  have "with_peer d (recv PL_PROBE_RESP) s = Some ((2, le_bytes 2 (probe_seq dp)), reading d dp c 2 s)"
    using recv_all[OF p(2), of 2] p(1) rx by (simp add: with_peer_def PL_PROBE_RESP_def)
  with res clock show ?thesis
    by (auto simp: dp_handle_probe_resp_def PL_PROBE_REQ_def of_le_bytes_le_bytes gettimeofday_def Let_def
        timersub_us bind_Some_iff)
qed

text \<open>Any other answer is dropped.\<close>

lemma dp_handle_probe_resp_other:
  assumes p: "n_peers s d = Some dp" "con_fd dp = Some c" and rx: "rx c = le_bytes 2 q @ rest" and q: "q \<noteq> probe_seq dp"
  shows "dp_handle_probe_resp d s = Some (0, reading d dp c PL_PROBE_RESP s)"
proof -
  have "with_peer d (recv PL_PROBE_RESP) s = Some ((2, le_bytes 2 q), reading d dp c PL_PROBE_RESP s)"
    using recv_all[OF p(2), of 2] p(1) rx by (simp add: with_peer_def PL_PROBE_RESP_def)
  with q show ?thesis by (simp add: dp_handle_probe_resp_def PL_PROBE_REQ_def of_le_bytes_le_bytes)
qed

section \<open>Frames\<close>

text \<open>Peers whose connection takes data.\<close>

definition connected :: "dptr set \<Rightarrow> node \<Rightarrow> bool" where
  "connected L s \<longleftrightarrow> (\<forall>d\<in>L. \<exists>dp c. n_peers s d = Some dp \<and> con_fd dp = Some c \<and> no_errors c)"

lemma send_frame_to_peer:
  assumes "n_peers s d = Some dp" and "con_fd dp = Some c" and "\<not> wlock dp" and "no_errors c" and "length pkt < 2 ^ 16"
  obtains as where "send_frame_to pkt (IP_Dp d) s = Some (s\<lparr>n_peers := (n_peers s)(d \<mapsto>
      dp\<lparr>con_fd := Some (sent (packet PT_DATA (of_nat (length pkt)) pkt) as c)\<rparr>)\<rparr>)"
proof -
  have len: "unat (of_nat (length pkt) :: u16) = length pkt" using assms(5) by (simp add: unat_of_nat)
  show thesis
    by (rule dp_send_packet_cases[OF assms(2,3), of "of_nat (length pkt)" pkt PT_DATA])
      (use len assms that in \<open>auto simp: send_frame_to_def dp_send_data_def with_peer_def\<close>)
qed

text \<open>A frame for a host that is linked leaves unchanged through one peer.\<close>

lemma forward_frame_linked:
  assumes wf: "node_wf G L s" and cur: "paths_current (n_rd s)" and link: "local_link (n_rd s) mac rtt ts" "rtt \<noteq> 0"
    and uni: "\<not> ether_addr_is_mcast mac" and con: "connected L s" and len: "length pkt < 2 ^ 16"
  obtains d dp c as where "d \<in> L" "n_peers s d = Some dp" "con_fd dp = Some c"
    "forward_frame src mac pkt s = Some (0, s\<lparr>n_peers := (n_peers s)(d \<mapsto>
       dp\<lparr>con_fd := Some (sent (packet PT_DATA (of_nat (length pkt)) pkt) as c)\<rparr>)\<rparr>)"
proof -
  let ?rd = "n_rd s" and ?t = "(n_rd s)\<lparr>lock := RW_Read 1\<rparr>"
  have ok: "rd_ok ?rd" by (rule node_wfD(1)[OF wf])
  have rt: "rt_wf ?rd" "allocs ?rd = []" "lock ?rd = RW_Free" using rd_okD[OF ok] by simp_all
  have lk: "rdlock ?rd = Some ?t" using rt(3) by (simp add: rdlock_def)
  obtain c where c: "c < length (host_list ?rd)" "local_host ?rd = Some (host_list ?rd ! c)"
    and run: "rt_dhosts_to_host ?rd src mac = ucast_host ?t c mac"
    and tw: "rt_wf ?t" "paths_current ?t" and fnd: "find_host_by_addr ?t = find_host_by_addr ?rd" "path_at ?t = path_at ?rd"
    by (rule rt_dhosts_to_host_start[OF rt(1) cur lk]) (simp add: uni)
  obtain j where j: "find_host_by_addr ?rd mac = Some (Some j)" "j < length (host_list ?rd)" "j \<noteq> c"
    "path_at ?rd c j \<noteq> Some 0" by (rule local_link_path[OF rt(1) cur c link])
  obtain k h d where d: "ucast_host ?t c mac = Some (0, [IP_Dp d], ?t)" "is_peer ?t k"
      "hheap ?t (host_list ?t ! k) = Some h" "h_host h = IP_Dp d"
    by (rule ucast_host_ok[OF tw, of c mac j]) (use rt(2) c j fnd in auto)
  have "(host_list ?rd ! k, d) \<in> heap_ptrs ?rd" using d by (auto simp: heap_ptrs_def)
  then have dL: "d \<in> L" using node_wfD(8)[OF wf, of d] rd_ok_points[OF ok, of d] by blast
  with con obtain dp f where p: "n_peers s d = Some dp" "con_fd dp = Some f" "no_errors f"
    by (auto simp: connected_def)
  have free: "\<not> wlock dp" by (rule node_wfD(6)[OF wf p(1)])
  obtain as where as: "send_frame_to pkt (IP_Dp d) (s\<lparr>n_rd := ?t\<rparr>) = Some (s\<lparr>n_rd := ?t, n_peers := (n_peers s)(d \<mapsto>
      dp\<lparr>con_fd := Some (sent (packet PT_DATA (of_nat (length pkt)) pkt) as f)\<rparr>)\<rparr>)"
    by (rule send_frame_to_peer[of "s\<lparr>n_rd := ?t\<rparr>" d dp f pkt]) (use p free len in simp_all)
  have un: "unlock ?t = Some ?rd" using rt(3) by (simp add: unlock_def)
  show thesis
    by (rule that[OF dL p(1,2), of as]) (use run d(1) as un in \<open>simp add: forward_frame_def rt_hosts_free_def\<close>)
qed

text \<open>A data packet from a peer, up to the point where the frame is passed on.\<close>

lemma dp_recv_frame:
  assumes p: "n_peers s e = Some dp" "con_fd dp = Some c" and mem: "allocs (n_rd s) = []"
    and rx: "rx c = packet PT_DATA (of_nat (length pkt)) pkt @ rest" and len: "ETHER_HDR_MACS \<le> length pkt" "length pkt < 2 ^ 16"
  shows "dp_recv_packet e s = do {
      (ret, t) \<leftarrow> forward_frame (frame_src pkt) (frame_dst pkt) pkt (reading e dp c (PL_HEADER + length pkt) s);
      Some (if ret < 0 then - 1 else 0, t) }"
proof -
  let ?s = "reading e dp c PL_HEADER s"
  have fits: "unat (of_nat (length pkt) :: u16) = length pkt" using len(2) by (simp add: unat_of_nat)
  have mem1: "malloc ?s = (True, ?s)" using mem by (simp add: malloc_spare)
  have read: "with_peer e (recv (length pkt)) ?s = Some ((int (length pkt), pkt), reading e dp c (PL_HEADER + length pkt) s)"
    using read_more[of PL_HEADER "length pkt" c] packet_rx[OF rx] by simp
  have "dp_recv_packet e s = dp_recv_data e (length pkt) ?s"
    using read_header[OF p rx] fits by (simp add: dp_recv_packet_def)
  with mem1 read len(1) show ?thesis by (simp add: dp_recv_data_def)
qed

text \<open>The state after reading is as good as the one before.\<close>

lemma reading_wf:
  assumes "node_wf G L s" and "n_peers s d = Some dp"
  shows "node_wf G L (reading d dp c n s)"
  by (rule node_wf_peer[OF assms]) (use node_wfD(6)[OF assms] in simp)

lemma reading_connected:
  assumes "connected L s" and "n_peers s d = Some dp" and "con_fd dp = Some c"
  shows "connected L (reading d dp c n s)"
  using assms by (auto simp: connected_def)

text \<open>A frame for a host that the table does not know is refused, with nothing changed.\<close>

lemma forward_frame_unknown:
  assumes wf: "node_wf G L s" and cur: "paths_current (n_rd s)" and uni: "\<not> ether_addr_is_mcast mac"
    and unknown: "\<forall>p\<in>set (host_list (n_rd s)). host_mac (n_rd s) p \<noteq> Some mac"
  shows "forward_frame src mac pkt s = Some (- 1, s)"
proof -
  let ?rd = "n_rd s" and ?t = "(n_rd s)\<lparr>lock := RW_Read 1\<rparr>"
  have rt: "rt_wf ?rd" "lock ?rd = RW_Free" using rd_okD[OF node_wfD(1)[OF wf]] by simp_all
  have lk: "rdlock ?rd = Some ?t" using rt(2) by (simp add: rdlock_def)
  obtain c where run: "rt_dhosts_to_host ?rd src mac = ucast_host ?t c mac"
    and fnd: "find_host_by_addr ?t = find_host_by_addr ?rd"
    by (rule rt_dhosts_to_host_start[OF rt(1) cur lk]) (simp add: uni)
  have none: "find_host_by_addr ?rd mac = Some None"
    by (cases rule: find_host_by_addr_cases[OF rt_wf_da[OF rt(1)] rt_wf_ascending[OF rt(1)], of mac]) (use unknown in auto)
  have un: "unlock ?t = Some ?rd" using rt(2) by (simp add: unlock_def)
  show ?thesis using run fnd none un by (simp add: forward_frame_def ucast_host_def error_ret_def)
qed

section \<open>An answer under another address\<close>

text \<open>
  The address of a peer that is in the table already is overwritten (\<open>dp_read_pkt_link_graph\<close> called by
  \<open>dp_th_linkstate\<close>).  If it becomes that of another host, the table has two hosts with one address.
\<close>

lemma populate_mac_collides:
  assumes pop: "populate_mac d plink s = Some s'"
    and p: "p \<in> set (host_list (n_rd s))" "hheap (n_rd s) p = Some h" "h_host h = IP_Dp d"
    and q: "q \<in> set (host_list (n_rd s))" "hheap (n_rd s) q = Some g" "h_host g \<noteq> IP_Dp d"
      "host_mac (n_rd s) q = Some (mac_of_bytes (drop 8 plink))"
  shows "\<not> rt_wf (n_rd s')"
proof
  assume wf: "rt_wf (n_rd s')"
  from pop obtain v where s': "s' = set_dp_host d (v\<lparr>ip_mac := mac_of_bytes (drop 8 plink)\<rparr>) s"
    by (auto simp: populate_mac_def bind_Some_iff split: if_splits)
  have hosts: "host_list (n_rd s') = host_list (n_rd s)" by (simp add: s' set_dp_host_def)
  have "host_mac (n_rd s') p = host_mac (n_rd s') q"
    using p q by (auto simp: s' set_dp_host_def host_mac_def bind_Some_iff)
  moreover have "host_mac (n_rd s') q \<noteq> None"
    using q by (auto simp: s' set_dp_host_def host_mac_def bind_Some_iff)
  ultimately have "p = q" using rt_wf_mac_inj[OF wf, of p q] p(1) q(1) hosts by simp
  with p q show False by auto
qed

end
