(* ===== verification/Node_Joining.thy ===== *)
theory Node_Joining
  imports Node_Traffic
begin

text \<open>
  A host that is not known yet always gets in: the table grows by one host, so that the matrices no
  longer fit it, nothing is trimmed, and \<open>update_cache\<close> returns.
\<close>

section \<open>A new host in the table\<close>

definition has_room :: "routing \<Rightarrow> bool" where
  "has_room s \<longleftrightarrow> mats s \<noteq> M_Dangling \<and> m_ct s \<le> da_ct (hosts s) \<and> few_links s"

definition unknown :: "ether_addr \<Rightarrow> routing \<Rightarrow> bool" where
  "unknown m s \<longleftrightarrow> (\<forall>p\<in>set (host_list s). host_mac s p \<noteq> Some m)"

lemma unknown_link:
  assumes wf: "rt_wf s" and "unknown m s" and "p \<in> set (host_list s)" "hheap s p = Some h" "l \<in> set (links_of h)"
  shows "link_mac s l \<noteq> Some m"
  using rt_wf_links[OF wf assms(3,4)] assms(2,5) by (auto simp: links_wf_def unknown_def link_mac_def)

lemma new_dhost_link_room:
  assumes wf: "rt_wf s" and al: "allocs s = []" and sh: "local_host s = Some sh" "hheap s sh = Some h"
    and ip: "ipheap s (IP_Dp d) = Some ip" and un: "unknown (ip_mac ip) s" and room: "has_room s"
  obtains s' where "new_dhost_link ts s sh (IP_Dp d) (ip_mac ip) rtt = Some (0, s')" "rt_wf s'" "few_links s'"
    "mats s' = mats s" "m_ct s' \<noteq> da_ct (hosts s')" "allocs s' = []"
proof -
  have shl: "sh \<in> set (host_list s)" by (rule rt_wf_localE[OF wf]) (use sh in auto)
  have miss: "find_host_by_addr s (ip_mac ip) = Some None"
    by (cases rule: find_host_by_addr_cases[OF rt_wf_da[OF wf] rt_wf_ascending[OF wf], of "ip_mac ip"])
      (use un in \<open>auto simp: unknown_def\<close>)
  have fit: "ptr_fits HT_DIRECT (IP_Dp d)" by simp
  have type: "HT_DIRECT \<noteq> HT_LOCAL" by simp
  show thesis
  proof (cases rule: host_add_cases[OF wf ip type fit])
    case (1 p)
    with un show thesis by (auto simp: unknown_def)
  next
    case (2 ret t)
    with host_add_spare[OF al 2(1)] miss ip show thesis by (auto simp: host_add_def)
  next
    case (3 t g)
    note ex = rt_wf_extends[OF wf 3(3)]
    have ct: "length (host_list t) = Suc (length (host_list s))" using arg_cong[OF 3(4), of size] by simp
    have dat: "allocs t = []" by (rule host_add_spare(2)[OF al 3(1)])
    have sht: "hheap t sh = Some h" "local_host t = Some sh" "sh \<in> set (host_list t)"
      using ex(1)[OF shl] sh 3(3) shl set_add[OF 3(4)] by (simp_all add: extends_def)
    have new: "brk s \<in> set (host_list t)" "brk s \<noteq> sh"
      using set_add[OF 3(4)] sh(2) rt_wf_heap[OF wf] by (auto simp: heap_wf_def)
    have old: "brk s \<notin> set (host_list s)"
      by (rule notI, erule rt_wf_hostE[OF wf]) (use rt_wf_heap[OF wf] in \<open>simp add: heap_wf_def\<close>)
    have loc: "brk s \<notin> l_dst ` set (links_of h) \<and> (\<exists>g. hheap t (brk s) = Some g \<and> h_type g = HT_DIRECT)"
      using rt_wf_links[OF wf shl sh(2)] 3(5,6) old by (auto simp: links_wf_def)
    have few: "length (links_of f) \<le> length (host_list s)" if "p \<in> set (host_list t)" "hheap t p = Some f" for p f
      using that 3(5,7,12) set_add[OF 3(4)] room by (cases "p = brk s") (auto simp: has_room_def few_links_def)
    show thesis
    proof (cases rule: link_add_wf[OF 3(2) sht(3,1) new loc, of rtt ts])
      case (1 al)
      with link_add_spare(1)[OF dat 1] show thesis by simp
    next
      case (2 al ls)
      let ?u = "set_host sh (h\<lparr>h_links := ls, h_l_max_ts_ms := max ts (h_l_max_ts_ms h)\<rparr>) (t\<lparr>allocs := al\<rparr>)"
      have "length (da_list ls) = Suc (length (links_of h))" using arg_cong[OF 2(2), of size] by simp
      then have "few_links ?u" using few few[OF sht(3,1)] ct by (auto simp: few_links_def le_SucI)
      moreover have "new_dhost_link ts s sh (IP_Dp d) (ip_mac ip) rtt = Some (0, ?u)"
        using miss 3(1) 2(1) by (simp add: new_dhost_link_def)
      moreover have "m_ct ?u \<noteq> da_ct (hosts ?u)" "mats ?u = mats s"
        using room 3(3) ct length_da_list[OF rt_wf_da[OF wf]] length_da_list[OF rt_wf_da[OF 3(2)]]
        by (auto simp: has_room_def extends_def set_host_def)
      ultimately show thesis using that 2(3) link_add_spare(2)[OF dat 2(1)] by blast
    qed
  qed
qed

lemma rt_dhost_add_link_room:
  assumes ok: "rd_ok s" and ip: "ipheap s (IP_Dp d) = Some ip" and un: "unknown (ip_mac ip) s" and room: "has_room s"
  shows "\<exists>s'. rt_dhost_add_link now s (IP_Dp d) rtt = Some (0, s')"
proof -
  note D = rd_okD[OF ok]
  let ?s = "locked s" and ?ts = "word_of_int (tv_ms now) :: u64"
  obtain c p h m where c: "c < length (host_list s)" "host_list s ! c = p" "local_host s = Some p"
    "hheap s p = Some h" "host_mac s p = Some m" "host_wf s p h" "find_host_by_addr s m = Some (Some c)"
    by (rule rt_wf_local_index[OF D(1)])
  have idx: "index_to_host s c = Some p" using index_to_host_list[OF rt_wf_da[OF D(1)] c(1)] c(2) by simp
  have pin: "p \<in> set (host_list s)" using c(1,2) by auto
  have ne: "m \<noteq> ip_mac ip" using un pin c(5) by (auto simp: unknown_def)
  have ls: "da_wf (h_links h)" "ascending (link_mac ?s) (links_of h)"
    using c(6) by (simp_all add: host_wf_def links_wf_def)
  have nolink: "find_link_by_addr ?s (h_links h) (ip_mac ip) = Some None"
  proof (cases rule: find_link_by_addr_cases[OF ls, of "ip_mac ip"])
    case (1 j)
    with unknown_link[OF D(1) un pin c(4), of "links_of h ! j"] show ?thesis by simp
  qed simp
  obtain s1 where s1: "new_dhost_link ?ts ?s p (IP_Dp d) (ip_mac ip) rtt = Some (0, s1)" "rt_wf s1" "few_links s1"
    "mats s1 = mats ?s" "m_ct s1 \<noteq> da_ct (hosts s1)" "allocs s1 = []"
    by (rule new_dhost_link_room[of ?s p h d ip ?ts rtt])
      (use D c(3,4) ip un room in \<open>simp_all add: unknown_def has_room_def few_links_def\<close>)
  have "mats s1 \<noteq> M_Dangling" using s1(4) room by (simp add: has_room_def)
  from update_cache_returns[OF s1(2) this s1(3)] s1(5) obtain r s2 where s2: "update_cache s1 = Some (r, s2)" by blast
  have "r = 0" using update_cache_spare[OF s1(6) s2] by simp
  moreover have "lock s2 = RW_Write" using update_cache_lock[OF s2] new_dhost_link_lock[OF s1(1)] by simp
  ultimately show ?thesis using c idx ne nolink s1(1) s2 D(3) ip
    by (simp add: rt_dhost_add_link_def wrlock_def mac_cmp_eq Let_def unlock_ret_Write)
qed

section \<open>Joining\<close>

lemma dp_first_link_room:
  assumes wf: "node_wf G L s" and p: "n_peers s d \<noteq> None" and h: "dp_host s d = Some h"
    and un: "unknown (ip_mac h) (n_rd s)" and room: "has_room (n_rd s)"
  shows "\<exists>s'. dp_first_link d s = Some (0, s')"
proof -
  from p obtain dp where dp: "n_peers s d = Some dp" by auto
  obtain now u where u: "gettimeofday (s\<lparr>n_peers := (n_peers s)(d \<mapsto> dp\<lparr>rtt_us := 1000000\<rparr>)\<rparr>) = (now, u)"
    by (rule prod.exhaust)
  then have "n_rd u = n_rd s" by (auto simp: gettimeofday_def split: list.splits)
  with rt_dhost_add_link_room[OF node_wfD(1)[OF wf] _ un room, of d now 1000000] h dp u show ?thesis
    by (auto simp: dp_first_link_def dp_host_def)
qed

lemma dp_group_insert_room:
  assumes wf: "node_wf G L s" and m: "dp_mac s d = Some m" and un: "\<forall>e\<in>set (peers (n_dpg s)). dp_mac s e \<noteq> Some m"
  obtains s' where "dp_group_insert d s = Some (0, s')" "n_rd s' = n_rd s" "n_peers s' = n_peers s"
proof (cases rule: dpg_insert_cases[OF node_wfD(2)[OF wf] m, of "allocs (n_rd s)"])
  case (1 q)
  with un show thesis by auto
next
  case (2 al)
  then show thesis using dpg_insert_refused[OF 2] rd_okD(4)[OF node_wfD(1)[OF wf]] by simp
next
  case (3 g al)
  have mem: "allocs (n_rd s) = []" by (rule rd_okD(4)[OF node_wfD(1)[OF wf]])
  then have "al = []" using 3(1) dpg_insert_spare by simp
  with 3(1) mem that[of "s\<lparr>n_dpg := g\<rparr>"] show thesis by (simp add: dp_group_insert_def)
qed

text \<open>The connection of a peer.\<close>

definition conn_of :: "node \<Rightarrow> dptr \<Rightarrow> conn option" where
  "conn_of s d = do { dp \<leftarrow> n_peers s d; con_fd dp }"

lemma conn_of_first_link:
  assumes "dp_first_link d s = Some (r, s')"
  shows "conn_of s' d = conn_of s d"
proof -
  from assms obtain dp where dp: "n_peers s d = Some dp" by (auto simp: dp_first_link_def bind_Some_iff)
  obtain now u where u: "gettimeofday (s\<lparr>n_peers := (n_peers s)(d \<mapsto> dp\<lparr>rtt_us := 1000000\<rparr>)\<rparr>) = (now, u)"
    by (rule prod.exhaust)
  then have "n_peers u d = Some (dp\<lparr>rtt_us := 1000000\<rparr>)" by (auto simp: gettimeofday_def split: list.splits)
  with assms dp u show ?thesis by (auto simp: dp_first_link_def conn_of_def Let_def bind_Some_iff)
qed

text \<open>The link state a node sends as its first answer.\<close>

definition state_packet :: "node \<Rightarrow> u8 list" where
  "state_packet s = packet PT_LINK_GRAPH (of_nat (link_len (da_list (edges (n_rd s)))))
     (link_payload (own_host s) (da_list (edges (n_rd s))))"

lemma dp_send_peer_linkstate_room:
  assumes wf: "node_wf G L s" and p: "n_peers s d = Some dp" "con_fd dp = Some c" "no_errors c"
  obtains s' as where "dp_send_peer_linkstate d s = Some (0, s')" "conn_of s' d = Some (sent (state_packet s) as c)"
proof -
  have free: "lock (n_rd s) = RW_Free" by (rule rd_okD(3)[OF node_wfD(1)[OF wf]])
  have "\<not> wlock dp" by (rule node_wfD(6)[OF wf p(1)])
  from dp_send_linkstate_bytes[OF p(2) this p(3)] obtain as where
    "dp_send_linkstate (own_host s) (da_list (edges (n_rd s))) dp = Some (0, dp\<lparr>con_fd := Some (sent (state_packet s) as c)\<rparr>)"
    unfolding state_packet_def by metis
  with that[of _ as] p(1) free show thesis
    by (simp add: dp_send_peer_linkstate_def rt_get_edges_def rdlock_def rt_edges_free_def unlock_def with_peer_def conn_of_def)
qed

text \<open>The address of a peer the table does not point to does not matter to the table.\<close>

lemma unknown_dp_block:
  assumes "\<not> points_to s d"
  shows "unknown m (s\<lparr>ipheap := (ipheap s)(IP_Dp d := v)\<rparr>) \<longleftrightarrow> unknown m s"
proof -
  have "host_mac (s\<lparr>ipheap := (ipheap s)(IP_Dp d := v)\<rparr>) p = host_mac s p" if "p \<in> set (host_list s)" for p
    using that assms by (cases "hheap s p") (auto simp: points_to_def host_mac_def)
  then show ?thesis by (simp add: unknown_def)
qed

lemma dp_th_incoming_grants:
  assumes wf: "node_wf G L s" and d: "d \<notin> G \<union> L" and p: "n_peers s d = Some dp" "con_fd dp = Some c" "no_errors c"
    and h0: "dp_host s d = Some h0" and rx: "rx c = packet PT_JOIN_PART (of_nat PL_JOIN) (host_bytes host) @ rest"
    and un: "unknown (p_mac host) (n_rd s)" "\<forall>e\<in>set (peers (n_dpg s)). dp_mac s e \<noteq> Some (p_mac host)"
    and room: "has_room (n_rd s)"
  obtains s' c' where "dp_th_incoming d s = Some (True, s')" "dp_mac s' d = Some (p_mac host)"
    "conn_of s' d = Some c'" "tx c' = tx c @ state_packet s"
proof -
  let ?s0 = "set_dp_host d (h0\<lparr>ip_mac := junk_mac\<rparr>) s"
  let ?s1 = "reading d dp c PL_HEADER ?s0"
  let ?s2 = "set_dp_host d (pkt_ipv4_unpack host) (reading d dp c (PL_HEADER + PL_JOIN) ?s0)"
  have wf0: "node_wf G L ?s0" by (rule node_wf_set_dp_host[OF wf d]) (simp add: p)
  have hd: "with_peer d dp_recv_header ?s0 = Some ((0, PT_JOIN_PART, of_nat PL_JOIN), ?s1)"
    using read_header[of ?s0 d dp c, OF _ p(2) rx] p(1) by (simp add: set_dp_host_def)
  have len: "unat (of_nat PL_JOIN :: u16) = PL_JOIN" "length (host_bytes host) = PL_JOIN"
    by (simp_all add: PL_JOIN_def PL_HOST_def)
  have "with_peer d (recv PL_JOIN) ?s1 = Some ((int PL_JOIN, host_bytes host), reading d dp c (PL_HEADER + PL_JOIN) ?s0)"
    using read_more[of PL_HEADER PL_JOIN c d ?s0 dp] packet_rx[OF rx] len by simp
  then have join: "dp_handle_join d ?s1 = Some (0, ?s2)" by (simp add: dp_handle_join_def)
  have wf1: "node_wf G L ?s1" by (rule node_wf_peers_only[OF dp_recv_header_peers[OF hd] wf0])
  have wf2: "node_wf G L ?s2" by (rule dp_handle_join_keeps[OF wf1 d join])
  have p2: "n_peers ?s2 d = Some (dp\<lparr>con_fd := Some (fed (PL_HEADER + PL_JOIN) c)\<rparr>)" by (simp add: set_dp_host_def)
  obtain s3 as where s3: "dp_send_peer_linkstate d ?s2 = Some (0, s3)"
    and c3: "conn_of s3 d = Some (sent (state_packet ?s2) as (fed (PL_HEADER + PL_JOIN) c))"
    by (rule dp_send_peer_linkstate_room[OF wf2 p2, of "fed (PL_HEADER + PL_JOIN) c"]) (use p(3) in \<open>simp_all add: no_errors_def\<close>)
  note k3 = dp_send_peer_linkstate_keeps[OF wf2 s3]
  note e3 = peers_only_sel[OF k3(1)]
  have m3: "dp_mac s3 d = Some (p_mac host)" by (simp add: e3 pkt_ipv4_unpack_def)
  have out: "d \<notin> set (peers (n_dpg s))" "\<not> points_to (n_rd s) d" using node_wfD(7,8)[OF wf] d by auto
  have un3: "\<forall>e\<in>set (peers (n_dpg s3)). dp_mac s3 e \<noteq> Some (p_mac host)"
    using un(2) out(1) by (auto simp: e3 dp_mac_def dp_host_def set_dp_host_def)
  obtain s4 where s4: "dp_group_insert d s3 = Some (0, s4)" "n_rd s4 = n_rd s3" "n_peers s4 = n_peers s3"
    by (rule dp_group_insert_room[OF k3(2) m3 un3])
  have wf4: "node_wf (insert d G) L s4" using dp_group_insert_keeps[OF k3(2) _ s4(1)] m3 by simp
  have rd: "n_rd s4 = (n_rd s)\<lparr>ipheap := (ipheap (n_rd s))(IP_Dp d := Some (pkt_ipv4_unpack host))\<rparr>"
    by (simp add: s4(2) e3 set_dp_host_def)
  have un4: "unknown (p_mac host) (n_rd s4)" unfolding rd unknown_dp_block[OF out(2)] by (rule un(1))
  have room4: "has_room (n_rd s4)" using room by (simp add: rd has_room_def few_links_def)
  have h4: "dp_host s4 d = Some (pkt_ipv4_unpack host)" by (simp add: dp_host_def rd)
  have p4: "n_peers s4 d \<noteq> None" using e3(6) p2 s4(3) by (metis domIff option.distinct(1))
  obtain s5 where s5: "dp_first_link d s4 = Some (0, s5)"
    using dp_first_link_room[OF wf4 p4 h4 _ room4] un4 by (auto simp: pkt_ipv4_unpack_def)
  have "dp_mac s5 d = Some (p_mac host)"
    using dp_first_link_mac[OF s5] dp_group_insert_mac[OF s4(1)] m3 by simp
  moreover have "dp_th_incoming d s = Some (True, s5)"
    using h0 hd join s3 s4(1) s5 len(1) by (simp add: dp_th_incoming_def)
  moreover have "conn_of s5 d = Some (sent (state_packet s) as (fed (PL_HEADER + PL_JOIN) c))"
    using c3 conn_of_first_link[OF s5] s4(3) by (simp add: conn_of_def state_packet_def own_host_def set_dp_host_def)
  ultimately show thesis by (intro that) auto
qed

end
