(* ===== verification/Node_Handshake.thy ===== *)
theory Node_Handshake
  imports Node_Joining
begin

text \<open>
  Two processes that find each other: the one that was started with the address of the other runs
  \<open>dp_th_initial\<close>, the other one \<open>dp_th_incoming\<close>, and each reads what the other one sends.
\<close>

section \<open>An empty link state\<close>

text \<open>A table the matrices do not fit yet: nothing is trimmed, and \<open>update_cache\<close> returns.\<close>

definition calm :: "routing \<Rightarrow> bool" where
  "calm s \<longleftrightarrow> has_room s \<and> m_ct s \<noteq> da_ct (hosts s)"

lemma update_cache_calm:
  assumes wf: "rt_wf s" and al: "allocs s = []" and es: "da_wf (edges s)" and calm: "calm s"
  obtains s' where "update_cache s = Some (0, s')" "hosts s' = hosts s" "hheap s' = hheap s" "ipheap s' = ipheap s"
    "has_room s'" "lock s' = lock s"
proof -
  have live: "mats s \<noteq> M_Dangling" and few: "few_links s" using calm by (simp_all add: calm_def has_room_def)
  have trim: "m_ct s = da_ct (hosts s) \<Longrightarrow> paths_current s \<and> (\<forall>i<length (host_list s). \<not> is_normal s i)"
    using calm by (simp add: calm_def)
  obtain ret s' where run: "update_cache s = Some (ret, s')" using update_cache_returns[OF wf live few trim] by blast
  have ret: "ret = 0" using update_cache_spare[OF al run] by simp
  obtain r where r: "trim_disjoint_hosts s = Some (r, s)" "\<not> r < 0" using trim_disjoint_hosts_idle[OF wf trim] by blast
  show thesis
  proof (cases rule: compute_paths_cases[OF wf live])
    case (1 x al c)
    with r run ret show thesis by (simp add: update_cache_def)
  next
    case (2 al p nx)
    let ?t = "s\<lparr>allocs := al, m_ct := da_ct (hosts s), mats := M_Valid p nx\<rparr>"
    obtain x where "update_exported_edges ?t = Some (x, s')"
      using r 2(1) run by (auto simp: update_cache_def bind_Some_iff split: if_splits)
    then obtain es' al' where "s' = with_edges ?t es' al'" by (rule update_exported_edges_append) (use es in auto)
    with run ret few show thesis by (intro that[of s']) (simp_all add: has_room_def few_links_def)
  qed
qed

lemma rt_update_no_edges:
  assumes ok: "rd_ok s" and calm: "calm s"
  obtains s' where "rt_update_edges s [] = Some (0, s')" "hosts s' = hosts s" "hheap s' = hheap s" "ipheap s' = ipheap s"
    "has_room s'"
proof -
  note D = rd_okD[OF ok]
  obtain s' where s': "update_cache (locked s) = Some (0, s')" "hosts s' = hosts s" "hheap s' = hheap s" "ipheap s' = ipheap s"
    "has_room s'" "lock s' = RW_Write"
    by (rule update_cache_calm[of "locked s"])
      (use D calm in \<open>simp_all add: calm_def has_room_def few_links_def\<close>)
  show thesis
    by (rule that[of "s'\<lparr>lock := RW_Free\<rparr>"])
      (use s' D(3) in \<open>simp_all add: rt_update_edges_def wrlock_def unlock_ret_Write has_room_def few_links_def\<close>)
qed

lemma link_payload_none:
  "length (link_payload me []) = PL_LINK_GRAPH_STATIC" "link_edge_ct PL_LINK_GRAPH_STATIC = 0"
  "ntohs (of_le_bytes (take 2 (link_payload me []))) = 0" "mac_of_bytes (drop 8 (link_payload me [])) = ip_mac me"
  using length_link_payload[of me "[]"] link_edge_ct_link_len[of "[]"] link_payload_parts(1)[of "[]" me]
  by (simp_all add: link_len_def) (simp add: link_payload_def host_bytes_def pkt_ipv4_pack_def)

lemma dp_read_first_state:
  assumes wf: "node_wf G L s" and un: "d \<notin> G \<union> L" and p: "n_peers s d = Some dp" "con_fd dp = Some c"
    and rx: "rx c = link_payload me [] @ rest" and h: "dp_host s d = Some h" and calm: "calm (n_rd s)"
  obtains s' where "dp_read_pkt_link_graph d PL_LINK_GRAPH_STATIC True s = Some (0, s')"
    "dp_host s' d = Some (h\<lparr>ip_mac := ip_mac me\<rparr>)" "\<forall>e. e \<noteq> d \<longrightarrow> dp_mac s' e = dp_mac s e" "n_dpg s' = n_dpg s"
    "n_peers s' = (n_peers s)(d \<mapsto> dp\<lparr>con_fd := Some (fed PL_LINK_GRAPH_STATIC c)\<rparr>)"
    "has_room (n_rd s')" "\<forall>m. unknown m (n_rd s) \<longrightarrow> unknown m (n_rd s')"
proof -
  let ?s1 = "reading d dp c PL_LINK_GRAPH_STATIC s"
  let ?h = "h\<lparr>ip_mac := ip_mac me\<rparr>"
  let ?s2 = "set_dp_host d ?h ?s1"
  note pay = link_payload_none(1,3,4)[of me] link_payload_none(2) and mem = node_wf_malloc[OF wf]
  have read: "with_peer d (recv PL_LINK_GRAPH_STATIC) s = Some ((int PL_LINK_GRAPH_STATIC, link_payload me []), ?s1)"
    using recv_all[OF p(2), of PL_LINK_GRAPH_STATIC] p(1) rx pay(1) by (simp add: with_peer_def)
  have pop: "populate_mac d (link_payload me []) ?s1 = Some ?s2"
    using h pay by (simp add: populate_mac_def dp_host_def)
  have wf1: "node_wf G L ?s1" by (rule node_wf_peers_only[OF recv_peers[OF read] wf])
  have wf2: "node_wf G L ?s2" by (rule node_wf_set_dp_host[OF wf1 un]) simp
  have "calm (n_rd ?s2)" using calm by (simp add: calm_def has_room_def few_links_def set_dp_host_def)
  with node_wfD(1)[OF wf2] obtain rd where rd: "rt_update_edges (n_rd ?s2) [] = Some (0, rd)" "hosts rd = hosts (n_rd ?s2)"
    "hheap rd = hheap (n_rd ?s2)" "ipheap rd = ipheap (n_rd ?s2)" "has_room rd" by (rule rt_update_no_edges)
  have out: "\<not> points_to (n_rd s) d" using node_wfD(8)[OF wf] un by auto
  have "unknown m rd \<longleftrightarrow> unknown m (n_rd ?s2)" for m using rd(2-4) by (simp add: unknown_def host_mac_def)
  then have unk: "unknown m rd \<longleftrightarrow> unknown m (n_rd s)" for m
    using unknown_dp_block[OF out, of m "Some ?h"] by (simp add: set_dp_host_def)
  show thesis
    by (rule that[of "?s2\<lparr>n_rd := rd\<rparr>"])
      (use mem read pop pay rd unk in \<open>simp_all add: dp_read_pkt_link_graph_def PL_LINK_GRAPH_STATIC_def PL_HOST_def 
        dp_host_def dp_mac_def set_dp_host_def\<close>)
qed

section \<open>The side that connects\<close>

abbreviation join_packet :: "node \<Rightarrow> u8 list" where
  "join_packet s \<equiv> packet PT_JOIN_PART (of_nat PL_JOIN) (join_payload s)"

lemma dp_send_probe_req_room:
  assumes wf: "node_wf G L s" and c: "conn_of s d = Some c" and ne: "no_errors c"
  obtains s' c' more where "dp_send_probe_req d s = Some (0, s')" "conn_of s' d = Some c'" "tx c' = tx c @ more"
proof -
  from c obtain dp where dp: "n_peers s d = Some dp" "con_fd dp = Some c" by (auto simp: conn_of_def bind_Some_iff)
  obtain q u where u: "rand s = (q, u)" by (rule prod.exhaust)
  obtain now v where v: "gettimeofday u = (now, v)" by (rule prod.exhaust)
  have same: "n_peers v = n_peers s" "n_peers u = n_peers s"
    using u v by (auto simp: rand_def gettimeofday_def split: list.splits)
  let ?dp = "dp\<lparr>probe_seq := q, probe_send_time := now\<rparr>"
  have len: "unat (of_nat PL_PROBE_REQ :: u16) \<le> length (le_bytes 2 q)" by (simp add: PL_PROBE_REQ_def)
  have free: "\<not> wlock ?dp" using node_wfD(6)[OF wf dp(1)] by simp
  show thesis
  proof (cases rule: dp_send_packet_cases[of ?dp c, OF _ free len, of PT_PROBE_REQ])
    case (2 as)
    then show thesis
      using u v same dp by (intro that) (auto simp: dp_send_probe_req_def with_peer_def conn_of_def)
  qed (use dp ne in auto)
qed

text \<open>What \<open>dp_th_initial\<close> does with the answer, and all of it up to the header of the answer.\<close>

definition answered :: "dptr \<Rightarrow> node \<Rightarrow> (bool \<times> node) option" where
  "answered d s = do {
      (ret, s) \<leftarrow> dp_read_pkt_link_graph d PL_LINK_GRAPH_STATIC True s;
      if ret \<noteq> 0 then at_fd d s
      else do {
        (ret, s) \<leftarrow> dp_group_insert d s;
        if ret \<noteq> 0 then at_fd d s
        else do {
          (ret, s) \<leftarrow> dp_first_link d s;
          if ret \<noteq> 0 then at_dpg d s
          else do {
            (ret, s) \<leftarrow> dp_send_probe_req d s;
            if ret \<noteq> 0 then do { (r, s) \<leftarrow> dp_drop_link d s; at_dpg d s }
            else Some (True, s)
          }
        }
      }
    }"

lemma dp_th_initial_greets:
  assumes wf: "node_wf G L s" and d: "d \<notin> G \<union> L" and live: "n_peers s d = Some dp"
    and na: "connect_host na = Inr (c, addr)" "no_errors c"
    and rx: "rx c = packet PT_LINK_GRAPH (of_nat PL_LINK_GRAPH_STATIC) payload @ rest"
  obtains t dq c' where "dp_th_initial d na s = answered d t" "node_wf G L t"
    "n_rd t = (n_rd s)\<lparr>ipheap := (ipheap (n_rd s))(IP_Dp d := Some \<lparr>ip_mac = junk_mac, ip_in = addr\<rparr>)\<rparr>"
    "n_dpg t = n_dpg s" "n_peers t d = Some dq" "con_fd dq = Some c'" "no_errors c'" "rx c' = payload @ rest"
    "tx c' = tx c @ join_packet s"
proof -
  let ?h = "\<lparr>ip_mac = junk_mac, ip_in = addr\<rparr>" and ?d0 = "dp\<lparr>con_fd := Some c\<rparr>"
  let ?s0 = "set_dp_host d ?h s"
  let ?s1 = "?s0\<lparr>n_peers := (n_peers ?s0)(d \<mapsto> ?d0)\<rparr>"
  have con: "set_con d c ?s0 = Some ?s1" using live by (simp add: set_con_def set_dp_host_def)
  have wf0: "node_wf G L ?s0" by (rule node_wf_set_dp_host[OF wf d]) (simp add: live)
  have wf1: "node_wf G L ?s1" by (rule node_wf_peers_only[OF set_con_peers[OF con] wf0])
  have p1: "n_peers ?s1 d = Some ?d0" "con_fd ?d0 = Some c" "\<not> wlock ?d0" using node_wfD(6)[OF wf live] by simp_all
  have jp: "join_payload ?s1 = join_payload s" by (simp add: join_payload_def set_dp_host_def)
  obtain as where s2: "dp_send_join d ?s1 = Some (0, ?s1\<lparr>n_peers := (n_peers ?s1)(d \<mapsto>
      ?d0\<lparr>con_fd := Some (sent (join_packet s) as c)\<rparr>)\<rparr>)" and ne: "no_errors (sent (join_packet s) as c)"
    using dp_send_join_bytes[OF p1 na(2)] unfolding jp by metis
  define c2 where "c2 = sent (join_packet s) as c"
  define s2 where "s2 = ?s1\<lparr>n_peers := (n_peers ?s1)(d \<mapsto> ?d0\<lparr>con_fd := Some c2\<rparr>)\<rparr>"
  note send = s2[folded c2_def, folded s2_def]
  have wf2: "node_wf G L s2" by (rule node_wf_peers_only[OF dp_send_join_peers[OF send] wf1])
  have p2: "n_peers s2 d = Some (?d0\<lparr>con_fd := Some c2\<rparr>)" "con_fd (?d0\<lparr>con_fd := Some c2\<rparr>) = Some c2" by (simp_all add: s2_def)
  have rx2: "rx c2 = packet PT_LINK_GRAPH (of_nat PL_LINK_GRAPH_STATIC) payload @ rest" using rx by (simp add: c2_def)
  define s3 where "s3 = reading d (?d0\<lparr>con_fd := Some c2\<rparr>) c2 PL_HEADER s2"
  have hd: "with_peer d dp_recv_header s2 = Some ((0, PT_LINK_GRAPH, of_nat PL_LINK_GRAPH_STATIC), s3)"
    using read_header[OF p2 rx2] by (simp add: s3_def)
  have wf3: "node_wf G L s3" by (rule node_wf_peers_only[OF dp_recv_header_peers[OF hd] wf2])
  have len: "unat (of_nat PL_LINK_GRAPH_STATIC :: u16) = PL_LINK_GRAPH_STATIC" by (simp add: PL_LINK_GRAPH_STATIC_def PL_HOST_def)
  show thesis
    by (rule that[of s3 "dp\<lparr>con_fd := Some (fed PL_HEADER c2)\<rparr>" "fed PL_HEADER c2"])
      (use na con send hd wf3 len ne packet_rx(1)[OF rx2] in
        \<open>simp_all add: dp_th_initial_def answered_def c2_def s3_def s2_def set_dp_host_def\<close>)
qed

lemma dp_th_initial_grants:
  assumes wf: "node_wf G L s" and d: "d \<notin> G \<union> L" and live: "n_peers s d = Some dp"
    and na: "connect_host na = Inr (c, addr)" "no_errors c"
    and rx: "rx c = packet PT_LINK_GRAPH (of_nat PL_LINK_GRAPH_STATIC) (link_payload me []) @ rest"
    and un: "unknown (ip_mac me) (n_rd s)" "\<forall>e\<in>set (peers (n_dpg s)). dp_mac s e \<noteq> Some (ip_mac me)"
    and calm: "calm (n_rd s)"
  obtains s' c' more where "dp_th_initial d na s = Some (True, s')" "dp_mac s' d = Some (ip_mac me)"
    "conn_of s' d = Some c'" "tx c' = tx c @ join_packet s @ more"
proof -
  note greets = dp_th_initial_greets[OF wf d live na rx]
  obtain t dq c1 where run: "dp_th_initial d na s = answered d t" and t: "node_wf G L t"
    "n_rd t = (n_rd s)\<lparr>ipheap := (ipheap (n_rd s))(IP_Dp d := Some \<lparr>ip_mac = junk_mac, ip_in = addr\<rparr>)\<rparr>"
    "n_dpg t = n_dpg s" and p: "n_peers t d = Some dq" "con_fd dq = Some c1"
    and c1: "no_errors c1" "rx c1 = link_payload me [] @ rest" "tx c1 = tx c @ join_packet s" by (rule greets)
  have out: "d \<notin> set (peers (n_dpg s))" "\<not> points_to (n_rd s) d" using node_wfD(7,8)[OF wf] d by auto
  have unt: "unknown (ip_mac me) (n_rd t)" using un(1) unknown_dp_block[OF out(2)] t(2) by simp
  have calmt: "calm (n_rd t)" using calm by (simp add: t(2) calm_def has_room_def few_links_def)
  have h: "dp_host t d = Some \<lparr>ip_mac = junk_mac, ip_in = addr\<rparr>" by (simp add: dp_host_def t(2))
  obtain u where u: "dp_read_pkt_link_graph d PL_LINK_GRAPH_STATIC True t = Some (0, u)"
    "dp_host u d = Some (\<lparr>ip_mac = junk_mac, ip_in = addr\<rparr>\<lparr>ip_mac := ip_mac me\<rparr>)" "\<forall>e. e \<noteq> d \<longrightarrow> dp_mac u e = dp_mac t e"
    "n_dpg u = n_dpg t" "n_peers u = (n_peers t)(d \<mapsto> dq\<lparr>con_fd := Some (fed PL_LINK_GRAPH_STATIC c1)\<rparr>)"
    "has_room (n_rd u)" "\<forall>m. unknown m (n_rd t) \<longrightarrow> unknown m (n_rd u)"
    by (rule dp_read_first_state[OF t(1) d p c1(2) h calmt])
  have wfu: "node_wf G L u" by (rule dp_read_pkt_link_graph_keeps[OF t(1) u(1) d])
  have mu: "dp_mac u d = Some (ip_mac me)" using u(2) by (simp add: dp_mac_def)
  have "dp_mac u e = dp_mac s e" if "e \<noteq> d" for e using that u(3) by (simp add: dp_mac_def dp_host_def t(2))
  then have "\<forall>e\<in>set (peers (n_dpg u)). dp_mac u e \<noteq> Some (ip_mac me)"
    using un(2) u(4) t(3) out(1) by metis
  then obtain v where v: "dp_group_insert d u = Some (0, v)" "n_rd v = n_rd u" "n_peers v = n_peers u"
    by (rule dp_group_insert_room[OF wfu mu])
  have wfv: "node_wf (insert d G) L v" using dp_group_insert_keeps[OF wfu _ v(1)] mu by simp
  have "n_peers v d \<noteq> None" "has_room (n_rd v)" "unknown (ip_mac me) (n_rd v)" using v(2,3) u(5-7) unt by simp_all
  then obtain w where w: "dp_first_link d v = Some (0, w)"
    using dp_first_link_room[OF wfv, of d] u(2) v(2) by (auto simp: dp_host_def)
  have wfw: "node_wf (insert d G) (insert d L) w" using dp_first_link_keeps[OF wfv w] by simp
  have cw: "conn_of w d = Some (fed PL_LINK_GRAPH_STATIC c1)" using conn_of_first_link[OF w] v(3) u(5) by (simp add: conn_of_def)
  obtain s' c' more where s': "dp_send_probe_req d w = Some (0, s')" "conn_of s' d = Some c'" "tx c' = tx c1 @ more"
    by (rule dp_send_probe_req_room[OF wfw cw]) (use c1(1) in simp_all)
  have "dp_mac s' d = Some (ip_mac me)"
    using dp_send_probe_req_mac[OF s'(1)] dp_first_link_mac[OF w] dp_group_insert_mac[OF v(1)] mu by simp
  with s' c1(3) show thesis by (intro that[of s' c' more]) (simp_all add: run answered_def u(1) v(1) w)
qed

section \<open>Two processes that have just come up\<close>

lemma alone_calm:
  assumes wf: "rt_wf s" and al: "alone m s"
  shows "calm s" and "unknown x s \<longleftrightarrow> x \<noteq> m"
proof -
  from al obtain p where p: "host_list s = [p]" "host_mac s p = Some m" by (auto simp: alone_def length_Suc_conv)
  have "links_of h = []" if "hheap s p = Some h" for h
    using rt_wf_links[OF wf _ that] p(1) by (cases "links_of h") (auto simp: links_wf_def)
  then have "few_links s" using p(1) by (simp add: few_links_def)
  moreover have "da_ct (hosts s) = 1" using length_da_list[OF rt_wf_da[OF wf]] p(1) by simp
  ultimately show "calm s" using al by (simp add: calm_def has_room_def alone_def)
  show "unknown x s \<longleftrightarrow> x \<noteq> m" using p by (auto simp: unknown_def)
qed

text \<open>A process that is set up, before any connection.\<close>

definition set_up :: "node \<Rightarrow> bool" where
  "set_up s \<longleftrightarrow> node_wf {} {} s \<and> n_spawns s = [] \<and> peers (n_dpg s) = [] \<and> alone (v_mac (n_vnet s)) (n_rd s)"

lemma setup_threads_spare:
  assumes "set_up t"
  obtains s where "setup_threads os t = Inr s" "set_up s"
    "\<forall>host. peer_host os = Some host \<longrightarrow> (\<exists>d. n_peers s d \<noteq> None \<and> Th_Initial d host (peer_port os) \<in> set (n_threads s))"
proof -
  have wf: "node_wf {} {} t" and sp: "n_spawns t = []" using assms by (simp_all add: set_up_def)
  obtain s where s: "setup_threads os t = Inr s" "n_spawns s = []" using setup_threads_wf(2)[OF wf sp] by blast
  have mem: "allocs (n_rd t) = []" by (rule rd_okD(4)[OF node_wfD(1)[OF wf]])
  note defs = setup_threads_def vnet_spawn_listener_def dp_create_initial_def dp_create_1_def dp_spawn_th_def malloc_def Let_def
  have "n_rd s = n_rd t" "n_dpg s = n_dpg t" "n_vnet s = n_vnet t"
    using s(1) sp mem by (auto simp: defs split: if_splits option.splits)
  with assms s setup_threads_wf(1)[OF wf s(1)] have "set_up s" by (simp add: set_up_def)
  moreover have "\<exists>d. n_peers s d \<noteq> None \<and> Th_Initial d host (peer_port os) \<in> set (n_threads s)" if "peer_host os = Some host" for host
    using s(1) sp mem that by (auto simp: defs split: if_splits option.splits)
  ultimately show thesis using s(1) that by blast
qed

lemma main_setup_set_up:
  assumes "fresh_process s0" and "n_spawns s0 = []" and "main_setup os sa s0 = Some (Inr s)"
  shows "set_up s" and "peer_host os = Some host \<Longrightarrow> \<exists>d. n_peers s d \<noteq> None \<and> Th_Initial d host (peer_port os) \<in> set (n_threads s)"
proof -
  obtain a where a: "sa_resolve sa = Some a" using main_setup_resolved[OF assms(3)] by auto
  obtain t where t: "main_setup os sa s0 = Some (setup_threads os t)" "node_wf {} {} t" "n_spawns t = n_spawns s0"
    "peers (n_dpg t) = []" "alone (v_mac (n_vnet t)) (n_rd t)" by (rule main_setup_start[OF assms(1) a])
  then have "set_up t" using assms(2) by (simp add: set_up_def)
  then obtain s' where "setup_threads os t = Inr s'" "set_up s'"
    "\<forall>host. peer_host os = Some host \<longrightarrow> (\<exists>d. n_peers s' d \<noteq> None \<and> Th_Initial d host (peer_port os) \<in> set (n_threads s'))"
    by (rule setup_threads_spare[where os = os])
  with assms(3) t(1) show "set_up s"
    "peer_host os = Some host \<Longrightarrow> \<exists>d. n_peers s d \<noteq> None \<and> Th_Initial d host (peer_port os) \<in> set (n_threads s)" by auto
qed

lemma set_up_state_packet:
  assumes "set_up s"
  shows "state_packet s = packet PT_LINK_GRAPH (of_nat PL_LINK_GRAPH_STATIC) (link_payload (own_host s) [])"
  using assms by (simp add: set_up_def alone_def state_packet_def link_len_def)

lemma dp_create_incoming_accepts:
  assumes wf: "node_wf G L s" and sp: "n_spawns s = []" and res: "dp_create_incoming c addr s = Some (r, s')"
  obtains dp h where "r = 0" "n_peers s' (n_next s) = Some dp" "con_fd dp = Some c" "dp_host s' (n_next s) = Some h"
    "n_rd s' = (n_rd s)\<lparr>ipheap := (ipheap (n_rd s))(IP_Dp (n_next s) := Some h)\<rparr>" "n_dpg s' = n_dpg s"
    "n_vnet s' = n_vnet s" "Th_Incoming (n_next s) \<in> set (n_threads s')"
proof -
  note defs = dp_create_incoming_def node_wf_malloc[OF wf] dp_create_1_def Let_def set_con_def set_dp_host_def
    dp_spawn_th_def dp_host_def
  show thesis
    by (rule that[of "the (n_peers s' (n_next s))" "\<lparr>ip_mac = Ether_Addr 0 0 0 0 0 0, ip_in = addr\<rparr>"])
      (use res sp in \<open>auto simp: defs\<close>)
qed

lemma set_up_connects:
  assumes up: "set_up s" and live: "n_peers s d \<noteq> None" and na: "connect_host na = Inr (c, addr)" "no_errors c"
    and rx: "rx c = packet PT_LINK_GRAPH (of_nat PL_LINK_GRAPH_STATIC) (link_payload me []) @ rest"
    and ne: "ip_mac me \<noteq> v_mac (n_vnet s)"
  shows "\<exists>s' c' more ts. dp_th_initial d na s = Some (True, s') \<and> dp_mac s' d = Some (ip_mac me) \<and>
    local_link (n_rd s') (ip_mac me) 1000000 ts \<and> conn_of s' d = Some c' \<and> tx c' = tx c @ join_packet s @ more"
proof -
  have wf: "node_wf {} {} s" and p: "peers (n_dpg s) = []" and al: "alone (v_mac (n_vnet s)) (n_rd s)"
    using up by (simp_all add: set_up_def)
  note A = alone_calm[OF rd_okD(1)[OF node_wfD(1)[OF wf]] al]
  from live obtain dp where dp: "n_peers s d = Some dp" by auto
  obtain s' c' more where s': "dp_th_initial d na s = Some (True, s')" "dp_mac s' d = Some (ip_mac me)"
    "conn_of s' d = Some c'" "tx c' = tx c @ join_packet s @ more"
    by (rule dp_th_initial_grants[OF wf _ dp na rx _ _ A(1)]) (use A(2) ne p in auto)
  obtain m ts where "dp_mac s' d = Some m" "local_link (n_rd s') m 1000000 ts"
    by (rule dp_th_initial_joined[OF wf _ live s'(1)]) auto
  with s' show ?thesis by auto
qed

lemma set_up_accepts:
  assumes up: "set_up s" and res: "dp_create_incoming c addr s = Some (r, s1)" and ne: "no_errors c"
    and rx: "rx c = packet PT_JOIN_PART (of_nat PL_JOIN) (host_bytes host) @ rest" and m: "p_mac host \<noteq> v_mac (n_vnet s)"
  shows "\<exists>s' c' ts. dp_th_incoming (n_next s) s1 = Some (True, s') \<and> dp_mac s' (n_next s) = Some (p_mac host) \<and>
    local_link (n_rd s') (p_mac host) 1000000 ts \<and> conn_of s' (n_next s) = Some c' \<and> tx c' = tx c @ state_packet s"
proof -
  let ?d = "n_next s"
  have wf: "node_wf {} {} s" and sp: "n_spawns s = []" and p: "peers (n_dpg s) = []" and al: "alone (v_mac (n_vnet s)) (n_rd s)"
    using up by (simp_all add: set_up_def)
  note A = alone_calm[OF rd_okD(1)[OF node_wfD(1)[OF wf]] al]
  obtain dp h where s1: "n_peers s1 ?d = Some dp" "con_fd dp = Some c" "dp_host s1 ?d = Some h"
    "n_rd s1 = (n_rd s)\<lparr>ipheap := (ipheap (n_rd s))(IP_Dp ?d := Some h)\<rparr>" "n_dpg s1 = n_dpg s" "n_vnet s1 = n_vnet s"
    by (rule dp_create_incoming_accepts[OF wf sp res])
  have wf1: "node_wf {} {} s1" by (rule dp_create_incoming_keeps[OF wf res])
  have "\<not> points_to (n_rd s) ?d" using node_wfD(8)[OF wf] by auto
  then have un: "unknown (p_mac host) (n_rd s1)" using unknown_dp_block A(2) m s1(4) by simp
  have room: "has_room (n_rd s1)" using A(1) by (simp add: calm_def has_room_def few_links_def s1(4))
  obtain s' c' where s': "dp_th_incoming ?d s1 = Some (True, s')" "dp_mac s' ?d = Some (p_mac host)"
    "conn_of s' ?d = Some c'" "tx c' = tx c @ state_packet s1"
    by (rule dp_th_incoming_grants[OF wf1 _ s1(1,2) ne s1(3) rx un _ room]) (use p s1(5) in auto)
  obtain n ts where "dp_mac s' ?d = Some n" "local_link (n_rd s') n 1000000 ts"
    by (rule dp_th_incoming_joined[OF wf1 _ s'(1)]) auto
  moreover have "state_packet s1 = state_packet s" by (simp add: state_packet_def own_host_def s1(4-6))
  ultimately show ?thesis using s' by auto
qed

end
