(* ===== verification/Node_Exits.thy ===== *)
theory Node_Exits
  imports Node_Threads
begin

text \<open>
  What a thread that gives up leaves behind: the group of peers and the links of the local host,
  compared with those before the thread ran.
\<close>

section \<open>The group as a list\<close>

text \<open>A sorted table is determined by its elements.\<close>

lemma ascending_unique:
  assumes "ascending key xs" and "ascending key ys" and "mset xs = mset ys" and "distinct (map key xs)"
  shows "xs = ys"
proof (rule map_inj_on)
  let ?k = "the \<circ> key"
  have "mset (map ?k xs) = mset (map ?k ys)" using assms(3) by simp
  then show "map ?k xs = map ?k ys"
    using properties_for_sort[of "map ?k xs" "map ?k ys"] properties_for_sort[of "map ?k ys" "map ?k ys"] assms(1,2)
    by (simp add: ascending_def)
  have inj: "inj_on key (set xs)" using assms(4) by (simp add: distinct_map)
  have some: "key x \<noteq> None" if "x \<in> set xs" for x using assms(1) that by (simp add: ascending_def keyed_def)
  have "inj_on ?k (set xs)"
  proof (rule inj_onI)
    fix x y assume xy: "x \<in> set xs" "y \<in> set xs" "?k x = ?k y"
    then have "key x = key y" using some[OF xy(1)] some[OF xy(2)] by (auto intro: option.expand)
    with inj xy(1,2) show "x = y" by (simp add: inj_on_eq_iff)
  qed
  moreover have "set ys = set xs" using mset_eq_setD[OF assms(3)] by simp
  ultimately show "inj_on ?k (set xs \<union> set ys)" by simp
qed

lemma ascending_filter: "ascending key xs \<Longrightarrow> ascending key (filter P xs)"
  by (auto simp: ascending_def keyed_def sorted_filter)

lemma dpg_wf_peers:
  "dpg_wf mac g \<Longrightarrow> ascending mac (peers g)" "dpg_wf mac g \<Longrightarrow> distinct (map mac (peers g))"
  by (simp_all add: dpg_wf_def table_wf_def)

lemma dpg_filter_unique:
  assumes "dpg_wf mac g" and "dpg_wf mac g'" and "mset (peers g) = add_mset q (mset (peers g'))" and "mac q = Some a"
    and "\<forall>p\<in>set (peers g'). mac p \<noteq> Some a"
  shows "filter (\<lambda>p. mac p \<noteq> Some a) (peers g) = peers g'"
proof (rule ascending_unique)
  have "filter_mset (\<lambda>p. mac p \<noteq> Some a) (mset (peers g')) = mset (peers g')"
    using assms(5) by (simp add: filter_mset_eq_conv)
  with assms(3,4) show "mset (filter (\<lambda>p. mac p \<noteq> Some a) (peers g)) = mset (peers g')" by simp
  show "distinct (map mac (filter (\<lambda>p. mac p \<noteq> Some a) (peers g)))"
    using dpg_wf_peers(2)[OF assms(1)] by (rule distinct_map_filter)
qed (rule ascending_filter[OF dpg_wf_peers(1)[OF assms(1)]], rule dpg_wf_peers(1)[OF assms(2)])

lemma dpg_remove_peers:
  assumes wf: "dpg_wf mac g" and a: "mac dp = Some a" and res: "dpg_remove mac g dp = Some (r, g')"
  shows "peers g' = filter (\<lambda>p. mac p \<noteq> Some a) (peers g)"
proof (cases rule: dpg_remove_cases[OF wf a])
  case 1
  with res show ?thesis by (simp add: filter_id_conv)
next
  case (2 q h)
  with res dpg_filter_unique[OF wf 2(2,6,4)] show ?thesis by auto
qed

lemma dpg_insert_peers:
  assumes wf: "dpg_wf mac g" and a: "mac dp = Some a" and res: "dpg_insert mac g dp al = Some (r, g', al')"
  shows "if r = 0 then dpg_wf mac g' \<and> filter (\<lambda>p. mac p \<noteq> Some a) (peers g') = peers g else g' = g"
proof (cases rule: dpg_insert_cases[OF wf a, of al])
  case (3 h al2)
  with res dpg_filter_unique[OF 3(2) wf _ a] show ?thesis by auto
qed (use res in auto)

section \<open>Sends that fail\<close>

text \<open>After a failed send of a whole packet nothing is defined, so one that returns has succeeded.\<close>

lemma dp_send_packet_zero:
  assumes "\<not> wlock dp" and "dp_send_packet type len data dp = Some (r, dp')"
  shows "r = 0"
proof -
  from dp_send_packet_con[OF assms(2)] obtain c where c: "con_fd dp = Some c" "unat len \<le> length data" by auto
  show ?thesis by (rule dp_send_packet_cases[OF c(1) assms(1) c(2), of type]) (use assms in auto)
qed

lemma dp_send_probe_req_zero:
  assumes wf: "node_wf G L s" and res: "dp_send_probe_req d s = Some (r, s')"
  shows "r = 0"
proof -
  obtain q s1 now s2 where q: "rand s = (q, s1)" "gettimeofday s1 = (now, s2)" by (meson prod.exhaust)
  then have "n_peers s1 = n_peers s" by (auto simp: rand_def split: list.splits)
  with res q obtain dp where dp: "n_peers s d = Some dp" "\<exists>dp'. dp_send_packet PT_PROBE_REQ (of_nat PL_PROBE_REQ) (le_bytes 2 q)
      (dp\<lparr>probe_seq := q, probe_send_time := now\<rparr>) = Some (r, dp')"
    by (auto simp: dp_send_probe_req_def with_peer_def bind_Some_iff)
  have "\<not> wlock (dp\<lparr>probe_seq := q, probe_send_time := now\<rparr>)" using node_wfD(6)[OF wf dp(1)] by simp
  with dp(2) dp_send_packet_zero show ?thesis by blast
qed

text \<open>The link state goes out in two parts; the second one may fail, if the connection does.\<close>

definition sendable :: "dptr \<Rightarrow> node \<Rightarrow> bool" where
  "sendable d s \<longleftrightarrow> (\<forall>dp c. n_peers s d = Some dp \<longrightarrow> con_fd dp = Some c \<longrightarrow> no_errors c)"

lemma sendable_with_peer:
  assumes "with_peer d f s = Some (r, s')" and "sendable d s"
    and "\<And>dp dp' c. con_fd dp = Some c \<Longrightarrow> no_errors c \<Longrightarrow> f dp = Some (r, dp') \<Longrightarrow> \<exists>c'. con_fd dp' = Some c' \<and> no_errors c'"
    and "\<And>dp dp'. f dp = Some (r, dp') \<Longrightarrow> con_fd dp \<noteq> None"
  shows "sendable d s'"
proof -
  from assms(1) obtain dp dp' where dp: "n_peers s d = Some dp" "f dp = Some (r, dp')" "n_peers s' = (n_peers s)(d \<mapsto> dp')"
    by (auto simp: with_peer_def bind_Some_iff)
  from assms(4)[OF dp(2)] obtain c where c: "con_fd dp = Some c" by auto
  with assms(2) dp(1) have "no_errors c" by (simp add: sendable_def)
  from assms(3)[OF c this dp(2)] dp(3) show ?thesis by (auto simp: sendable_def)
qed

lemma sendable_recv: "with_peer d (recv n) s = Some (r, s') \<Longrightarrow> sendable d s \<Longrightarrow> sendable d s'"
  by (erule sendable_with_peer) (auto simp: recv_def no_errors_def bind_Some_iff Let_def)

lemma sendable_header: "with_peer d dp_recv_header s = Some (r, s') \<Longrightarrow> sendable d s \<Longrightarrow> sendable d s'"
  by (erule sendable_with_peer) (auto simp: dp_recv_header_def recv_def no_errors_def bind_Some_iff Let_def split: if_splits)

lemma sendable_set_dp_host [simp]: "sendable d (set_dp_host e h s) = sendable d s"
  by (simp add: sendable_def set_dp_host_def)

lemma sendable_join: "dp_handle_join d s = Some (r, s') \<Longrightarrow> sendable d s \<Longrightarrow> sendable d s'"
  by (auto simp: dp_handle_join_def bind_Some_iff split: if_splits dest: sendable_recv)

lemma dp_send_peer_linkstate_zero:
  assumes wf: "node_wf G L s" and res: "dp_send_peer_linkstate d s = Some (r, s')" and ok: "sendable d s"
  shows "r = 0"
proof -
  from res obtain es rd dp dp' where dp: "n_peers s d = Some dp" "dp_send_linkstate (own_host s) es dp = Some (r, dp')"
    by (auto simp: dp_send_peer_linkstate_def with_peer_def bind_Some_iff own_host_def)
  from dp(2) obtain c where c: "con_fd dp = Some c"
    by (auto simp: dp_send_linkstate_def dp_psend_start_def dp_psend_data_def mutex_lock_def bind_Some_iff split: if_splits)
  have free: "\<not> wlock dp" by (rule node_wfD(6)[OF wf dp(1)])
  have "no_errors c" using ok dp(1) c by (simp add: sendable_def)
  from dp_send_linkstate_cases[OF c free this, of "own_host s" es] dp(2) show ?thesis by auto
qed


section \<open>What stays as it was\<close>

text \<open>The group, and the links of the local host to addresses outside \<open>M\<close>.\<close>

definition undone :: "ether_addr set \<Rightarrow> node \<Rightarrow> node \<Rightarrow> bool" where
  "undone M s t \<longleftrightarrow> peers (n_dpg t) = peers (n_dpg s) \<and>
     (\<forall>m rtt ts. m \<notin> M \<longrightarrow> (local_link (n_rd t) m rtt ts \<longleftrightarrow> local_link (n_rd s) m rtt ts))"

lemma undone_refl [simp]: "undone M s s"
  by (simp add: undone_def)

lemma undone_trans [trans]: "undone M s t \<Longrightarrow> undone M t u \<Longrightarrow> undone M s u"
  by (simp add: undone_def)

lemma undone_peers: "peers_only s t \<Longrightarrow> undone M s t"
  by (simp add: undone_def peers_only_sel)

lemma undone_same: "n_dpg t = n_dpg s \<Longrightarrow> n_rd t = n_rd s \<Longrightarrow> undone M s t"
  by (simp add: undone_def)

lemma local_link_block:
  assumes wf: "rt_wf s" and "\<not> points_to s d"
  shows "local_link (s\<lparr>ipheap := (ipheap s)(IP_Dp d := v)\<rparr>) m rtt ts \<longleftrightarrow> local_link s m rtt ts"
proof -
  obtain p h where p: "local_host s = Some p" "p \<in> set (host_list s)" "hheap s p = Some h" by (rule rt_wf_localE[OF wf])
  have "link_mac (s\<lparr>ipheap := (ipheap s)(IP_Dp d := v)\<rparr>) l = link_mac s l" if "l \<in> set (links_of h)" for l
  proof -
    have "l_dst l \<in> set (host_list s)" using rt_wf_links[OF wf p(2,3)] that by (simp add: links_wf_def)
    with assms(2) show ?thesis by (cases "hheap s (l_dst l)") (auto simp: link_mac_def host_mac_def points_to_def)
  qed
  with p show ?thesis by (auto simp: local_link_def)
qed

lemma undone_block:
  assumes wf: "node_wf G L s" and d: "d \<notin> L" and "peers (n_dpg t) = peers (n_dpg s)"
    and "n_rd t = (n_rd s)\<lparr>ipheap := (ipheap (n_rd s))(IP_Dp d := v)\<rparr>"
  shows "undone M s t"
proof -
  have "\<not> points_to (n_rd s) d" using node_wfD(8)[OF wf] d by blast
  with local_link_block[OF rd_okD(1)[OF node_wfD(1)[OF wf]]] assms(3,4) show ?thesis by (simp add: undone_def)
qed

lemma undone_set_dp_host: "node_wf G L s \<Longrightarrow> d \<notin> L \<Longrightarrow> undone M s (set_dp_host d h s)"
  by (rule undone_block) (auto simp: set_dp_host_def)

lemma undone_fd:
  assumes "node_wf G L s" and "d \<notin> L" and "at_fd d s = Some (go, s')"
  shows "undone M s s'"
  by (rule undone_block[OF assms(1,2), where v = None]) (use assms(3) in \<open>auto simp: at_fd_def dp_cleanup_1_def\<close>)

lemma dp_create_linkstate_undone:
  assumes wf: "node_wf G L s"
  shows "undone M s (snd (dp_create_linkstate h s))"
proof -
  have al: "allocs (n_rd s) = []" by (rule rd_okD(4)[OF node_wfD(1)[OF wf]])
  have d: "n_next s \<notin> L" using node_wfD(4,9)[OF wf] by (auto simp: domIff)
  have al': "(n_rd s)\<lparr>ipheap := f, allocs := []\<rparr> = (n_rd s)\<lparr>ipheap := f\<rparr>"
    "(n_rd s)\<lparr>allocs := [], ipheap := f\<rparr> = (n_rd s)\<lparr>ipheap := f\<rparr>" for f using al by (cases "n_rd s"; simp)+
  let ?t = "snd (dp_create_linkstate h s)"
  have "n_dpg ?t = n_dpg s \<and> (\<exists>v. n_rd ?t = (n_rd s)\<lparr>ipheap := (ipheap (n_rd s))(IP_Dp (n_next s) := v)\<rparr>)"
    using al by (auto simp: al' dp_create_linkstate_def dp_create_1_def malloc_def set_dp_host_def dp_spawn_th_def
        dp_cleanup_1_def Let_def split: list.split)
  then show ?thesis using undone_block[OF wf d, of ?t] by auto
qed

lemma undone_connect_peer:
  assumes wf: "node_wf G L s" and res: "connect_peer h s = Some s'"
  shows "undone M s s'"
proof -
  obtain now s1 where n: "gettimeofday s = (now, s1)" by (rule prod.exhaust)
  then have eq: "n_rd s1 = n_rd s" "n_dpg s1 = n_dpg s" by (auto simp: gettimeofday_def split: list.splits)
  have wf1: "node_wf G L s1" using node_wf_gettimeofday[OF wf] n by simp
  obtain ret c pc al where run: "pcon_connect now (n_pc s1) h (allocs (n_rd s1)) = Some (ret, c, pc, al)"
    and s': "s' = (let t = s1\<lparr>n_pc := pc, n_rd := (n_rd s1)\<lparr>allocs := al\<rparr>\<rparr> in if c then snd (dp_create_linkstate h t) else t)"
    using res n by (auto simp: connect_peer_def bind_Some_iff Let_def)
  have al0: "allocs (n_rd s1) = []" by (rule rd_okD(4)[OF node_wfD(1)[OF wf1]])
  have pc: "pcon_wf pc" "al = []" using pcon_connect_keeps[OF node_wfD(3)[OF wf1] run] al0 by simp_all
  let ?t = "s1\<lparr>n_pc := pc\<rparr>"
  have "node_wf G L ?t" using wf1 pc(1) by (simp add: node_wf_def)
  moreover have "s1\<lparr>n_pc := pc, n_rd := (n_rd s1)\<lparr>allocs := al\<rparr>\<rparr> = ?t" using pc(2) al0 by simp
  ultimately have "undone M ?t s'" using s' dp_create_linkstate_undone by (simp add: Let_def)
  then show ?thesis by (simp add: undone_def eq)
qed

lemma undone_connect_edges:
  assumes wf: "node_wf G L s" and res: "foldM connect_edge es s = Some s'"
  shows "undone M s s'"
proof -
  have "node_wf G L s' \<and> undone M s s'"
    using res
  proof (rule foldM_invariant)
    fix e u u' assume u: "node_wf G L u \<and> undone M s u" and "connect_edge e u = Some u'"
    then obtain v where v: "connect_peer (pkt_ipv4_unpack (e_src e)) u = Some v"
      "connect_peer (pkt_ipv4_unpack (e_dst e)) v = Some u'" by (auto simp: connect_edge_def bind_Some_iff)
    have "node_wf G L v" using connect_peer_keeps v(1) u by blast
    then show "node_wf G L u' \<and> undone M s u'"
      using u v connect_peer_keeps undone_connect_peer undone_trans by metis
  qed (use wf in simp)
  then show ?thesis by simp
qed

text \<open>The first link state of a peer: it changes no link of the local host.\<close>

lemma undone_first_state:
  assumes wf: "node_wf G L s" and res: "dp_read_pkt_link_graph d n populate s = Some (r, s')"
    and pop: "populate \<Longrightarrow> d \<notin> G \<union> L"
  shows "undone M s s'"
proof -
  from res obtain x plink s1 where s1: "with_peer d (recv n) s = Some ((x, plink), s1)"
    by (auto simp: dp_read_pkt_link_graph_def node_wf_malloc[OF wf] bind_Some_iff)
  note po = recv_peers[OF s1] and def = dp_read_pkt_link_graph_def node_wf_malloc[OF wf] s1
  have wf1: "node_wf G L s1" by (rule node_wf_peers_only[OF po wf])
  have u1: "undone M s s1" by (rule undone_peers[OF po])
  show ?thesis
  proof (cases "x = int n")
    case True
    with res obtain s2 where s2: "(if populate then populate_mac d plink s1 else Some s1) = Some s2"
      by (auto simp: def bind_Some_iff)
    have "n_peers s1 d \<noteq> None" using s1 by (auto simp: with_peer_def bind_Some_iff)
    then have wf2: "node_wf G L s2" using populate_mac_keeps[OF wf1 pop] s2 wf1 by (auto split: if_splits)
    have "undone M s1 s2"
      using s2 undone_set_dp_host[OF wf1] pop by (auto simp: populate_mac_def bind_Some_iff split: if_splits)
    with u1 have u2: "undone M s s2" by (rule undone_trans)
    let ?es = "edges_of_bytes (unat (link_edge_ct n)) (drop PL_LINK_GRAPH_STATIC plink)"
    show ?thesis
    proof (cases "link_edge_ct n = ntohs (of_le_bytes (take 2 plink))")
      case same: True
      with res True s2 obtain s3 rd where s3: "foldM connect_edge ?es s2 = Some s3"
        "rt_update_edges (n_rd s3) ?es = Some (r, rd)" "s' = s3\<lparr>n_rd := rd\<rparr>"
        by (auto simp: def bind_Some_iff Let_def split: if_splits)
      have "undone M s s3" by (rule undone_trans[OF u2 undone_connect_edges[OF wf2 s3(1)]])
      with rt_update_edges_links[OF node_wfD(1)[OF connect_edges_keeps[OF wf2 s3(1)]] s3(2)] s3(3)
      show ?thesis by (simp add: undone_def)
    qed (use res True s2 u2 in \<open>auto simp: def Let_def split: if_splits\<close>)
  qed (use res u1 in \<open>auto simp: def\<close>)
qed

text \<open>A first link that is refused, and one that is made.\<close>

lemma dp_first_link_undone:
  assumes wf: "node_wf G L s" and m: "dp_mac s d = Some m" and res: "dp_first_link d s = Some (r, s')"
  shows "n_dpg s' = n_dpg s" and "r \<noteq> 0 \<Longrightarrow> n_rd s' = n_rd s" and "undone {m} s s'"
proof -
  from res obtain dp where dp: "n_peers s d = Some dp" by (auto simp: dp_first_link_def bind_Some_iff)
  obtain now u where u: "gettimeofday (s\<lparr>n_peers := (n_peers s)(d \<mapsto> dp\<lparr>rtt_us := 1000000\<rparr>)\<rparr>) = (now, u)"
    by (rule prod.exhaust)
  then have eq: "n_rd u = n_rd s" "n_dpg u = n_dpg s" by (auto simp: gettimeofday_def split: list.splits)
  from res dp u obtain rd where rd: "rt_dhost_add_link now (n_rd s) (IP_Dp d) 1000000 = Some (r, rd)" "s' = u\<lparr>n_rd := rd\<rparr>"
    by (auto simp: dp_first_link_def bind_Some_iff Let_def eq)
  show g: "n_dpg s' = n_dpg s" using rd(2) eq by simp
  note ok = node_wfD(1)[OF wf]
  show "r \<noteq> 0 \<Longrightarrow> n_rd s' = n_rd s" using rt_dhost_add_link_refused[OF ok rd(1)] rd(2) by simp
  from m obtain ip where ip: "ipheap (n_rd s) (IP_Dp d) = Some ip" "ip_mac ip = m" by (auto simp: dp_mac_def dp_host_def)
  show "undone {m} s s'" using rt_dhost_add_link_others[OF ok ip(1) rd(1)] ip(2) rd(2) g by (simp add: undone_def keeps_links_def)
qed

lemma undone_drop_link:
  assumes wf: "node_wf G L s" and m: "dp_mac s d = Some m" and res: "dp_drop_link d s = Some (r, s')"
  shows "undone {m} s s'" and "\<not> local_link (n_rd s') m rtt ts"
proof -
  from res m obtain rd where rd: "rt_dhost_remove (n_rd s) m = Some (r, rd)" "s' = s\<lparr>n_rd := rd\<rparr>"
    by (auto simp: dp_drop_link_def bind_Some_iff)
  note ok = node_wfD(1)[OF wf]
  show "undone {m} s s'" using rt_dhost_remove_others[OF ok rd(1)] rd(2) by (simp add: undone_def keeps_links_def)
  show "\<not> local_link (n_rd s') m rtt ts" using rt_dhost_remove_keeps(2)[OF ok rd(1)] rd(2) by simp
qed

text \<open>A peer that enters the group and leaves it again.\<close>

lemma dp_group_insert_undone:
  assumes wf: "node_wf G L s" and m: "dp_mac s d = Some m" and res: "dp_group_insert d s = Some (r, s')"
  shows "n_rd s' = n_rd s" and "r \<noteq> 0 \<Longrightarrow> n_dpg s' = n_dpg s"
    and "r = 0 \<Longrightarrow> filter (\<lambda>e. dp_mac s e \<noteq> Some m) (peers (n_dpg s')) = peers (n_dpg s)"
proof -
  have al: "allocs (n_rd s) = []" using rd_okD(4)[OF node_wfD(1)[OF wf]] .
  from res obtain g al' where g: "dpg_insert (dp_mac s) (n_dpg s) d [] = Some (r, g, al')"
    "s' = s\<lparr>n_dpg := g, n_rd := (n_rd s)\<lparr>allocs := al'\<rparr>\<rparr>"
    by (auto simp: dp_group_insert_def al bind_Some_iff)
  show "n_rd s' = n_rd s" using g(2) dpg_insert_spare[OF g(1)] al by simp
  show "r \<noteq> 0 \<Longrightarrow> n_dpg s' = n_dpg s" "r = 0 \<Longrightarrow> filter (\<lambda>e. dp_mac s e \<noteq> Some m) (peers (n_dpg s')) = peers (n_dpg s)"
    using dpg_insert_peers[OF node_wfD(2)[OF wf] m g(1)] g(2) by simp_all
qed

lemma at_dpg_peers:
  assumes wf: "node_wf G L s" and m: "dp_mac s d = Some m" and res: "at_dpg d s = Some (go, s')"
  shows "peers (n_dpg s') = filter (\<lambda>e. dp_mac s e \<noteq> Some m) (peers (n_dpg s))"
    and "n_rd s' = (n_rd s)\<lparr>ipheap := (ipheap (n_rd s))(IP_Dp d := None)\<rparr>"
proof -
  from res obtain r g where g: "dpg_remove (dp_mac s) (n_dpg s) d = Some (r, g)" "s' = dp_cleanup_1 d (s\<lparr>n_dpg := g\<rparr>)"
    by (auto simp: at_dpg_def at_fd_def dp_group_remove_def bind_Some_iff)
  show "peers (n_dpg s') = filter (\<lambda>e. dp_mac s e \<noteq> Some m) (peers (n_dpg s))"
    using dpg_remove_peers[OF node_wfD(2)[OF wf] m g(1)] g(2) by (simp add: dp_cleanup_1_def)
  show "n_rd s' = (n_rd s)\<lparr>ipheap := (ipheap (n_rd s))(IP_Dp d := None)\<rparr>" using g(2) by (simp add: dp_cleanup_1_def)
qed


section \<open>Giving up\<close>

definition exits :: "(node \<Rightarrow> bool) \<Rightarrow> (bool \<times> node) option \<Rightarrow> bool" where
  "exits P res \<longleftrightarrow> (\<forall>s'. res = Some (False, s') \<longrightarrow> P s')"

lemma exits_bind: "(\<And>x s1. f = Some (x, s1) \<Longrightarrow> exits P (k (x, s1))) \<Longrightarrow> exits P (f \<bind> k)"
  by (auto simp: exits_def bind_Some_iff)

lemma exits_if: "(b \<Longrightarrow> exits P x) \<Longrightarrow> (\<not> b \<Longrightarrow> exits P y) \<Longrightarrow> exits P (if b then x else y)"
  by simp

lemma exits_go [simp]: "exits P (Some (True, s))"
  by (simp add: exits_def)

lemma exits_mono: "exits P res \<Longrightarrow> (\<And>s. P s \<Longrightarrow> Q s) \<Longrightarrow> exits Q res"
  by (simp add: exits_def)

text \<open>The table without the address of a peer.\<close>

abbreviation cleared :: "dptr \<Rightarrow> routing \<Rightarrow> routing" where
  "cleared d rd \<equiv> rd\<lparr>ipheap := (ipheap rd)(IP_Dp d := None)\<rparr>"

lemma cleared_set_dp_host [simp]: "cleared d (n_rd (set_dp_host d h s)) = cleared d (n_rd s)"
  by (simp add: set_dp_host_def)

lemma exits_fd: "(\<And>t. n_dpg t = n_dpg s \<Longrightarrow> n_rd t = cleared d (n_rd s) \<Longrightarrow> P t) \<Longrightarrow> exits P (at_fd d s)"
  by (simp add: exits_def at_fd_def dp_cleanup_1_def)

text \<open>The part that the threads share: into the group, then into the table.\<close>

lemma exits_enter:
  assumes wf: "node_wf G L s" and m: "dp_mac s d = Some m"
    and go: "\<And>t u. node_wf (insert d G) (insert d L) t \<Longrightarrow> k t \<noteq> Some (False, u)"
  shows "exits (\<lambda>t. peers (n_dpg t) = peers (n_dpg s) \<and> n_rd t = cleared d (n_rd s))
    (do { (ret, s) \<leftarrow> dp_group_insert d s;
          if ret \<noteq> 0 then at_fd d s
          else do { (ret, s) \<leftarrow> dp_first_link d s; if ret \<noteq> 0 then at_dpg d s else k s } })" (is "exits ?P _")
proof (rule exits_bind, unfold prod.case, rule exits_if)
  fix r s1 assume s1: "dp_group_insert d s = Some (r, s1)"
  note I = dp_group_insert_undone[OF wf m s1]
  show "exits ?P (at_fd d s1)" if "r \<noteq> 0" by (rule exits_fd) (use I that in simp)
  assume "\<not> r \<noteq> 0"
  then have r: "r = 0" by simp
  have wf1: "node_wf (insert d G) L s1" using dp_group_insert_keeps[OF wf _ s1] m r by simp
  have m1: "dp_mac s1 = dp_mac s" using dp_group_insert_mac[OF s1] by auto
  show "exits ?P (do { (ret, s) \<leftarrow> dp_first_link d s1; if ret \<noteq> 0 then at_dpg d s else k s })"
  proof (rule exits_bind, unfold prod.case, rule exits_if)
    fix q s2 assume s2: "dp_first_link d s1 = Some (q, s2)"
    note F = dp_first_link_undone[OF wf1 _ s2, of m]
    have m2: "dp_mac s2 = dp_mac s" using dp_first_link_mac[OF s2] m1 by auto
    have wf2: "node_wf (insert d G) (if q = 0 then insert d L else L) s2" by (rule dp_first_link_keeps[OF wf1 s2])
    show "exits ?P (at_dpg d s2)" if "q \<noteq> 0"
      unfolding exits_def
    proof (intro allI impI)
      fix t assume "at_dpg d s2 = Some (False, t)"
      from at_dpg_peers[OF wf2 _ this, of m] that F(1,2) m m1 m2 I(1) I(3)[OF r] show "?P t" by simp
    qed
    show "exits ?P (k s2)" if "\<not> q \<noteq> 0" using go[of s2] wf2 that by (simp add: exits_def)
  qed
qed

text \<open>
  A peer that connected to us.  The table is as it was.  So is the group, but for one case: where the
  link state cannot be sent, the peer is taken out of a group it is not in yet, and with it goes the
  peer that has the same address.
\<close>

definition group_kept :: "dptr \<Rightarrow> node \<Rightarrow> node \<Rightarrow> bool" where
  "group_kept d s t \<longleftrightarrow> peers (n_dpg t) = peers (n_dpg s) \<or>
     \<not> sendable d s \<and> (\<exists>m. peers (n_dpg t) = filter (\<lambda>e. dp_mac s e \<noteq> Some m) (peers (n_dpg s)))"

text \<open>The steps before the group change nothing but the peer.\<close>

definition early :: "dptr set \<Rightarrow> dptr set \<Rightarrow> dptr \<Rightarrow> node \<Rightarrow> node \<Rightarrow> bool" where
  "early G L d s t \<longleftrightarrow> node_wf G L t \<and> n_dpg t = n_dpg s \<and> cleared d (n_rd t) = cleared d (n_rd s) \<and>
     (sendable d s \<longrightarrow> sendable d t) \<and> (\<forall>e. e \<noteq> d \<longrightarrow> dp_mac t e = dp_mac s e) \<and> n_peers t d \<noteq> None"

abbreviation as_before :: "dptr \<Rightarrow> node \<Rightarrow> node \<Rightarrow> bool" where
  "as_before d s t \<equiv> n_rd t = cleared d (n_rd s) \<and> group_kept d s t"

lemma early_fd: "early G L d s t \<Longrightarrow> exits (as_before d s) (at_fd d t)"
  by (rule exits_fd) (simp add: early_def group_kept_def)

lemma early_addr: "d \<notin> G \<union> L \<Longrightarrow> early G L d s t \<Longrightarrow> early G L d s (set_dp_host d g t)"
  using node_wf_set_dp_host[of G L t d g]
  by (simp add: early_def) (simp add: dp_mac_def dp_host_def set_dp_host_def sendable_def)

lemma early_peers:
  assumes "early G L d s t" and "peers_only t u" and "sendable d t \<Longrightarrow> sendable d u"
  shows "early G L d s u"
proof -
  have "n_peers u d \<noteq> None" using peers_only_sel(6)[OF assms(2)] assms(1) by (auto simp: early_def)
  with assms node_wf_peers_only[OF assms(2)] show ?thesis by (simp add: early_def peers_only_sel)
qed

lemma early_header: "with_peer d dp_recv_header t = Some (x, u) \<Longrightarrow> early G L d s t \<Longrightarrow> early G L d s u"
  by (blast intro: early_peers dp_recv_header_peers sendable_header)

lemma early_join:
  assumes "dp_handle_join d t = Some (r, u)" and "d \<notin> G \<union> L" and "early G L d s t"
  shows "early G L d s u"
proof -
  from assms(1) obtain x bs v where v: "with_peer d (recv PL_JOIN) t = Some ((x, bs), v)"
    "u = v \<or> u = set_dp_host d (pkt_ipv4_unpack (host_of_bytes bs)) v"
    by (auto simp: dp_handle_join_def bind_Some_iff split: if_splits)
  have "early G L d s v" by (rule early_peers[OF assms(3) recv_peers[OF v(1)] sendable_recv[OF v(1)]])
  with v(2) early_addr[OF assms(2)] show ?thesis by auto
qed

lemma early_sent:
  assumes t: "early G L d s t" and un: "d \<notin> G \<union> L" and m: "dp_mac t d = Some m" and wf: "node_wf G L s" and bad: "\<not> sendable d s"
  shows "exits (as_before d s) (at_dpg d t)"
  unfolding exits_def
proof (intro allI impI)
  fix u assume u: "at_dpg d t = Some (False, u)"
  have "d \<notin> set (peers (n_dpg s))" using node_wfD(7)[OF wf] un by blast
  then have "filter (\<lambda>e. dp_mac t e \<noteq> Some m) (peers (n_dpg s)) = filter (\<lambda>e. dp_mac s e \<noteq> Some m) (peers (n_dpg s))"
    using t by (intro filter_cong) (auto simp: early_def)
  with at_dpg_peers[OF _ m u, of G L] t bad show "as_before d s u" by (auto simp: early_def group_kept_def)
qed

lemma early_late:
  assumes wf: "node_wf G L t" and t: "n_dpg t = n_dpg s" "cleared d (n_rd t) = cleared d (n_rd s)" and m: "dp_mac t d = Some m"
  shows "exits (as_before d s) (do { (ret, s) \<leftarrow> dp_group_insert d t;
      if ret \<noteq> 0 then at_fd d s
      else do { (ret, s) \<leftarrow> dp_first_link d s; if ret \<noteq> 0 then at_dpg d s else Some (True, s) } })"
proof -
  have "exits (\<lambda>u. peers (n_dpg u) = peers (n_dpg t) \<and> n_rd u = cleared d (n_rd t)) (do { (ret, s) \<leftarrow> dp_group_insert d t;
      if ret \<noteq> 0 then at_fd d s
      else do { (ret, s) \<leftarrow> dp_first_link d s; if ret \<noteq> 0 then at_dpg d s else Some (True, s) } })"
    by (rule exits_enter[OF wf m]) simp
  then show ?thesis by (rule exits_mono) (use t in \<open>simp add: group_kept_def\<close>)
qed

lemma early_state:
  assumes t: "early G L d s t" and m: "dp_mac t d \<noteq> None" and wf: "node_wf G L s" and un: "d \<notin> G \<union> L"
  shows "exits (as_before d s) (do { (ret, s) \<leftarrow> dp_send_peer_linkstate d t;
      if ret \<noteq> 0 then at_dpg d s
      else do { (ret, s) \<leftarrow> dp_group_insert d s;
        if ret \<noteq> 0 then at_fd d s
        else do { (ret, s) \<leftarrow> dp_first_link d s; if ret \<noteq> 0 then at_dpg d s else Some (True, s) } } })"
proof (rule exits_bind, unfold prod.case, rule exits_if)
  fix r u assume u: "dp_send_peer_linkstate d t = Some (r, u)"
  have wft: "node_wf G L t" using t by (simp add: early_def)
  note k = dp_send_peer_linkstate_keeps[OF wft u]
  have zero: "sendable d s \<Longrightarrow> r = 0" using dp_send_peer_linkstate_zero[OF wft u] t by (simp add: early_def)
  obtain m' where m': "dp_mac u d = Some m'" using m peers_only_sel(5)[OF k(1)] by auto
  show "exits (as_before d s) (at_dpg d u)" if "r \<noteq> 0"
  proof (rule early_sent[OF _ un m' wf])
    show bad: "\<not> sendable d s" using zero that by blast
    have "n_peers u d \<noteq> None" using peers_only_sel(6)[OF k(1)] t by (auto simp: early_def)
    with t k bad show "early G L d s u" by (simp add: early_def peers_only_sel)
  qed
  show "exits (as_before d s) (do { (ret, s) \<leftarrow> dp_group_insert d u;
        if ret \<noteq> 0 then at_fd d s
        else do { (ret, s) \<leftarrow> dp_first_link d s; if ret \<noteq> 0 then at_dpg d s else Some (True, s) } })"
    by (rule early_late[OF k(2) _ _ m']) (use t in \<open>simp_all add: early_def peers_only_sel[OF k(1)]\<close>)
qed

lemma dp_th_incoming_vanishes:
  assumes wf: "node_wf G L s" and un: "d \<notin> G \<union> L"
  shows "exits (as_before d s) (dp_th_incoming d s)"
proof (cases "dp_host s d")
  case (Some h)
  have live: "n_peers s d \<noteq> None" using node_wfD(5)[OF wf, of d] Some by (simp add: dp_blocks_def dp_host_def)
  have e0: "early G L d s (set_dp_host d (h\<lparr>ip_mac := junk_mac\<rparr>) s)"
    by (rule early_addr[OF un]) (use wf live in \<open>simp add: early_def\<close>)
  show ?thesis
    unfolding dp_th_incoming_def Some Option.bind.simps Let_def
    apply (rule exits_bind, drule early_header[OF _ e0], clarsimp split del: if_split)
    apply (intro exits_if early_fd, assumption+)
    apply (rule exits_bind, frule early_join[OF _ un], assumption, clarsimp split del: if_split)
    apply (rule exits_if, erule early_fd)
    apply (drule dp_handle_join_mac, assumption)
    apply (rule early_state[OF _ _ wf un], assumption+)
    done
qed (simp add: dp_th_incoming_def exits_def)

text \<open>
  A peer that we connect to.  The link state it answers with may have brought other hosts into the
  table; the group and the links of the local host are as they were.
\<close>

lemma undone_exits_fd:
  assumes "node_wf G L t" and "d \<notin> G \<union> L" and "undone M s t"
  shows "exits (undone M s) (at_fd d t)"
  unfolding exits_def using assms undone_fd[OF assms(1)] undone_trans by blast

lemma undone_exits_enter:
  assumes wf: "node_wf G L t" and un: "d \<notin> G \<union> L" and u: "undone M s t" and m: "dp_mac t d \<noteq> None"
  shows "exits (undone M s) (do { (ret, s) \<leftarrow> dp_group_insert d t;
      if ret \<noteq> 0 then at_fd d s
      else do {
        (ret, s) \<leftarrow> dp_first_link d s;
        if ret \<noteq> 0 then at_dpg d s
        else do {
          (ret, s) \<leftarrow> dp_send_probe_req d s;
          if ret \<noteq> 0 then do { (r, s) \<leftarrow> dp_drop_link d s; at_dpg d s } else Some (True, s)
        }
      } })"
proof -
  from m obtain a where a: "dp_mac t d = Some a" by blast
  show ?thesis
  proof (rule exits_mono, rule exits_enter[OF wf a])
    fix v w assume "node_wf (insert d G) (insert d L) v"
    then show "(do { (ret, s) \<leftarrow> dp_send_probe_req d v;
        if ret \<noteq> 0 then do { (r, s) \<leftarrow> dp_drop_link d s; at_dpg d s } else Some (True, s) }) \<noteq> Some (False, w)"
      by (auto simp: bind_Some_iff dest: dp_send_probe_req_zero)
  next
    fix v :: node assume "peers (n_dpg v) = peers (n_dpg t) \<and> n_rd v = cleared d (n_rd t)"
    then have "undone M t v" using un by (intro undone_block[OF wf]) auto
    with u show "undone M s v" by (rule undone_trans)
  qed
qed

lemma dp_th_initial_vanishes:
  assumes wf: "node_wf G L s" and un: "d \<notin> G \<union> L" and live: "n_peers s d \<noteq> None"
  shows "exits (undone {} s) (dp_th_initial d na s)"
proof (cases "connect_host na")
  case (Inl e)
  then show ?thesis by (simp add: dp_th_initial_def undone_exits_fd[OF wf un])
next
  case (Inr ca)
  obtain c addr where ca: "ca = (c, addr)" by (cases ca)
  let ?h = "\<lparr>ip_mac = junk_mac, ip_in = addr\<rparr>"
  obtain t where t: "set_con d c (set_dp_host d ?h s) = Some t"
    using live by (auto simp: set_con_def set_dp_host_def)
  note wf0 = node_wf_set_dp_host[OF wf un live, of ?h] and fd = undone_exits_fd[OF _ un]
  have t0: "node_wf G L t \<and> undone {} s t"
    using node_wf_peers_only[OF set_con_peers[OF t] wf0] undone_trans[OF undone_set_dp_host[OF wf] undone_peers[OF set_con_peers[OF t]]] un
    by simp
  have po: "node_wf G L v \<and> undone {} s v" if "peers_only u v" "node_wf G L u \<and> undone {} s u" for u v
    using that node_wf_peers_only[OF that(1)] undone_peers[OF that(1)] undone_trans by blast
  have first: "node_wf G L v \<and> undone {} s v \<and> (r = 0 \<longrightarrow> dp_mac v d \<noteq> None)"
    if "dp_read_pkt_link_graph d n True u = Some (r, v)" "node_wf G L u" "undone {} s u" for n r u v
    using dp_read_pkt_link_graph_mac[OF that(1,2)] dp_read_pkt_link_graph_keeps[OF that(2,1)]
      undone_trans[OF that(3) undone_first_state[OF that(2,1)]] un by blast
  show ?thesis
    unfolding dp_th_initial_def Inr ca sum.case prod.case t Option.bind.simps
    apply (rule exits_bind, drule po[OF dp_send_join_peers t0], clarsimp split del: if_split)
    apply (rule exits_if, erule (1) fd)
    apply (rule exits_bind, drule po[OF dp_recv_header_peers conjI], assumption+, clarsimp split del: if_split)
    apply (rule exits_if, erule (1) fd)
    apply (rule exits_bind, drule first, assumption+, clarsimp split del: if_split)
    apply (rule exits_if, erule (1) fd)
    apply (rule undone_exits_enter[OF _ un], assumption+, simp)
    done
qed

text \<open>
  A peer learnt from link state that answers under the address \<open>m\<close> it was announced with.  It is
  linked first; giving up after that takes the link to \<open>m\<close> away, also one that was there before.
\<close>

definition withdrawn :: "ether_addr \<Rightarrow> node \<Rightarrow> node \<Rightarrow> bool" where
  "withdrawn m s t \<longleftrightarrow> undone {} s t \<or> undone {m} s t \<and> (\<forall>rtt ts. \<not> local_link (n_rd t) m rtt ts)"

lemma undone_mono: "undone M s t \<Longrightarrow> M \<subseteq> N \<Longrightarrow> undone N s t"
  by (auto simp: undone_def)

lemma withdrawn_fd:
  assumes "node_wf G L t" and "d \<notin> G \<union> L" and "undone {} s t"
  shows "exits (withdrawn m s) (at_fd d t)"
  using undone_exits_fd[OF assms] by (rule exits_mono) (simp add: withdrawn_def)

lemma withdrawn_rt:
  assumes wf: "node_wf G (insert d L) t" and un: "d \<notin> G \<union> L" and u: "undone {m} s t" and m: "dp_mac t d = Some m"
  shows "exits (withdrawn m s) (at_rt d t)"
  unfolding at_rt_def
proof (rule exits_bind, unfold prod.case)
  fix r v assume v: "dp_drop_link d t = Some (r, v)"
  note D = undone_drop_link[OF wf m v]
  have "node_wf G L v" using dp_drop_link_keeps[OF wf v] un by simp
  then have "exits (undone {} v) (at_fd d v)" using un by (rule undone_exits_fd) simp
  then show "exits (withdrawn m s) (at_fd d v)"
  proof (rule exits_mono)
    fix w assume w: "undone {} v w"
    have "undone {m} s w" using undone_trans[OF undone_trans[OF u D(1)] undone_mono[OF w]] by simp
    with w D(2) show "withdrawn m s w" by (simp add: withdrawn_def undone_def)
  qed
qed

lemma withdrawn_enter:
  assumes wf: "node_wf G (insert d L) t" and un: "d \<notin> G \<union> L" and u: "undone {m} s t" and m: "dp_mac t d = Some m"
  shows "exits (withdrawn m s) (do { (ret, s) \<leftarrow> dp_group_insert d t;
      if ret \<noteq> 0 then at_rt d s
      else do {
        (ret, s) \<leftarrow> dp_send_probe_req d s;
        if ret \<noteq> 0 then do { (r, s) \<leftarrow> dp_group_remove d s; at_rt d s } else Some (True, s)
      } })"
proof (rule exits_bind, unfold prod.case, rule exits_if)
  fix r v assume v: "dp_group_insert d t = Some (r, v)"
  note I = dp_group_insert_undone[OF wf m v]
  have wfv: "node_wf (if r = 0 then insert d G else G) (insert d L) v" by (rule dp_group_insert_keeps[OF wf _ v]) (simp add: m)
  show "exits (withdrawn m s) (at_rt d v)" if "r \<noteq> 0"
    using that wfv u I dp_group_insert_mac[OF v, of d] m by (intro withdrawn_rt[OF _ un]) (simp_all add: undone_def)
  show "exits (withdrawn m s) (do { (ret, s) \<leftarrow> dp_send_probe_req d v;
      if ret \<noteq> 0 then do { (r, s) \<leftarrow> dp_group_remove d s; at_rt d s } else Some (True, s) })"
    using dp_send_probe_req_zero[OF wfv] by (auto simp: exits_def bind_Some_iff)
qed

text \<open>The answer, read under the announced address.\<close>

lemma dp_read_pkt_link_graph_same_mac:
  assumes wf: "node_wf G L s" and res: "dp_read_pkt_link_graph d n False s = Some (r, s')"
  shows "dp_mac s' d = dp_mac s d"
proof -
  note def = dp_read_pkt_link_graph_def node_wf_malloc[OF wf]
  from res obtain x plink s1 where s1: "with_peer d (recv n) s = Some ((x, plink), s1)"
    by (auto simp: def bind_Some_iff)
  have eq: "dp_mac s1 d = dp_mac s d" using peers_only_sel(5)[OF recv_peers[OF s1]] by simp
  have "n_peers s1 d \<noteq> None" using s1 by (auto simp: with_peer_def bind_Some_iff)
  then have below: "d < n_next s1"
    using node_wfD(4)[OF node_wf_peers_only[OF recv_peers[OF s1] wf], of d] by (cases "n_next s1 \<le> d") auto
  consider "s' = s1" | es s3 rd where "foldM connect_edge es s1 = Some s3" "rt_update_edges (n_rd s3) es = Some (r, rd)"
      "s' = s3\<lparr>n_rd := rd\<rparr>"
    using res s1 by (auto simp: def bind_Some_iff Let_def split: if_splits)
  then show ?thesis
  proof cases
    case 2
    with connect_edges_host[OF 2(1) below] rt_update_edges_dp[OF 2(2)] eq show ?thesis by (simp add: dp_mac_blocks) (simp add: dp_mac_def flip: dp_mac_blocks)
  qed (simp add: eq)
qed

lemma dp_read_pkt_link_graph_answer:
  assumes wf: "node_wf G L s" and w: "waiting s d = Some bs" and m: "dp_mac s d = Some m"
    and eq: "m = mac_of_bytes (drop 8 bs)" and res: "dp_read_pkt_link_graph d n True s = Some (r, s')"
  shows "node_wf G L s'" and "undone M s s'" and "dp_mac s' d = Some m"
proof -
  have "names_itself d n s" using names_itselfI[OF w] m eq by simp
  from dp_read_pkt_link_graph_named[OF wf this res] have "dp_read_pkt_link_graph d n False s = Some (r, s')" .
  then show "node_wf G L s'" "undone M s s'" "dp_mac s' d = Some m"
    using dp_read_pkt_link_graph_keeps[OF wf] undone_first_state[OF wf] dp_read_pkt_link_graph_same_mac[OF wf] m by auto
qed

lemma withdrawn_answer:
  assumes wf: "node_wf G (insert d L) t" and un: "d \<notin> G \<union> L" and u: "undone {m} s t" and m: "dp_mac t d = Some m"
    and w: "waiting t d = Some bs" "m = mac_of_bytes (drop 8 bs)"
  shows "exits (withdrawn m s) (do {
    (ret, s) \<leftarrow> dp_read_pkt_link_graph d n True t;
    if ret \<noteq> 0 then at_rt d s
    else do {
      (ret, s) \<leftarrow> dp_group_insert d s;
      if ret \<noteq> 0 then at_rt d s
      else do {
        (ret, s) \<leftarrow> dp_send_probe_req d s;
        if ret \<noteq> 0 then do { (r, s) \<leftarrow> dp_group_remove d s; at_rt d s }
        else Some (True, s)
      }
    }
  })"
proof (rule exits_bind, unfold prod.case)
  fix r v assume "dp_read_pkt_link_graph d n True t = Some (r, v)"
  note A = dp_read_pkt_link_graph_answer[OF wf w(1) m w(2) this]
  have "undone {m} s v" using undone_trans[OF u A(2)] .
  then show "exits (withdrawn m s) (if r \<noteq> 0 then at_rt d v
    else do {
      (ret, s) \<leftarrow> dp_group_insert d v;
      if ret \<noteq> 0 then at_rt d s
      else do {
        (ret, s) \<leftarrow> dp_send_probe_req d s;
        if ret \<noteq> 0 then do { (r, s) \<leftarrow> dp_group_remove d s; at_rt d s }
        else Some (True, s)
      }
    })"
    by (intro exits_if withdrawn_rt[OF A(1) un] withdrawn_enter[OF A(1) un] A(3))
qed

lemma withdrawn_link:
  assumes wf: "node_wf G L t" and un: "d \<notin> G \<union> L" and u: "undone {} s t" and m: "dp_mac t d = Some m"
    and rest: "\<And>v. node_wf G (insert d L) v \<Longrightarrow> undone {m} s v \<Longrightarrow> dp_mac v d = Some m \<Longrightarrow> waiting v d = waiting t d \<Longrightarrow>
      exits (withdrawn m s) (k v)"
  shows "exits (withdrawn m s) (do { (ret, s) \<leftarrow> dp_first_link d t; if ret \<noteq> 0 then at_fd d s else k s })"
proof (rule exits_bind, unfold prod.case, rule exits_if)
  fix r v assume v: "dp_first_link d t = Some (r, v)"
  note F = dp_first_link_undone[OF wf m v] and wfv = dp_first_link_keeps[OF wf v]
  show "exits (withdrawn m s) (at_fd d v)" if "r \<noteq> 0"
    using that wfv u F by (intro withdrawn_fd[OF _ un]) (simp_all add: undone_def)
  show "exits (withdrawn m s) (k v)" if "\<not> r \<noteq> 0"
    using that wfv undone_trans[OF undone_mono[OF u] F(3)] dp_first_link_mac[OF v] waiting_first_link[OF v] m by (intro rest) simp_all
qed

lemma dp_th_linkstate_vanishes:
  assumes wf: "node_wf G L s" and un: "d \<notin> G \<union> L" and live: "n_peers s d \<noteq> None" and m: "dp_mac s d = Some m"
    and nm: "\<And>c. na_conn na = Some c \<Longrightarrow> m = mac_of_bytes (drop (PL_HEADER + 8) (rx c))"
  shows "exits (withdrawn m s) (dp_th_linkstate d na s)"
proof (cases rule: connect_inet_cases[of na])
  case (1 e)
  then show ?thesis by (simp add: dp_th_linkstate_def withdrawn_fd[OF wf un])
next
  case (2 c)
  obtain t where t: "set_con d c s = Some t" using live by (auto simp: set_con_def)
  define ok where "ok u \<longleftrightarrow> node_wf G L u \<and> undone {} s u \<and> dp_mac u d = Some m" for u
  have po: "ok v" if "peers_only u v" "ok u" for u v
    using that node_wf_peers_only[OF that(1)] undone_peers[OF that(1)] undone_trans peers_only_sel(5)[OF that(1)]
    by (simp add: ok_def) blast
  have ok0: "ok t" using po[OF set_con_peers[OF t]] wf m by (simp add: ok_def)
  have fd: "exits (withdrawn m s) (at_fd d u)" if "ok u" for u
    using that withdrawn_fd[OF _ un] by (simp add: ok_def)
  have m': "m = mac_of_bytes (drop 8 (drop PL_HEADER (rx c)))" using nm[OF 2(2)] by (simp add: add.commute)
  show ?thesis
    unfolding dp_th_linkstate_def 2(1) sum.case t Option.bind.simps
    apply (rule exits_bind, frule waiting_send_join[OF _ waiting_set_con[OF t]], drule po[OF dp_send_join_peers ok0],
        clarsimp split del: if_split)
    apply (rule exits_if, erule fd)
    apply (rule exits_bind, frule waiting_header, assumption, drule po[OF dp_recv_header_peers], assumption,
        clarsimp split del: if_split)
    apply (rule exits_if, erule fd)
    apply (rule withdrawn_link[OF _ un]; (simp add: ok_def)?)
    apply (rule withdrawn_answer[OF _ un _ _ _ m'], assumption+)
    done
qed

text \<open>One that goes on has its peer in the group, and the one-second link is there after the answer, too.\<close>

lemma dp_th_linkstate_joined:
  assumes wf: "node_wf G L s" and m: "dp_mac s d = Some m"
    and nm: "\<And>c. na_conn na = Some c \<Longrightarrow> m = mac_of_bytes (drop (PL_HEADER + 8) (rx c))"
    and res: "dp_th_linkstate d na s = Some (True, s')"
  shows "d \<in> set (peers (n_dpg s')) \<and> dp_mac s' d = Some m \<and> (\<exists>ts. local_link (n_rd s') m 1000000 ts)"
proof -
  from res obtain c s1 s2 s3 s4 s5 s6 r hd n where c: "na_conn na = Some c" and s1: "set_con d c s = Some s1"
    and s2: "dp_send_join d s1 = Some (r, s2)" and s3: "with_peer d dp_recv_header s2 = Some (hd, s3)"
    and s4: "dp_first_link d s3 = Some (0, s4)" and s5: "dp_read_pkt_link_graph d n True s4 = Some (0, s5)"
    and s6: "dp_group_insert d s5 = Some (0, s6)" and s7: "dp_send_probe_req d s6 = Some (0, s')"
    by (cases rule: connect_inet_cases[of na]) (auto simp: dp_th_linkstate_def bind_Some_iff goes_on dest: at_fd_gone)
  note ps = set_con_peers[OF s1] dp_send_join_peers[OF s2] dp_recv_header_peers[OF s3]
  have wf3: "node_wf G L s3"
    using node_wf_peers_only[OF ps(3)] node_wf_peers_only[OF ps(2)] node_wf_peers_only[OF ps(1) wf] by blast
  have wf4: "node_wf G (insert d L) s4" using dp_first_link_keeps[OF wf3 s4] by simp
  have w: "waiting s4 d = Some (drop PL_HEADER (rx c))"
    using waiting_first_link[OF s4] waiting_header[OF s3 waiting_send_join[OF s2 waiting_set_con[OF s1]]] by simp
  have m4: "dp_mac s4 d = Some m"
    using dp_first_link_mac[OF s4] ps[THEN peers_only_sel(5)] m by simp
  have "m = mac_of_bytes (drop 8 (drop PL_HEADER (rx c)))" using nm[OF c] by (simp add: add.commute)
  note A = dp_read_pkt_link_graph_answer[OF wf4 w m4 this s5]
  obtain ts where "local_link (n_rd s4) m 1000000 ts" using dp_first_link_links[OF wf3 s4] m4 by (metis option.inject)
  with A(2)[of "{}"] have "local_link (n_rd s5) m 1000000 ts" by (simp add: undone_def)
  moreover have "n_rd s' = n_rd s5" "n_dpg s' = n_dpg s6" "dp_mac s' d = dp_mac s5 d"
    using dp_group_insert_undone(1)[OF A(1,3) s6] dp_group_insert_mac[OF s6] peers_only_sel[OF dp_send_probe_req_keeps[OF s7]] by simp_all
  moreover have "d \<in> set (peers (n_dpg s6))" using dp_group_insert_member[OF A(1) _ s6] A(3) by simp
  ultimately show ?thesis using A(3) by auto
qed

end
