(* ===== verification/Samples.thy ===== *)
theory Samples
  imports Node_Handshake Node_Exits "HOL-Library.Code_Target_Nat"
begin

text \<open>
  Small concrete nodes on which the witnesses evaluate the operations.  The local host has the
  Ethernet address that ends in 8, the peers those that end in 2 and 4.
\<close>

definition mac_no :: "u8 \<Rightarrow> ether_addr" where
  "mac_no n = Ether_Addr 0 0 0 0 0 n"

definition host_no :: "u8 \<Rightarrow> ipv4_host" where
  "host_no n = \<lparr>ip_mac = mac_no n, ip_in = \<lparr>sin_family = AF_INET, sin_port = 9000, sin_addr = 1\<rparr>\<rparr>"

definition sample_ips :: "ip_ptr \<Rightarrow> ipv4_host option" where
  "sample_ips = Map.empty(IP_Main \<mapsto> host_no 8, IP_Dp 0 \<mapsto> host_no 2, IP_Dp 1 \<mapsto> host_no 4)"

definition at_sec :: "int \<Rightarrow> timeval" where
  "at_sec n = \<lparr>tv_sec = n, tv_usec = 0\<rparr>"

definition no_items :: "'a da" where
  "no_items = \<lparr>da_ct = 0, da_mem = 8, da_items = []\<rparr>"

definition one_link :: "hptr \<Rightarrow> rt_link da" where
  "one_link p = \<lparr>da_ct = 1, da_mem = 8, da_items = [\<lparr>l_dst = p, l_rtt_us = 1000, l_ts_ms = 5\<rparr>]\<rparr>"

text \<open>Memory before \<open>rt_init\<close>.\<close>

definition blank :: routing where
  "blank = \<lparr>hosts = no_items, local_host = None, m_ct = 7, mats = M_Dangling, edges = no_items,
     lock = RW_Free, hheap = Map.empty, ipheap = sample_ips, brk = 0, allocs = []\<rparr>"

text \<open>A node with one direct peer.\<close>

definition net2 :: routing where
  "net2 = \<lparr>hosts = \<lparr>da_ct = 2, da_mem = 8, da_items = [1, 0]\<rparr>, local_host = Some 0, m_ct = 2,
     mats = M_Valid [[1, 0], [1000, 1]] [[NEXT_DISCON, NEXT_DISCON], [NEXT_DISCON, NEXT_DISCON]],
     edges = no_items, lock = RW_Free,
     hheap = Map.empty(
       0 \<mapsto> \<lparr>h_host = IP_Main, h_type = HT_LOCAL, h_l_max_ts_ms = 5, h_links = one_link 1\<rparr>,
       1 \<mapsto> \<lparr>h_host = IP_Dp 0, h_type = HT_DIRECT, h_l_max_ts_ms = 0, h_links = no_items\<rparr>),
     ipheap = sample_ips, brk = 2, allocs = []\<rparr>"

text \<open>The same node after the peer has disconnected.\<close>

definition net2_gone :: routing where
  "net2_gone = net2\<lparr>
     mats := M_Valid [[1, 0], [0, 1]] [[NEXT_DISCON, NEXT_DISCON], [NEXT_DISCON, NEXT_DISCON]],
     hheap := Map.empty(
       0 \<mapsto> \<lparr>h_host = IP_Main, h_type = HT_LOCAL, h_l_max_ts_ms = 5, h_links = no_items\<rparr>,
       1 \<mapsto> \<lparr>h_host = IP_Heap 1, h_type = HT_NORMAL, h_l_max_ts_ms = 0, h_links = no_items\<rparr>),
     ipheap := sample_ips(IP_Heap 1 \<mapsto> host_no 2)\<rparr>"

lemmas sample_defs = net2_def net2_gone_def sample_ips_def host_no_def mac_no_def no_items_def one_link_def

lemma net2_wf: "rt_wf net2"
  by (simp add: sample_defs rt_wf_defs da_wf_def da_list_def ascending_def keyed_def host_mac_def
      link_mac_def less_eq_ether_addr_def)

lemma net2_gone_wf: "rt_wf net2_gone"
  by (simp add: sample_defs rt_wf_defs da_wf_def da_list_def ascending_def keyed_def host_mac_def
      link_mac_def less_eq_ether_addr_def)

lemma net2_edges: "da_wf (edges net2)"
  by (simp add: net2_def da_wf_def no_items_def)

lemma net2_current: "paths_current net2"
proof -
  have "adjacency net2 = Some [[1, 0], [1000, 1]]" by code_simp
  moreover have "floyd_warshall 2 ([[1, 0], [1000, 1]],
      [[NEXT_DISCON, NEXT_DISCON], [NEXT_DISCON, NEXT_DISCON]]) =
      ([[1, 0], [1000, 1]], [[NEXT_DISCON, NEXT_DISCON], [NEXT_DISCON, NEXT_DISCON]])" by code_simp
  ultimately show ?thesis by (simp add: paths_current_def net2_def numeral_2_eq_2)
qed

lemma net2_gone_current: "paths_current net2_gone"
proof -
  have "adjacency net2_gone = Some [[1, 0], [0, 1]]" by code_simp
  moreover have "floyd_warshall 2 ([[1, 0], [0, 1]],
      [[NEXT_DISCON, NEXT_DISCON], [NEXT_DISCON, NEXT_DISCON]]) =
      ([[1, 0], [0, 1]], [[NEXT_DISCON, NEXT_DISCON], [NEXT_DISCON, NEXT_DISCON]])" by code_simp
  ultimately show ?thesis by (simp add: paths_current_def net2_gone_def net2_def numeral_2_eq_2)
qed

lemma net2_sel:
  "lock net2 = RW_Free" "allocs net2 = []" "host_list net2 = [1, 0]" "local_host net2 = Some 0"
  "ipheap net2 (IP_Dp 0) = Some (host_no 2)" "ipheap net2 (IP_Dp 1) = Some (host_no 4)"
  by (simp_all add: net2_def da_list_def sample_ips_def)

lemma net2_count: "m_ct net2 = 2"
  by (simp add: net2_def)

lemma net2_small: "length (host_list net2) \<le> NEXT_DISCON"
  by (simp add: net2_sel NEXT_DISCON_def SIZE_MAX_def)

lemma net2_mac: "host_mac net2 0 = Some (mac_no 8)"
  by (simp add: host_mac_def sample_defs)

lemma net2_link: "local_link net2 (mac_no 2) 1000 5"
  by (auto simp: local_link_def sample_defs link_mac_def host_mac_def da_list_def)

lemma net2_gone_sel: "allocs net2_gone = []" "host_list net2_gone = [1, 0]" "is_normal net2_gone 0"
  by (simp_all add: net2_gone_def net2_def da_list_def is_normal_def)

text \<open>Runs of the operations on these nodes.\<close>

lemma net2_cache: "\<exists>s'. update_cache net2 = Some (0, s')"
proof -
  have "map_option fst (update_cache net2) = Some 0" by code_simp
  then show ?thesis by auto
qed

lemma net2_add: "\<exists>s'. rt_dhost_add_link (at_sec 100) net2 (IP_Dp 0) 1500 = Some (0, s')"
proof -
  have "map_option fst (rt_dhost_add_link (at_sec 100) net2 (IP_Dp 0) 1500) = Some 0" by code_simp
  then show ?thesis by auto
qed

lemma net2_remove: "\<exists>s'. rt_dhost_remove net2 (mac_no 2) = Some (0, s')"
proof -
  have "map_option fst (rt_dhost_remove net2 (mac_no 2)) = Some 0" by code_simp
  then show ?thesis by auto
qed

text \<open>The peer reports its own link to the local host.\<close>

definition report :: "pkt_edge list" where
  "report = [\<lparr>e_src = pkt_ipv4_pack (host_no 2), e_dst = pkt_ipv4_pack (host_no 8),
     e_rtt_us = htonl 900, e_ts_ms = htonll 7\<rparr>]"

lemma net2_update: "\<exists>s'. rt_update_edges net2 report = Some (0, s')"
proof -
  have "map_option fst (rt_update_edges net2 report) = Some 0" by code_simp
  then show ?thesis by auto
qed

text \<open>The same node when it has already seen link state of that time from the peer.\<close>

definition net2_seen :: routing where
  "net2_seen = net2\<lparr>hheap := (hheap net2)(1 \<mapsto>
     \<lparr>h_host = IP_Dp 0, h_type = HT_DIRECT, h_l_max_ts_ms = 7, h_links = no_items\<rparr>)\<rparr>"

lemma net2_seen_wf: "rt_wf net2_seen"
  by (simp add: net2_seen_def sample_defs rt_wf_defs da_wf_def da_list_def ascending_def keyed_def host_mac_def
      link_mac_def less_eq_ether_addr_def)

lemma net2_seen_sel: "allocs net2_seen = []" "host_list net2_seen = [1, 0]" "host_mac net2_seen 1 = Some (mac_no 2)"
  "hheap net2_seen 1 = Some \<lparr>h_host = IP_Dp 0, h_type = HT_DIRECT, h_l_max_ts_ms = 7, h_links = no_items\<rparr>"
  by (simp_all add: net2_seen_def net2_def da_list_def host_mac_def sample_ips_def host_no_def)

lemma report_stale: "stale report (mac_no 2) 7"
  by (simp add: stale_def report_def pkt_ipv4_pack_def host_no_def mac_no_def)

lemma report_new: "\<exists>s' h. update_edges_loop report no_ip_host None False net2 = Some (0, s') \<and> hheap s' 1 = Some h \<and>
  h_l_max_ts_ms h = 7 \<and> da_ct (h_links h) = 1"
proof -
  have "(case update_edges_loop report no_ip_host None False net2 of Some (r, s') \<Rightarrow> r = 0 \<and>
      (case hheap s' 1 of Some h \<Rightarrow> h_l_max_ts_ms h = 7 \<and> da_ct (h_links h) = 1 | None \<Rightarrow> False) | None \<Rightarrow> False)" by code_simp
  then show ?thesis by (auto split: option.splits)
qed

text \<open>A node that knows two hosts which are not its peers any more.\<close>

definition net3_gone :: routing where
  "net3_gone = net2\<lparr>hosts := \<lparr>da_ct = 3, da_mem = 8, da_items = [1, 2, 0]\<rparr>, m_ct := 3,
     mats := M_Valid [[1, 0, 0], [0, 1, 0], [0, 0, 1]] (replicate 3 (replicate 3 NEXT_DISCON)),
     hheap := Map.empty(
       0 \<mapsto> \<lparr>h_host = IP_Main, h_type = HT_LOCAL, h_l_max_ts_ms = 5, h_links = no_items\<rparr>,
       1 \<mapsto> \<lparr>h_host = IP_Heap 1, h_type = HT_NORMAL, h_l_max_ts_ms = 0, h_links = no_items\<rparr>,
       2 \<mapsto> \<lparr>h_host = IP_Heap 2, h_type = HT_NORMAL, h_l_max_ts_ms = 0, h_links = no_items\<rparr>),
     ipheap := sample_ips(IP_Heap 1 \<mapsto> host_no 2, IP_Heap 2 \<mapsto> host_no 4), brk := 3\<rparr>"

lemma net3_gone_wf: "rt_wf net3_gone"
  by (simp add: net3_gone_def sample_defs rt_wf_defs da_wf_def da_list_def ascending_def keyed_def host_mac_def
      link_mac_def less_eq_ether_addr_def)

lemma net3_gone_sel: "allocs net3_gone = []" "host_list net3_gone = [1, 2, 0]" "is_normal net3_gone 0"
  "hheap net3_gone 2 = Some \<lparr>h_host = IP_Heap 2, h_type = HT_NORMAL, h_l_max_ts_ms = 0, h_links = no_items\<rparr>"
  by (simp_all add: net3_gone_def net2_def da_list_def is_normal_def)

lemma net3_gone_current: "paths_current net3_gone"
proof -
  have "adjacency net3_gone = Some [[1, 0, 0], [0, 1, 0], [0, 0, 1]]" by code_simp
  moreover have "floyd_warshall 3 ([[1, 0, 0], [0, 1, 0], [0, 0, 1]], replicate 3 (replicate 3 NEXT_DISCON)) =
      ([[1, 0, 0], [0, 1, 0], [0, 0, 1]], replicate 3 (replicate 3 NEXT_DISCON))" by code_simp
  ultimately show ?thesis by (simp add: paths_current_def net3_gone_def)
qed

text \<open>
  A node with two direct peers, of which the first has a slow link to the second and a fast one to
  the local host: its multicast frames go on through the local host.
\<close>

definition some_links :: "(hptr \<times> u32) list \<Rightarrow> rt_link da" where
  "some_links ls = \<lparr>da_ct = length ls, da_mem = 8, da_items = map (\<lambda>(p, t). \<lparr>l_dst = p, l_rtt_us = t, l_ts_ms = 5\<rparr>) ls\<rparr>"

definition net3 :: routing where
  "net3 = net2\<lparr>hosts := \<lparr>da_ct = 3, da_mem = 8, da_items = [1, 2, 0]\<rparr>, m_ct := 3,
     mats := M_Valid [[1, 200, 100], [0, 1, 0], [1000, 100, 1]]
       [[NEXT_DISCON, 2, NEXT_DISCON], replicate 3 NEXT_DISCON, replicate 3 NEXT_DISCON],
     hheap := Map.empty(
       0 \<mapsto> \<lparr>h_host = IP_Main, h_type = HT_LOCAL, h_l_max_ts_ms = 5, h_links = some_links [(1, 1000), (2, 100)]\<rparr>,
       1 \<mapsto> \<lparr>h_host = IP_Dp 0, h_type = HT_DIRECT, h_l_max_ts_ms = 5, h_links = some_links [(2, 1000), (0, 100)]\<rparr>,
       2 \<mapsto> \<lparr>h_host = IP_Dp 1, h_type = HT_DIRECT, h_l_max_ts_ms = 0, h_links = no_items\<rparr>),
     brk := 3\<rparr>"

lemma net3_wf: "rt_wf net3"
  by (simp add: net3_def some_links_def sample_defs rt_wf_defs da_wf_def da_list_def ascending_def keyed_def host_mac_def
      link_mac_def less_eq_ether_addr_def)

lemma net3_sel: "allocs net3 = []" "host_list net3 = [1, 2, 0]" "local_host net3 = Some 0"
  by (simp_all add: net3_def net2_def da_list_def)

lemma net3_current: "paths_current net3"
proof -
  have "adjacency net3 = Some [[1, 1000, 100], [0, 1, 0], [1000, 100, 1]]" by code_simp
  moreover have "floyd_warshall 3 ([[1, 1000, 100], [0, 1, 0], [1000, 100, 1]], replicate 3 (replicate 3 NEXT_DISCON)) =
      ([[1, 200, 100], [0, 1, 0], [1000, 100, 1]],
       [[NEXT_DISCON, 2, NEXT_DISCON], replicate 3 NEXT_DISCON, replicate 3 NEXT_DISCON])" by code_simp
  ultimately show ?thesis by (simp add: paths_current_def net3_def)
qed

lemma net2_cache_paths: "\<exists>s'. update_cache net2 = Some (0, s') \<and> host_list s' = [1, 0] \<and> path_at s' 1 0 \<noteq> Some 0"
proof -
  have "(case update_cache net2 of None \<Rightarrow> False
    | Some (r, s') \<Rightarrow> r = 0 \<and> host_list s' = [1, 0] \<and> path_at s' 1 0 \<noteq> Some 0)" by code_simp
  then show ?thesis by (auto split: option.splits)
qed

text \<open>A peer that claims the address of the local host.\<close>

definition net2_own :: routing where
  "net2_own = net2\<lparr>ipheap := sample_ips(IP_Dp 1 \<mapsto> host_no 8)\<rparr>"

lemma net2_own_wf: "rt_wf net2_own"
  by (simp add: net2_own_def sample_defs rt_wf_defs da_wf_def da_list_def ascending_def keyed_def
      host_mac_def link_mac_def less_eq_ether_addr_def)

lemma net2_own_run: "\<exists>s'. rt_dhost_add_link (at_sec 100) net2_own (IP_Dp 1) 5 = Some (- 2, s')"
proof -
  have "map_option fst (rt_dhost_add_link (at_sec 100) net2_own (IP_Dp 1) 5) = Some (- 2)" by code_simp
  then show ?thesis by auto
qed

section \<open>A group of peers and a table of attempts\<close>

text \<open>Two peers, of which the group holds the first.\<close>

definition pair_macs :: "dptr \<Rightarrow> ether_addr option" where
  "pair_macs n = (if n = 0 then Some (mac_no 2) else if n = 1 then Some (mac_no 4) else None)"

definition pair_group :: dpg where
  "pair_group = \<lparr>dps = \<lparr>da_ct = 1, da_mem = 8, da_items = [0]\<rparr>, g_lock = RW_Free,
     l_addr = ip_in (host_no 8)\<rparr>"

lemma pair_group_wf: "dpg_wf pair_macs pair_group"
  by (simp add: dpg_wf_def table_wf_def pair_group_def da_wf_def da_list_def ascending_def keyed_def pair_macs_def)

lemma pair_group_peers: "peers pair_group = [0]"
  by (simp add: pair_group_def da_list_def)

lemma pair_group_map: "dpg_map pair_macs pair_group (mac_no 2) = Some 0" "dpg_map pair_macs pair_group (mac_no 4) = None"
  by (simp_all add: dpg_map_def pair_group_peers pair_macs_def mac_no_def)

lemma pair_group_insert: "\<exists>g' al'. dpg_insert pair_macs pair_group 1 [] = Some (0, g', al')"
proof -
  have "map_option fst (dpg_insert pair_macs pair_group 1 []) = Some 0" by code_simp
  then show ?thesis by (cases "dpg_insert pair_macs pair_group 1 []") auto
qed

text \<open>One host was tried at second 100.\<close>

definition tried :: pcon where
  "tried = \<lparr>ipas = \<lparr>da_ct = 1, da_mem = 8,
     da_items = [\<lparr>attempt_ts = at_sec 100, a_host = host_no 2\<rparr>]\<rparr>, p_lock = False\<rparr>"

lemma tried_wf: "pcon_wf tried"
  by (simp add: pcon_wf_def table_wf_def tried_def da_wf_def da_list_def ascending_def keyed_def)

lemma tried_last: "last_attempt tried (key_of (host_no 2)) (at_sec 100)"
  by (simp add: last_attempt_def tried_def da_list_def)

lemma tried_not: "\<nexists>ts. last_attempt tried (key_of (host_no 4)) ts"
  by (simp add: last_attempt_def tried_def da_list_def key_of_def host_no_def mac_no_def)

end
