(* ===== verification/Peer_Clock.thy ===== *)
theory Peer_Clock
  imports Peer_Threads "HOL-Library.Sublist"
begin

text \<open>
  The clock of the peer loop: every call only consumes readings of the clock, and with readings that
  do not go backwards the time that is left to wait stays between zero and the probe interval.
\<close>

section \<open>Readings that are consumed\<close>

definition ticks :: "node \<Rightarrow> node \<Rightarrow> bool" where
  "ticks s t \<longleftrightarrow> suffix (n_clock t) (n_clock s)"

lemma ticks_refl [simp]: "ticks s s"
  by (simp add: ticks_def)

lemma ticks_trans: "ticks s t \<Longrightarrow> ticks t u \<Longrightarrow> ticks s u"
  unfolding ticks_def by (rule suffix_order.trans)

lemma ticks_frame [simp]:
  "ticks s (t\<lparr>n_rd := a\<rparr>) = ticks s t" "ticks s (t\<lparr>n_dpg := b\<rparr>) = ticks s t" "ticks s (t\<lparr>n_pc := c\<rparr>) = ticks s t"
  "ticks s (t\<lparr>n_peers := d\<rparr>) = ticks s t" "ticks s (t\<lparr>n_next := e\<rparr>) = ticks s t" "ticks s (t\<lparr>n_threads := f\<rparr>) = ticks s t"
  "ticks s (t\<lparr>n_rand := g\<rparr>) = ticks s t" "ticks s (t\<lparr>n_spawns := h\<rparr>) = ticks s t"
  "ticks (s\<lparr>n_rd := a\<rparr>) t = ticks s t" "ticks (s\<lparr>n_dpg := b\<rparr>) t = ticks s t" "ticks (s\<lparr>n_pc := c\<rparr>) t = ticks s t"
  "ticks (s\<lparr>n_peers := d\<rparr>) t = ticks s t" "ticks (s\<lparr>n_rand := g\<rparr>) t = ticks s t"
  by (simp_all add: ticks_def)

named_theorems ticking

lemma gettimeofday_ticks [ticking]: "gettimeofday s = (now, t) \<Longrightarrow> ticks s t"
  by (auto simp: gettimeofday_def ticks_def suffix_def split: list.splits)

lemma rand_ticks: "ticks s (snd (rand s))"
  by (simp add: rand_def split: list.split)

lemma malloc_ticks [simp]: "ticks s (snd (malloc s))"
  by (simp add: malloc_def split_beta)

lemma with_peer_ticks [ticking]: "with_peer d f s = Some (r, t) \<Longrightarrow> ticks s t"
  by (auto simp: with_peer_def bind_Some_iff)

lemma foldM_ticks:
  assumes "foldM f xs s = Some t" and "\<And>x u v. f x u = Some v \<Longrightarrow> ticks u v"
  shows "ticks s t"
  using assms(1) by (rule foldM_invariant) (auto intro: ticks_trans assms(2))

section \<open>The calls of the loop\<close>

lemma dp_send_probe_req_ticks [ticking]:
  assumes "dp_send_probe_req d s = Some (r, t)"
  shows "ticks s t"
proof -
  obtain q u where u: "rand s = (q, u)" by (rule prod.exhaust)
  obtain now v where v: "gettimeofday u = (now, v)" by (rule prod.exhaust)
  from assms u v obtain p where "with_peer d (dp_send_packet PT_PROBE_REQ (of_nat PL_PROBE_REQ) (le_bytes 2 q))
      (v\<lparr>n_peers := p\<rparr>) = Some (r, t)" by (auto simp: dp_send_probe_req_def bind_Some_iff)
  from with_peer_ticks[OF this] have "ticks v t" by simp
  moreover have "ticks s u" using rand_ticks[of s] u by simp
  ultimately show ?thesis using gettimeofday_ticks[OF v] by (blast intro: ticks_trans)
qed

lemma dp_handle_probe_resp_ticks [ticking]:
  assumes "dp_handle_probe_resp d s = Some (r, t)"
  shows "ticks s t"
proof -
  from assms obtain x req u where u: "with_peer d (recv PL_PROBE_RESP) s = Some ((x, req), u)"
    by (auto simp: dp_handle_probe_resp_def bind_Some_iff)
  have "ticks u t"
  proof (cases "t = u")
    case False
    obtain t1 v where v: "gettimeofday u = (t1, v)" by (rule prod.exhaust)
    from assms u v False obtain p now w rd where "gettimeofday (v\<lparr>n_peers := p\<rparr>) = (now, w)" "t = w\<lparr>n_rd := rd\<rparr>"
      by (auto simp: dp_handle_probe_resp_def bind_Some_iff Let_def split: if_splits prod.splits)
    then show ?thesis using gettimeofday_ticks[OF v] gettimeofday_ticks[of "v\<lparr>n_peers := p\<rparr>" now w]
      by (auto intro: ticks_trans)
  qed simp
  with with_peer_ticks[OF u] show ?thesis by (rule ticks_trans)
qed

lemma dp_create_linkstate_ticks: "ticks s (snd (dp_create_linkstate h s))"
proof -
  have "n_clock (snd (dp_create_linkstate h s)) = n_clock s"
    by (simp add: dp_create_linkstate_def dp_create_1_def malloc_def dp_spawn_th_def dp_cleanup_1_def set_dp_host_def
        Let_def split_beta split: list.split)
  then show ?thesis by (simp add: ticks_def)
qed

lemma connect_peer_ticks:
  assumes "connect_peer h s = Some t"
  shows "ticks s t"
proof -
  obtain now u where u: "gettimeofday s = (now, u)" by (rule prod.exhaust)
  with assms obtain c pc al where t: "t = (let v = u\<lparr>n_pc := pc, n_rd := (n_rd u)\<lparr>allocs := al\<rparr>\<rparr>
      in if c then snd (dp_create_linkstate h v) else v)"
    by (auto simp: connect_peer_def bind_Some_iff Let_def)
  have "ticks u t"
    using dp_create_linkstate_ticks[of "u\<lparr>n_pc := pc, n_rd := (n_rd u)\<lparr>allocs := al\<rparr>\<rparr>" h] by (simp add: t Let_def)
  with gettimeofday_ticks[OF u] show ?thesis by (rule ticks_trans)
qed

lemma connect_edge_ticks: "connect_edge e s = Some t \<Longrightarrow> ticks s t"
  by (auto simp: connect_edge_def bind_Some_iff dest!: connect_peer_ticks intro: ticks_trans)

lemma dp_read_pkt_link_graph_ticks [ticking]:
  assumes "dp_read_pkt_link_graph d n False s = Some (r, t)"
  shows "ticks s t"
proof -
  obtain ok u where u: "malloc s = (ok, u)" by (rule prod.exhaust)
  have su: "ticks s u" using malloc_ticks[of s] u by simp
  have "ticks v (w\<lparr>n_rd := rd\<rparr>)" if "foldM connect_edge es v = Some w" for es v w rd
    using foldM_ticks[OF that connect_edge_ticks] by simp
  with assms u su show ?thesis
    by (auto simp: dp_read_pkt_link_graph_def bind_Some_iff Let_def split: if_splits
        dest!: with_peer_ticks intro: ticks_trans)
qed

lemma forward_frame_ticks [ticking]:
  assumes "forward_frame src dst pkt s = Some (r, t)"
  shows "ticks s t"
proof -
  have "ticks u v" if "send_frame_to pkt a u = Some v" for a u v
    using that by (auto simp: send_frame_to_def split: ip_ptr.splits dest: with_peer_ticks)
  then have "ticks u v" if "foldM (send_frame_to pkt) hs u = Some v" for hs u v using foldM_ticks[OF that] by blast
  note loop = this
  from assms obtain ret hosts rd where h: "rt_dhosts_to_host (n_rd s) src dst = Some (ret, hosts, rd)"
    by (auto simp: forward_frame_def bind_Some_iff)
  show ?thesis
  proof (cases "ret < 0")
    case True
    with assms h show ?thesis by (auto simp: forward_frame_def)
  next
    case False
    with assms h obtain u rd' where u: "foldM (send_frame_to pkt) hosts (s\<lparr>n_rd := rd\<rparr>) = Some u" "t = u\<lparr>n_rd := rd'\<rparr>"
      by (auto simp: forward_frame_def bind_Some_iff Let_def)
    then show ?thesis using loop[OF u(1)] by simp
  qed
qed

lemma dpg_send_linkstate_ticks [ticking]:
  assumes "dpg_send_linkstate s = Some (r, t)"
  shows "ticks s t"
proof -
  have "ticks u v" if "send_linkstate_to es a u = Some v" for es a u v
    using that by (auto simp: send_linkstate_to_def dest: with_peer_ticks)
  with assms show ?thesis
    by (auto simp: dpg_send_linkstate_def bind_Some_iff dest!: foldM_ticks)
qed

lemma dp_recv_data_ticks [ticking]:
  assumes "dp_recv_data d n s = Some (r, t)"
  shows "ticks s t"
proof -
  obtain ok u where u: "malloc s = (ok, u)" by (rule prod.exhaust)
  have "ticks s u" using malloc_ticks[of s] u by simp
  with assms u show ?thesis
    by (auto simp: dp_recv_data_def bind_Some_iff split: if_splits
        dest!: with_peer_ticks forward_frame_ticks intro: ticks_trans)
qed

lemma dp_recv_flush_ticks [ticking]:
  assumes "dp_recv_flush d n s = Some (r, t)"
  shows "ticks s t"
proof -
  obtain ok u where u: "malloc s = (ok, u)" by (rule prod.exhaust)
  have "ticks s u" using malloc_ticks[of s] u by simp
  with assms u show ?thesis
    by (auto simp: dp_recv_flush_def bind_Some_iff split: if_splits dest!: with_peer_ticks intro: ticks_trans)
qed

lemma dp_recv_packet_ticks [ticking]: "dp_recv_packet d s = Some (r, t) \<Longrightarrow> ticks s t"
  by (auto simp: dp_recv_packet_def bind_Some_iff split: if_splits dest!: ticking intro: ticks_trans)

lemma dp_th_event_ticks [ticking]: "dp_th_event d ev s = Some (go, t) \<Longrightarrow> ticks s t"
  by (auto simp: dp_th_event_def bind_Some_iff split: epoll_answer.splits dest!: ticking)

lemma dp_th_probe_ticks [ticking]:
  assumes "dp_th_probe d l s = Some (go, l', t)"
  shows "ticks s t"
proof (cases "timer_gt (wtime l) tv_zero")
  case False
  with assms obtain ret s1 where s1: "dp_send_probe_req d s = Some (ret, s1)" by (auto simp: dp_th_probe_def bind_Some_iff)
  have "ticks s1 t"
  proof (cases "ret < 0")
    case False
    have "ticks u t" if "(let (now, s) = gettimeofday u in Some (True, f now, s)) = Some (go, l', t)" for u f
      using that gettimeofday_ticks[of u] by (auto split: prod.splits)
    with assms s1 False \<open>\<not> timer_gt (wtime l) tv_zero\<close> show ?thesis
      by (auto simp: dp_th_probe_def bind_Some_iff split: if_splits dest!: dpg_send_linkstate_ticks intro: ticks_trans)
  qed (use assms s1 \<open>\<not> timer_gt (wtime l) tv_zero\<close> in \<open>auto simp: dp_th_probe_def\<close>)
  with dp_send_probe_req_ticks[OF s1] show ?thesis by (rule ticks_trans)
qed (use assms in \<open>auto simp: dp_th_probe_def\<close>)

lemma dp_th_iter_ticks [ticking]:
  assumes "dp_th_iter d ev l s = Some (go, l', t)"
  shows "ticks s t"
proof -
  from assms obtain g l1 s1 where s1: "dp_th_probe d l s = Some (g, l1, s1)" by (auto simp: dp_th_iter_def bind_Some_iff)
  have "ticks s1 t"
  proof (cases g)
    case True
    with assms s1 obtain g2 s2 where s2: "dp_th_event d ev s1 = Some (g2, s2)" by (auto simp: dp_th_iter_def bind_Some_iff)
    have "ticks s2 t"
      using assms s1 s2 True gettimeofday_ticks[of s2] by (auto simp: dp_th_iter_def split: if_splits prod.splits)
    with dp_th_event_ticks[OF s2] show ?thesis by (rule ticks_trans)
  qed (use assms s1 in \<open>auto simp: dp_th_iter_def\<close>)
  with dp_th_probe_ticks[OF s1] show ?thesis by (rule ticks_trans)
qed

lemma dp_th_run_ticks: "dp_th_run d evs l s = Some (go, l', t) \<Longrightarrow> ticks s t"
  by (induction evs arbitrary: l s)
    (auto simp: bind_Some_iff split: if_splits dest!: dp_th_iter_ticks intro: ticks_trans)

section \<open>The time that is left\<close>

definition clock_ok :: "node \<Rightarrow> bool" where
  "clock_ok s \<longleftrightarrow> (\<forall>t\<in>set (n_clock s). tv_wf t) \<and> sorted (map tv_us (n_clock s))"

lemma clock_ok_ticks: "clock_ok s \<Longrightarrow> ticks s t \<Longrightarrow> clock_ok t"
  by (auto simp: clock_ok_def ticks_def suffix_def sorted_append)

lemma ticks_nonempty: "ticks s t \<Longrightarrow> n_clock t \<noteq> [] \<Longrightarrow> n_clock s \<noteq> []"
  by (auto simp: ticks_def suffix_def)

text \<open>\<open>t\<close> lies before all readings to come.\<close>

definition past :: "timeval \<Rightarrow> node \<Rightarrow> bool" where
  "past t s \<longleftrightarrow> tv_wf t \<and> (\<forall>u\<in>set (n_clock s). tv_us t \<le> tv_us u)"

lemma past_ticks: "past t s \<Longrightarrow> ticks s u \<Longrightarrow> past t u"
  by (auto simp: past_def ticks_def suffix_def)

lemma gettimeofday_past:
  assumes "clock_ok s" and "gettimeofday s = (now, t)" and "n_clock t \<noteq> []"
  shows "past now t" and "past u s \<Longrightarrow> tv_us u \<le> tv_us now"
  using assms by (auto simp: gettimeofday_def past_def clock_ok_def split: list.splits)

text \<open>The variables with which \<open>dp_th\<close> enters the loop, and what holds at the head of it.\<close>

definition loop_start :: dp_loop where
  "loop_start = \<lparr>wtime = tv_zero, before = tv_zero, after = tv_zero, probe_ct = 0\<rparr>"

definition loop_ok :: "dp_loop \<Rightarrow> node \<Rightarrow> bool" where
  "loop_ok l s \<longleftrightarrow> tv_wf (wtime l) \<and> tv_us (wtime l) \<le> 1000000 \<and> probe_ct l \<in> {0..10} \<and>
     (tv_us (wtime l) > 0 \<longrightarrow> past (after l) s)"

lemma tv_zero_us [simp]: "tv_us tv_zero = 0" "tv_wf tv_zero"
  by (simp_all add: tv_zero_def tv_us_def tv_wf_def)

lemma tv_ms_us: "tv_wf t \<Longrightarrow> tv_ms t = tv_us t div 1000"
  by (simp add: tv_ms_def tv_us_def)

lemma dp_th_probe_wait:
  assumes ok: "loop_ok l s" and res: "dp_th_probe d l s = Some (True, l', s')"
  shows "tv_wf (wtime l')" and "0 < tv_us (wtime l')" and "tv_us (wtime l') \<le> 1000000"
    and "probe_ct l' \<in> {0..10}"
    and "clock_ok s \<Longrightarrow> n_clock s' \<noteq> [] \<Longrightarrow> past (before l') s'"
proof -
  note D = ok[unfolded loop_ok_def]
  have gt: "timer_gt (wtime l) tv_zero \<longleftrightarrow> 0 < tv_us (wtime l)" using timer_gt_us[of "wtime l" tv_zero] D by simp
  have "tv_wf (wtime l') \<and> 0 < tv_us (wtime l') \<and> tv_us (wtime l') \<le> 1000000 \<and> probe_ct l' \<in> {0..10} \<and>
    (clock_ok s \<longrightarrow> n_clock s' \<noteq> [] \<longrightarrow> past (before l') s')"
  proof (cases "timer_gt (wtime l) tv_zero")
    case True
    with res gt D show ?thesis by (auto simp: dp_th_probe_def)
  next
    case False
    with res obtain ret s1 where s1: "dp_send_probe_req d s = Some (ret, s1)" by (auto simp: dp_th_probe_def bind_Some_iff)
    with res False obtain l1 s2 where s2: "(if probe_ct l mod DP_TIMEOUT_LINK_MULT = 0
        then do { (r, s) \<leftarrow> dpg_send_linkstate s1; Some (l\<lparr>probe_ct := 0\<rparr>, s) } else Some (l, s1)) = Some (l1, s2)"
      and rest: "(let (now, s) = gettimeofday s2 in
        Some (True, l1\<lparr>probe_ct := probe_ct l1 + 1, wtime := DP_TIMEOUT_PROBE, before := now\<rparr>, s)) = Some (True, l', s')"
      by (auto simp: dp_th_probe_def bind_Some_iff split: if_splits)
    have ct: "probe_ct l1 \<in> {0..9}"
      using s2 D by (auto simp: DP_TIMEOUT_LINK_MULT_def bind_Some_iff split: if_splits) presburger+
    have t2: "ticks s s2"
      using s2 dp_send_probe_req_ticks[OF s1] by (auto simp: bind_Some_iff split: if_splits dest!: ticking intro: ticks_trans)
    obtain now u where u: "gettimeofday s2 = (now, u)" by (rule prod.exhaust)
    with rest have l': "l' = l1\<lparr>probe_ct := probe_ct l1 + 1, wtime := DP_TIMEOUT_PROBE, before := now\<rparr>" "s' = u" by auto
    have "past (before l') s'" if "clock_ok s" "n_clock s' \<noteq> []"
      using gettimeofday_past(1)[OF clock_ok_ticks[OF that(1) t2] u] that(2) l' by simp
    then show ?thesis using ct l' by (auto simp: DP_TIMEOUT_PROBE_def tv_us_def tv_wf_def)
  qed
  then show "tv_wf (wtime l')" "0 < tv_us (wtime l')" "tv_us (wtime l') \<le> 1000000" "probe_ct l' \<in> {0..10}"
    "clock_ok s \<Longrightarrow> n_clock s' \<noteq> [] \<Longrightarrow> past (before l') s'" by blast+
qed

text \<open>One turn of the loop, and any number of them.\<close>

lemma dp_th_iter_ok:
  assumes cl: "clock_ok s" and ok: "loop_ok l s" and res: "dp_th_iter d ev l s = Some (True, l', s')"
    and ne: "n_clock s' \<noteq> []"
  shows "loop_ok l' s'"
proof -
  from res obtain l1 s1 s2 where s1: "dp_th_probe d l s = Some (True, l1, s1)" and s2: "dp_th_event d ev s1 = Some (True, s2)"
    by (auto simp: dp_th_iter_def bind_Some_iff split: if_splits)
  obtain now u where u: "gettimeofday s2 = (now, u)" by (rule prod.exhaust)
  with res s1 s2 have l': "l' = l1\<lparr>after := now, wtime := timersub (wtime l1) (timersub now (before l1))\<rparr>" "s' = u"
    by (auto simp: dp_th_iter_def)
  note w = dp_th_probe_wait[OF ok s1]
  have t2: "ticks s1 s2" by (rule dp_th_event_ticks[OF s2])
  note t1 = dp_th_probe_ticks[OF s1] and t3 = gettimeofday_ticks[OF u]
  have cl2: "clock_ok s2" by (rule clock_ok_ticks[OF cl ticks_trans[OF t1 t2]])
  have "n_clock s1 \<noteq> []" using ne l' ticks_nonempty[OF ticks_trans[OF t2 t3]] by simp
  then have b: "past (before l1) s2" using past_ticks[OF w(5)[OF cl] t2] by simp
  note p = gettimeofday_past[OF cl2 u ne[unfolded l'(2)]]
  have "tv_wf (wtime l')" using w(1) b p(1) l' by (auto simp: past_def intro!: timersub_wf)
  moreover have "tv_us (wtime l') \<le> 1000000" using w(3) p(2)[OF b] l' by (simp add: timersub_us)
  ultimately show "loop_ok l' s'" using w(4) p(1) l' by (simp add: loop_ok_def)
qed

lemma dp_th_run_ok:
  assumes "clock_ok s" and "loop_ok l s" and "dp_th_run d evs l s = Some (True, l', s')" and "n_clock s' \<noteq> []"
  shows "loop_ok l' s'"
  using assms
proof (induction evs arbitrary: l s)
  case (Cons ev evs)
  then obtain l1 s1 where s1: "dp_th_iter d ev l s = Some (True, l1, s1)" and r: "dp_th_run d evs l1 s1 = Some (True, l', s')"
    by (auto simp: bind_Some_iff split: if_splits)
  have t: "ticks s s1" by (rule dp_th_iter_ticks[OF s1])
  have "n_clock s1 \<noteq> []" by (rule ticks_nonempty[OF dp_th_run_ticks[OF r] Cons.prems(4)])
  with dp_th_iter_ok[OF Cons.prems(1,2) s1] have "loop_ok l1 s1" by simp
  then show ?case by (rule Cons.IH[OF clock_ok_ticks[OF Cons.prems(1) t] _ r Cons.prems(4)])
qed simp

end
