(* ===== verification/Node_Samples.thy ===== *)
theory Node_Samples
  imports Samples Peer_Clock
begin

text \<open>
  A process on which the witnesses run the threads: the node with one direct peer, 0, and a second
  connection, 1, that has not joined yet.  The arguments are the bytes that have arrived on both.
\<close>

definition idle :: "u8 list \<Rightarrow> peer" where
  "idle bs = \<lparr>con_fd = Some \<lparr>rx = bs, rx_broken = False, tx = [], tx_answers = [Some 3]\<rparr>, wlock = False,
     probe_seq = 7, probe_send_time = at_sec 10, rtt_tv = at_sec 0, rtt_us = 0\<rparr>"

definition line :: "u8 list \<Rightarrow> conn" where
  "line bs = \<lparr>rx = bs, rx_broken = False, tx = [], tx_answers = [Some 3]\<rparr>"

definition node2 :: "u8 list \<Rightarrow> u8 list \<Rightarrow> node" where
  "node2 a b = \<lparr>n_rd = net2, n_dpg = pair_group, n_vnet = \<lparr>v_fd = - 1, v_ifname = [], v_wlock = False, v_mac = mac_no 8\<rparr>,
     n_pc = tried, n_peers = Map.empty(0 \<mapsto> idle a, 1 \<mapsto> idle b), n_next = 2, n_threads = [],
     n_clock = [at_sec 11, at_sec 12], n_rand = [], n_spawns = [], n_fresh = (\<lambda>_. idle [])\<rparr>"

lemma idle_sel [simp]: "con_fd (idle bs) = Some (line bs)" "wlock (idle bs) = False" "probe_seq (idle bs) = 7"
  "probe_send_time (idle bs) = at_sec 10"
  by (simp_all add: idle_def line_def)

lemma line_sel [simp]: "rx (line bs) = bs" "tx (line bs) = []" "no_errors (line bs)"
  by (simp_all add: line_def no_errors_def)

lemma node2_sel [simp]: "n_rd (node2 a b) = net2" "n_dpg (node2 a b) = pair_group" "n_pc (node2 a b) = tried"
  "n_peers (node2 a b) 0 = Some (idle a)" "n_peers (node2 a b) (Suc 0) = Some (idle b)"
  "n_clock (node2 a b) = [at_sec 11, at_sec 12]" "v_mac (n_vnet (node2 a b)) = mac_no 8" "n_next (node2 a b) = 2"
  by (simp_all add: node2_def)

lemma net2_points: "points_to net2 d \<longleftrightarrow> d = 0"
  by (auto simp: points_to_def net2_def da_list_def)

lemma net2_ok: "rd_ok net2"
proof -
  have "anchored net2" by (auto simp: anchored_def net2_def one_link_def da_list_def split: if_splits)
  with net2_wf net2_edges show ?thesis by (simp add: rd_ok_def net2_sel)
qed

lemma node2_macs: "dp_mac (node2 a b) = pair_macs"
  by (auto simp: fun_eq_iff dp_mac_def dp_host_def pair_macs_def net2_def sample_ips_def host_no_def)

lemma node2_wf: "node_wf {0} {0} (node2 a b)"
proof -
  have blocks: "dp_blocks net2 d \<noteq> None \<longleftrightarrow> d = 0 \<or> d = 1" for d
    by (simp add: dp_blocks_def net2_def sample_ips_def)
  have dom: "dom (n_peers (node2 a b)) = {0, 1}" by (auto simp: node2_def)
  have free: "\<not> wlock dp" if "n_peers (node2 a b) d = Some dp" for d dp
    using that by (auto simp: node2_def split: if_splits)
  have next_free: "n_peers (node2 a b) d = None" if "2 \<le> d" for d using that by (simp add: node2_def)
  have dpg: "dpg_wf (dp_mac (node2 a b)) pair_group" unfolding node2_macs by (rule pair_group_wf)
  show ?thesis unfolding node_wf_def node2_sel
    using net2_ok dpg tried_wf blocks dom free next_free net2_points by (auto simp: pair_group_peers)
qed

text \<open>A process before \<open>main\<close> has set up anything.\<close>

definition newborn :: node where
  "newborn = (node2 [] [])\<lparr>n_rd := blank\<lparr>ipheap := Map.empty\<rparr>, n_peers := Map.empty, n_next := 0\<rparr>"

definition plain_setup :: setup_answer where
  "plain_setup = \<lparr>sa_tun = - 1, sa_setif = 0, sa_hw = None, sa_random = (\<lambda>_. 8), sa_resolve = Some (ip_in (host_no 8))\<rparr>"

text \<open>The options of a process that is given a peer, and a second machine with another made-up address.\<close>

definition joining :: options where
  "joining = default_options\<lparr>peer_host := Some ''node6''\<rparr>"

definition other_setup :: setup_answer where
  "other_setup = plain_setup\<lparr>sa_random := (\<lambda>_. 6)\<rparr>"

definition setup_mac :: "options \<Rightarrow> setup_answer \<Rightarrow> ether_addr option" where
  "setup_mac os sa = (case main_setup os sa newborn of Some (Inr s) \<Rightarrow> Some (v_mac (n_vnet s)) | _ \<Rightarrow> None)"

lemma setup_macs: "setup_mac joining plain_setup = Some (Ether_Addr 8 8 8 8 8 8)"
  "setup_mac default_options other_setup = Some (Ether_Addr 6 6 6 6 6 6)"
  by code_simp+

text \<open>A run of the loop of a connected peer: the clock goes on and nothing arrives.\<close>

definition ticking :: node where
  "ticking = (node2 [] [])\<lparr>n_clock := map at_sec [11, 12, 13, 14, 15, 16]\<rparr>"

lemma ticking_run:
  "\<exists>l s' l' s''. dp_th_run 0 [EP_Timeout] loop_start ticking = Some (True, l, s') \<and>
     dp_th_probe 0 l s' = Some (True, l', s'') \<and> n_clock s' \<noteq> []"
proof -
  have "(case dp_th_run 0 [EP_Timeout] loop_start ticking of
      Some (True, l, s') \<Rightarrow> n_clock s' \<noteq> [] \<and> map_option fst (dp_th_probe 0 l s') = Some True | _ \<Rightarrow> False)" by code_simp
  then show ?thesis by (auto split: option.splits bool.splits)
qed

lemma ticking_clock: "clock_ok ticking"
  by (simp add: clock_ok_def ticking_def at_sec_def tv_wf_def tv_us_def)

lemma newborn_fresh: "fresh_process newborn"
  by (simp add: newborn_def fresh_process_def blank_def)

text \<open>The packets with which the host 4 joins and with which it answers when it is joined.\<close>

definition join4 :: "u8 list" where
  "join4 = packet PT_JOIN_PART (of_nat PL_JOIN) (host_bytes \<lparr>p_ip = 1, p_port = 9000, p_mac = mac_no 4\<rparr>)"

definition hello4 :: "u8 list" where
  "hello4 = packet PT_LINK_GRAPH 14 (link_payload (host_no 4) [])"

definition state4 :: "u8 list" where
  "state4 = packet PT_LINK_GRAPH 50 (link_payload (host_no 4) report)"

text \<open>A frame from the host 4 to the host 2, and the packet that carries it; and one for the host 6.\<close>

definition eth2 :: "u8 list" where
  "eth2 = mac_bytes (mac_no 2) @ mac_bytes (mac_no 4) @ [8, 0, 69]"

definition frame2 :: "u8 list" where
  "frame2 = packet PT_DATA (of_nat (length eth2)) eth2"

definition eth6 :: "u8 list" where
  "eth6 = mac_bytes (mac_no 6) @ mac_bytes (mac_no 4) @ [8, 0, 69]"

definition frame6 :: "u8 list" where
  "frame6 = packet PT_DATA (of_nat (length eth6)) eth6"

lemma eth_facts: "frame_dst eth2 = mac_no 2" "length eth2 = 15" "frame_dst eth6 = mac_no 6" "length eth6 = 15"
  by code_simp+

lemma net2_macs: "\<forall>p\<in>set (host_list net2). host_mac net2 p \<noteq> Some (mac_no 6)"
  by (simp add: net2_sel(3)) (simp add: host_mac_def sample_defs)

lemma net2_unknown4: "unknown (mac_no 4) net2"
  unfolding unknown_def net2_sel(3) by (simp add: host_mac_def sample_defs)

lemma net2_room: "has_room net2"
proof -
  have "few_links net2" by (auto simp: few_links_def sample_defs da_list_def)
  then show ?thesis by (simp add: has_room_def net2_def)
qed

definition net4 :: net_answer where
  "net4 = \<lparr>na_ai = Some (ip_in (host_no 4), 16), na_sock = True, na_conn = Some (line hello4)\<rparr>"

text \<open>The host announced as 4 answers as host 9; and the thread up to where it reads that answer.\<close>

definition hello9 :: "u8 list" where
  "hello9 = packet PT_LINK_GRAPH 14 (link_payload (host_no 9) [])"

definition net9 :: net_answer where
  "net9 = net4\<lparr>na_conn := Some (line hello9)\<rparr>"

definition linked_before_answer :: "u8 list \<Rightarrow> node option" where
  "linked_before_answer bs = do {
     s \<leftarrow> set_con 1 (line bs) (node2 [] []);
     (r, s) \<leftarrow> dp_send_join 1 s;
     (r, s) \<leftarrow> with_peer 1 dp_recv_header s;
     (r, s) \<leftarrow> dp_first_link 1 s;
     Some s
   }"

definition table_macs :: "node \<Rightarrow> ether_addr option list" where
  "table_macs s = map (host_mac (n_rd s)) (host_list (n_rd s))"

lemma hello9_run:
  "\<exists>t u. linked_before_answer hello9 = Some t \<and> table_macs t = map Some [mac_no 2, mac_no 4, mac_no 8] \<and>
    populate_mac 1 (drop PL_HEADER hello9) t = Some u \<and> table_macs u = map Some [mac_no 2, mac_no 9, mac_no 8] \<and>
    find_host_by_addr (n_rd u) (mac_no 8) = Some None \<and> trim_disjoint_hosts (n_rd u) = None"
proof -
  have "(case linked_before_answer hello9 of Some t \<Rightarrow> table_macs t = map Some [mac_no 2, mac_no 4, mac_no 8] \<and>
      (case populate_mac 1 (drop PL_HEADER hello9) t of Some u \<Rightarrow>
         table_macs u = map Some [mac_no 2, mac_no 9, mac_no 8] \<and> find_host_by_addr (n_rd u) (mac_no 8) = Some None \<and>
         map_option fst (trim_disjoint_hosts (n_rd u)) = None
       | None \<Rightarrow> False) | None \<Rightarrow> False)" by code_simp
  then show ?thesis by (auto split: option.splits)
qed

lemma hello9_undefined: "dp_th_linkstate 1 net9 (node2 [] []) = None"
proof -
  have "map_option fst (dp_th_linkstate 1 net9 (node2 [] [])) = None" by code_simp
  then show ?thesis by simp
qed

text \<open>Runs of the threads.\<close>

lemma incoming_run: "\<exists>s'. dp_th_incoming 1 (node2 [] join4) = Some (True, s')"
proof -
  have "map_option fst (dp_th_incoming 1 (node2 [] join4)) = Some True" by code_simp
  then show ?thesis by auto
qed

lemma incoming_refused: "\<exists>s'. dp_th_incoming 1 (node2 [] hello4) = Some (False, s')"
proof -
  have "map_option fst (dp_th_incoming 1 (node2 [] hello4)) = Some False" by code_simp
  then show ?thesis by auto
qed

lemma initial_run: "\<exists>s'. dp_th_initial 1 net4 (node2 [] []) = Some (True, s')"
proof -
  have "map_option fst (dp_th_initial 1 net4 (node2 [] [])) = Some True" by code_simp
  then show ?thesis by auto
qed

lemma linkstate_run: "\<exists>s'. dp_th_linkstate 1 net4 (node2 [] []) = Some (True, s')"
proof -
  have "map_option fst (dp_th_linkstate 1 net4 (node2 [] [])) = Some True" by code_simp
  then show ?thesis by auto
qed

lemma ending_run: "\<exists>s'. dp_th 0 True [EP_Timeout, EP_Other] (node2 [] []) = Some (False, s')"
proof -
  have "map_option fst (dp_th 0 True [EP_Timeout, EP_Other] (node2 [] [])) = Some False" by code_simp
  then show ?thesis by auto
qed

lemma probe_run: "\<exists>s'. dp_handle_probe_resp 0 (node2 (le_bytes 2 (7::u16)) []) = Some (0, s')"
proof -
  have "map_option fst (dp_handle_probe_resp 0 (node2 (le_bytes 2 (7::u16)) [])) = Some 0" by code_simp
  then show ?thesis by auto
qed

end
