(* ===== verification/Diagnostics.thy ===== *)
theory Diagnostics
  imports Routing_Edges
begin

text \<open>
  What the program writes to stderr, src/debug.c, src/debug.h and \<open>print_matrix\<close> of src/routing.c:
  addresses, messages with the text of \<open>errno\<close>, and the matrices.  The stream is the text written so
  far; the texts of the C library's error numbers are an argument, and so is a message after
  formatting.
\<close>

section \<open>Numbers and addresses\<close>

definition h_char :: string where "h_char = ''0123456789abcdef''"

fun mac_byte :: "ether_addr \<Rightarrow> nat \<Rightarrow> u8" where
  "mac_byte m i = mac_bytes m ! i"

definition mac_address_print :: "ether_addr \<Rightarrow> string" where
  "mac_address_print mac = concat (map (\<lambda>i.
     [h_char ! unat (and (drop_bit 4 (mac_byte mac i)) 0xF), h_char ! unat (and 0xF (mac_byte mac i))] @
     (if i + 1 \<noteq> ETH_ALEN then '':'' else [])) [0..<ETH_ALEN])"

text \<open>\<open>%zu\<close> and \<open>%u\<close>, and the field width of \<open>%9zu\<close>\<close>

fun dec :: "nat \<Rightarrow> string" where
  "dec n = (if n < 10 then [h_char ! n] else dec (n div 10) @ [h_char ! (n mod 10)])"

declare dec.simps [simp del]

definition pad :: "nat \<Rightarrow> string \<Rightarrow> string" where
  "pad w t = replicate (w - length t) CHR '' '' @ t"

definition newline :: string where "newline = [CHR 0x0A]"

section \<open>Messages\<close>

record diag =
  errno :: int
  err_out :: string

text \<open>The first component is the status the process exits with, if it does.\<close>

definition error_at_line ::
  "(int \<Rightarrow> string) \<Rightarrow> int \<Rightarrow> int \<Rightarrow> string \<Rightarrow> nat \<Rightarrow> string \<Rightarrow> string \<Rightarrow> int option \<times> string" where
  "error_at_line strerror status errnum filename linenum msg out =
     (let out = out @ filename @ '':'' @ dec linenum @ '' : '';
          out = (if errnum \<noteq> 0 then out @ strerror errnum @ '' : '' else out);
          out = out @ msg @ newline
      in (if status \<noteq> 0 then Some status else None, out))"

definition WARN :: "(int \<Rightarrow> string) \<Rightarrow> string \<Rightarrow> nat \<Rightarrow> string \<Rightarrow> diag \<Rightarrow> int option \<times> diag" where
  "WARN strerror filename linenum msg d =
     (let (ended, out) = error_at_line strerror 0 (errno d) filename linenum msg (err_out d)
      in (ended, d\<lparr>err_out := out, errno := 0\<rparr>))"

definition DIE :: "(int \<Rightarrow> string) \<Rightarrow> string \<Rightarrow> nat \<Rightarrow> string \<Rightarrow> diag \<Rightarrow> int option \<times> diag" where
  "DIE strerror filename linenum msg d =
     (let (ended, out) = error_at_line strerror 1 (errno d) filename linenum msg (err_out d)
      in (ended, d\<lparr>err_out := out, errno := 0\<rparr>))"

definition fputs :: "string \<Rightarrow> diag \<Rightarrow> diag" where
  "fputs t d = d\<lparr>err_out := err_out d @ t\<rparr>"

text \<open>The address is that of the peer; \<open>H_WARN\<close> does the same with the address of a host.\<close>

definition DP_WARN :: "(int \<Rightarrow> string) \<Rightarrow> string \<Rightarrow> nat \<Rightarrow> ether_addr \<Rightarrow> string \<Rightarrow> diag \<Rightarrow> int option \<times> diag" where
  "DP_WARN strerror filename linenum mac msg d =
     WARN strerror filename linenum msg (fputs '' : '' (fputs (mac_address_print mac) d))"

definition EDGE_WARN ::
  "(int \<Rightarrow> string) \<Rightarrow> string \<Rightarrow> nat \<Rightarrow> nat \<Rightarrow> ether_addr \<Rightarrow> ether_addr \<Rightarrow> string \<Rightarrow> diag \<Rightarrow> int option \<times> diag" where
  "EDGE_WARN strerror filename linenum i src dst msg d =
     (let d = fputs (pad 2 (dec i) @ ''+ '') d;
          d = fputs (mac_address_print src) d;
          d = fputs '' -> '' d;
          d = fputs (mac_address_print dst) d;
          d = fputs '' : '' d
      in WARN strerror filename linenum msg d)"

text \<open>\<open>DEBUG\<close>, \<open>DP_DEBUG\<close>, \<open>H_DEBUG\<close> and \<open>EDGE_DEBUG\<close>: the message in the argument if \<open>debug\<close> is set\<close>

definition DEBUG :: "int \<Rightarrow> (diag \<Rightarrow> int option \<times> diag) \<Rightarrow> diag \<Rightarrow> int option \<times> diag" where
  "DEBUG verbose warn d = (if verbose \<noteq> 0 then warn d else (None, d))"

section \<open>\<open>print_matrix\<close>\<close>

fun print_cells :: "(nat \<Rightarrow> string option) \<Rightarrow> nat list \<Rightarrow> string option" where
  "print_cells cell [] = Some []"
| "print_cells cell (j # js) = do { t \<leftarrow> cell j; ts \<leftarrow> print_cells cell js; Some (t @ ts) }"

definition print_row :: "nat \<Rightarrow> (nat \<Rightarrow> string option) \<Rightarrow> nat \<Rightarrow> string option" where
  "print_row n cell i = do {
     ts \<leftarrow> print_cells cell [0..<n];
     Some (pad 6 (dec i) @ '' | '' @ ts @ newline)
   }"

definition path_cell :: "routing \<Rightarrow> nat \<Rightarrow> nat \<Rightarrow> string option" where
  "path_cell rd i j = map_option (\<lambda>x. pad 9 (dec (unat x))) (path_at rd j i)"

text \<open>The test looks at \<open>next[j][i]\<close>, the number printed is \<open>next[i][j]\<close>.\<close>

definition next_cell :: "routing \<Rightarrow> nat \<Rightarrow> nat \<Rightarrow> string option" where
  "next_cell rd i j = do {
     x \<leftarrow> next_at rd j i;
     if x = SIZE_MAX then Some (pad 9 ''x'')
     else map_option (\<lambda>y. pad 9 (dec y)) (next_at rd i j)
   }"

definition print_matrix :: "routing \<Rightarrow> string option" where
  "print_matrix rd = do {
     let n = m_ct rd;
     let first = pad 6 (dec n) @ '' | '' @ concat (map (\<lambda>i. pad 9 (dec i)) [0..<n]) @ newline;
     let rule = replicate (9 * (n + 1)) CHR ''-'' @ newline;
     paths \<leftarrow> print_cells (\<lambda>i. print_row n (path_cell rd i) i) [0..<n];
     nexts \<leftarrow> print_cells (\<lambda>i. print_row n (next_cell rd i) i) [0..<n];
     Some (first @ rule @ paths @ rule @ nexts)
   }"

section \<open>Reading an address back\<close>

text \<open>The value of a hexadecimal digit by its ASCII code, and a reader for digit pairs with colons.\<close>

definition hex_value :: "char \<Rightarrow> nat option" where
  "hex_value c =
     (let n = of_char c :: nat
      in if 48 \<le> n \<and> n \<le> 57 then Some (n - 48) else if 97 \<le> n \<and> n \<le> 102 then Some (n - 87) else None)"

fun read_hex :: "string \<Rightarrow> u8 list option" where
  "read_hex [a, b] = do { x \<leftarrow> hex_value a; y \<leftarrow> hex_value b; Some [of_nat (16 * x + y)] }"
| "read_hex (a # b # c # t) = do {
     x \<leftarrow> hex_value a; y \<leftarrow> hex_value b;
     if c = CHR '':'' then do { bs \<leftarrow> read_hex t; Some (of_nat (16 * x + y) # bs) } else None
   }"
| "read_hex _ = None"

lemma hex_value_h_char: "k < 16 \<Longrightarrow> hex_value (h_char ! k) = Some k"
proof -
  have "\<forall>k\<in>{0..<16}. hex_value (h_char ! k) = Some k" by code_simp
  then show "k < 16 \<Longrightarrow> hex_value (h_char ! k) = Some k" by simp
qed

lemma byte_range: "unat (b :: u8) < 256"
proof -
  have "unat b < 2 ^ LENGTH(8)" by (rule unsigned_less)
  then show ?thesis by simp
qed

lemma nibbles:
  fixes b :: u8
  shows "unat (and (drop_bit 4 b) 0xF) = unat b div 16" and "unat (and 0xF b) = unat b mod 16"
proof -
  have mask: "(0xF :: u8) = mask 4" by (simp add: mask_eq_exp_minus_1)
  have "unat b < 256" by (rule byte_range)
  then show "unat (and (drop_bit 4 b) 0xF) = unat b div 16"
    by (simp add: mask take_bit_eq_mask[symmetric] unsigned_take_bit_eq unsigned_drop_bit_eq) (simp add: take_bit_eq_mod drop_bit_eq_div)
  show "unat (and 0xF b) = unat b mod 16"
    by (simp add: mask and.commute take_bit_eq_mask[symmetric] unsigned_take_bit_eq) (simp add: take_bit_eq_mod)
qed

lemma hex_byte:
  fixes b :: u8
  shows "16 * of_nat (unat b div 16) + of_nat (unat b mod 16) = b"
proof -
  have "16 * of_nat (unat b div 16) + of_nat (unat b mod 16) = (of_nat (16 * (unat b div 16) + unat b mod 16) :: u8)"
    by (simp only: of_nat_add of_nat_mult of_nat_numeral)
  also have "16 * (unat b div 16) + unat b mod 16 = unat b" by (rule mult_div_mod_eq)
  also have "of_nat (unat b) = b" by simp
  finally show ?thesis .
qed

lemma read_hex_print: "read_hex (mac_address_print m) = Some (mac_bytes m)"
proof -
  have d: "unat b div 16 < 16" for b :: u8 using byte_range[of b] by simp
  show ?thesis
    by (cases m) (simp add: mac_address_print_def ETH_ALEN_def upt_rec nibbles hex_value_h_char d hex_byte)
qed

lemma length_mac_address_print: "length (mac_address_print m) = 17"
  by (simp add: mac_address_print_def ETH_ALEN_def upt_rec)

section \<open>What the messages do\<close>

text \<open>A row and a matrix are printed without a read outside the matrices.\<close>

lemma print_cells_total: "\<forall>j\<in>set js. cell j \<noteq> None \<Longrightarrow> print_cells cell js \<noteq> None"
  by (induction js) auto

lemma print_matrix_total:
  assumes wf: "rt_wf s" and cur: "paths_current s"
  shows "print_matrix s \<noteq> None"
proof -
  have n: "m_ct s = length (host_list s)" by (rule paths_currentE[OF wf cur])
  have at: "path_at s i j \<noteq> None" "next_at s i j \<noteq> None" if "i < m_ct s" "j < m_ct s" for i j
    by (rule path_at_current[OF wf cur that[unfolded n]], simp)+
  have cell: "path_cell s i j \<noteq> None" "next_cell s i j \<noteq> None" if "i < m_ct s" "j < m_ct s" for i j
    using at(1)[of j i] at(2)[of j i] at(2)[of i j] that by (auto simp: path_cell_def next_cell_def)
  have "print_cells (path_cell s i) [0..<m_ct s] \<noteq> None" "print_cells (next_cell s i) [0..<m_ct s] \<noteq> None"
    if "i < m_ct s" for i
    by (rule print_cells_total; simp add: cell that)+
  then have row: "print_row (m_ct s) (path_cell s i) i \<noteq> None" "print_row (m_ct s) (next_cell s i) i \<noteq> None"
    if "i < m_ct s" for i using that by (fastforce simp: print_row_def)+
  have "print_cells (\<lambda>i. print_row (m_ct s) (path_cell s i) i) [0..<m_ct s] \<noteq> None"
    "print_cells (\<lambda>i. print_row (m_ct s) (next_cell s i) i) [0..<m_ct s] \<noteq> None"
    by (rule print_cells_total, simp add: row)+
  then show ?thesis by (auto simp: print_matrix_def Let_def)
qed

text \<open>The call at the end of \<open>update_cache\<close> is therefore defined.\<close>

lemma update_cache_prints:
  assumes "rt_wf s" and "da_wf (edges s)" and "update_cache s = Some (0, s')"
  shows "print_matrix s' \<noteq> None"
  using update_cache_ok(1,2)[OF assms] by (rule print_matrix_total)

end
