(* ===== verification/Spec2Isabelle.thy ===== *)
theory Spec2Isabelle
  imports Node_Samples Diagnostics
begin

text \<open>
  L2O3 is a node of a peer-to-peer virtual network: it reads Ethernet frames from a tap device and
  forwards them over TCP connections to its direct peers, which exchange link state so that every
  node knows the whole network.  This development models the program and proves what it does.

  Parts of the program and the theories that model them.

  \<^item> \<open>P2P_Prelude\<close>: machine integers, the option monad and loops over it, the allocator,
    \<open>memcmp\<close>, Ethernet addresses (src/util.h).
  \<^item> \<open>Darray\<close>: the dynamic arrays of src/darray.h; the locale \<open>list_array\<close> is their contract.
  \<^item> \<open>Search\<close>: the binary search of src/stdparam.h and \<open>qsort\<close>; the locale \<open>key_order\<close> is what a
    comparison function promises, and tables sorted by a key are treated once inside it.
  \<^item> \<open>Packet\<close>: the wire formats of src/peer_proto.h, their byte images, byte order and
    src/pkt.c, and time values.
  \<^item> \<open>Routing_State\<close>, \<open>Routing_Inv\<close>: \<open>routing_t\<close> with the memory its pointers lead to, the
    operations on single hosts and links, and the invariant \<open>rt_wf\<close> that they keep.
  \<^item> \<open>Routing_Paths\<close>: \<open>compute_paths\<close>, that is the adjacency matrix and the triple loop.
  \<^item> \<open>Routing_Cache\<close>: \<open>trim_disjoint_hosts\<close>, \<open>update_exported_edges\<close>, \<open>update_cache\<close>.
  \<^item> \<open>Routing_Update\<close>, \<open>Routing_Edges\<close>: the operations that change the table under the write
    lock, \<open>rt_dhost_add_link\<close>, \<open>rt_update_edges\<close>, \<open>rt_dhost_remove\<close>.
  \<^item> \<open>Routing_Forward\<close>: \<open>rt_dhosts_to_host\<close>, which picks the peers a frame goes to.
  \<^item> \<open>Dpg\<close>: the group of direct peers (src/dpg.c), refining a finite map.
  \<^item> \<open>Pcon\<close>: the limiter of connection attempts (src/pcon.c).
  \<^item> \<open>Routing_Ptrs\<close>, \<open>Routing_Frame\<close>: what the operations on the table leave alone, and which peers
    the table points to after each of them.
  \<^item> \<open>Peer\<close>, \<open>Peer_Packets\<close>: the first half of src/dpeer.c and \<open>dpg_send_linkstate\<close> of src/dpg.c:
    the state \<open>node\<close> of the whole process, sending and receiving over a connection, probes, join,
    link state and data packets, creation and release of peers.
  \<^item> \<open>Peer_Threads\<close>: the threads of src/dpeer.c, with their clean-up labels, and the loop \<open>dp_th\<close>.
  \<^item> \<open>Peer_Clock\<close>: the timer of that loop under a clock that does not run backwards.
  \<^item> \<open>Diagnostics\<close>: what is written to stderr, that is src/debug.c, the macros of src/debug.h and
    \<open>print_matrix\<close> of src/routing.c, as text.
  \<^item> \<open>Vnet\<close>, \<open>Main_Prog\<close>: the tap device (src/vnet.c) and the main program (src/sock.c).
  \<^item> \<open>Node\<close>: the invariant \<open>node_wf G L\<close> of the process, with \<open>G\<close> the peers that may be in the group
    and \<open>L\<close> those the routing table may point to, and that every call keeps it.
  \<^item> \<open>Node_Steps\<close>: the process as a transition system, whose steps are the calls the threads make
    on shared data; \<open>Node_Threads\<close>: every thread, and \<open>main\<close>, is a sequence of such steps;
    \<open>Node_Exits\<close>: what a thread that gives up leaves of the group and of the local host's links.
  \<^item> \<open>Node_Traffic\<close>: what one node sends and another one makes of it; \<open>Node_Joining\<close>: a host that is
    not known yet always gets in; \<open>Node_Handshake\<close>: two processes of which one connects to the other.
  \<^item> \<open>Samples\<close>, \<open>Node_Samples\<close>: concrete nodes on which witnesses run the operations.
  \<^item> this theory: the properties that rest on them.

  How state and operations correspond to the code.  A struct is a record with the fields of the
  struct; a pointer to a host is an address in the heap \<open>hheap\<close>, a pointer to a
  \<open>struct ipv4_host\<close> names the block it lives in (\<open>ip_ptr\<close>), and reading a freed or unset block is
  \<open>None\<close>.  An operation takes the state and returns \<open>Some (ret, state)\<close> with the value the C
  function returns, or \<open>None\<close> for a run that does not return normally (undefined behaviour, a
  lock that is never free, an endless loop).  \<open>allocs\<close> lists the answers of the allocator,
  \<open>False\<close> for a failure; the empty list stands for memory that never runs out, which the invariant of
  the process assumes (\<open>allocs = []\<close> in \<open>node_wf\<close>).  \<open>qsort\<close> is modelled as a
  stable sort, one of the orders that the C standard allows for equal elements.  In the same way the
  process carries the readings of the clock, the results of \<open>rand\<close> and of \<open>pthread_create\<close>, and a
  connection the answers of \<open>send\<close>.  The name service, sockets, \<open>epoll_wait\<close>, \<open>accept\<close>, \<open>getopt\<close>
  and the tap device are arguments.

  Concurrency.  The functions on shared data hold the lock of that data from beginning to end, so a
  call is one step of \<open>node_step\<close> and an interleaving of threads is a sequence of steps.  The
  invariant is proved for all sequences; the threads' own functions, run alone, are shown to be
  such sequences.  In a configuration \<open>(s, G, L)\<close> a thread's place in its code is recorded in \<open>G\<close>
  and \<open>L\<close>.  \<open>dp_th_linkstate\<close> is covered as far as the peer answers under the address it was
  announced with (\<open>names_itself\<close>); otherwise it changes a key of the sorted table in place, of which
  a property below shows a run.  A \<open>send\<close> that fails in the first part of a packet releases the mutex
  twice and is \<open>None\<close>; one that fails in the second part, which only link state has, is reported.

  Loops are recursive functions over lists or with a measure; the one loop of the forwarding code
  whose end depends on the data (\<open>follow\<close>) is a \<open>partial_function\<close>, and that it returns is proved
  from the acyclicity of the next hops.  The endless loops of the threads run over the list of
  answers they get from the system, and their last value says whether the thread still runs.  No
  fuel is used.

  What the groups of properties show.  Routing table: every change keeps the invariant, only the
  node's own measurements change its links, stale link state is ignored, and a frame is only ever
  handed to a peer the table has a path through.  Group and limiter: they refine finite maps.
  Process: it comes up, every reachable state satisfies the invariant, a connection becomes a peer
  or is freed with the group and the local host's links as they were (with the exceptions that the
  properties name), the join request of an unknown host is granted, two processes of which one
  knows the other become each other's peers, a peer's thread never waits for more than a second, and
  a peer that ends is referred to by nothing.  Traffic: packets go out
  complete however the connection cuts them, and join, link state, probes and frames are understood
  by the receiver as the sender meant them.  A few properties state where the code falls short of
  its purpose, such as \<open>trimming_frees_the_wrong_host\<close>.

  Diagnostics.  Messages change nothing but stderr and \<open>errno\<close>, which no operation reads, so the
  operations leave their calls out; \<open>print_matrix\<close>, which \<open>update_cache\<close> calls at its end, reads the
  matrices, and \<open>update_cache_prints\<close> shows that all it reads is there.

  Not modelled: the text that \<open>usage\<close> prints; src/svect.h, unfinished macros that no file includes.
\<close>

section \<open>Changes of the routing table\<close>

text \<open>
  C1. A probe response or a new connection (\<open>rt_dhost_add_link\<close>): when it returns 0, the routing
  data satisfies its invariant, the matrices are those of the present table, the lock is free
  and the local host has a link to the peer with the measured time and the present time stamp.
\<close>

theorem rt_dhost_add_link_ok:
  assumes "rt_wf s" and "da_wf (edges s)" and "ipheap s d = Some ip" and "ptr_fits HT_DIRECT d"
    and "rt_dhost_add_link now s d rtt = Some (0, s')"
  shows "rt_wf s' \<and> paths_current s' \<and> lock s' = RW_Free \<and>
    local_link s' (ip_mac ip) rtt (word_of_int (tv_ms now))"
  by (rule rt_dhost_add_link_done[OF assms])

theorem rt_dhost_add_link_ok_witness:
  "\<exists>s'. rt_dhost_add_link (at_sec 100) net2 (IP_Dp 0) 1500 = Some (0, s') \<and> rt_wf s' \<and>
    local_link s' (mac_no 2) 1500 100000"
proof -
  obtain s' where s': "rt_dhost_add_link (at_sec 100) net2 (IP_Dp 0) 1500 = Some (0, s')"
    using net2_add by blast
  have fit: "ptr_fits HT_DIRECT (IP_Dp 0)" by simp
  from rt_dhost_add_link_ok[OF net2_wf net2_edges net2_sel(5) fit s'] s' show ?thesis
    by (simp add: host_no_def at_sec_def tv_ms_def)
qed

text \<open>
  C32. The other returns of \<open>rt_dhost_add_link\<close>: the local host's own address is refused with
  nothing changed, and every error but -5, the failure of \<open>update_cache\<close>, leaves the invariant.
\<close>

theorem rt_dhost_add_link_errors:
  assumes "rt_wf s" and "ipheap s d = Some ip" and "ptr_fits HT_DIRECT d"
    and "rt_dhost_add_link now s d rtt = Some (r, s')" and "da_wf (edges s)"
  shows "lock s' = RW_Free \<and> (r \<noteq> - 5 \<longrightarrow> rt_wf s') \<and> r \<in> {0, - 2, - 3, - 5} \<and>
    (\<forall>p. local_host s = Some p \<longrightarrow> host_mac s p = Some (ip_mac ip) \<longrightarrow> r = - 2 \<and> s' = s)"
proof -
  have free: "lock s = RW_Free" using rt_dhost_add_link_lock[OF assms(4)] by blast
  have own: "r = - 2 \<and> s' = s" if p: "local_host s = Some p" "host_mac s p = Some (ip_mac ip)" for p
  proof -
    obtain c q m where c: "c < length (host_list s)" "host_list s ! c = q" "local_host s = Some q"
      "host_mac s q = Some m" "find_host_by_addr s m = Some (Some c)"
      by (rule rt_wf_local_index[OF assms(1)])
    have "index_to_host s c = Some q" using index_to_host_list[OF rt_wf_da[OF assms(1)] c(1)] c(2) by simp
    with p c assms(2,4) free show ?thesis
      by (auto simp: rt_dhost_add_link_def wrlock_def unlock_ret_def unlock_def mac_cmp_eq)
  qed
  have "lock s' = RW_Free \<and> (r \<noteq> - 5 \<longrightarrow> rt_wf s') \<and> r \<in> {0, - 2, - 3, - 5}"
  proof (cases rule: rt_dhost_add_link_start[OF assms(1) free assms(2,3), of now rtt])
    case (3 s1)
    have es: "da_wf (edges s1)" using assms(5) 3(3) by simp
    have res: "do { (ret, t) \<leftarrow> update_cache s1; unlock_ret (if ret \<noteq> 0 then - 5 else 0) t } = Some (r, s')"
      using 3(1) assms(4) by simp
    from update_cache_unlock[OF 3(2) es 3(4) res] show ?thesis by auto
  qed (use assms free in auto)
  with own show ?thesis by blast
qed

theorem rt_dhost_add_link_errors_witness:
  "rt_dhost_add_link (at_sec 100) net2_own (IP_Dp 1) 5 = Some (- 2, net2_own)"
proof -
  obtain s' where s': "rt_dhost_add_link (at_sec 100) net2_own (IP_Dp 1) 5 = Some (- 2, s')"
    using net2_own_run by blast
  have "ipheap net2_own (IP_Dp 1) = Some (host_no 8)" "ptr_fits HT_DIRECT (IP_Dp 1)"
    "da_wf (edges net2_own)" "local_host net2_own = Some 0" "host_mac net2_own 0 = Some (ip_mac (host_no 8))"
    by (simp_all add: net2_own_def net2_def sample_ips_def da_wf_def no_items_def host_mac_def)
  with rt_dhost_add_link_errors[OF net2_own_wf _ _ s'] s' show ?thesis by auto
qed

text \<open>
  C2. A received link state (\<open>rt_update_edges\<close>): when it returns 0, the invariant holds, the
  matrices are current, and the links of the local host, which only its own measurements may
  change, are what they were.
\<close>

theorem rt_update_edges_ok:
  assumes "rt_wf s" and "da_wf (edges s)" and "rt_update_edges s es = Some (0, s')"
  shows "rt_wf s' \<and> paths_current s' \<and> lock s' = RW_Free \<and>
    (\<forall>mac rtt ts. local_link s' mac rtt ts = local_link s mac rtt ts)"
proof -
  have free: "lock s = RW_Free" using rt_update_edges_lock[OF assms(3)] by blast
  show ?thesis
  proof (cases rule: rt_update_edges_start[OF assms(1) free, of es])
    case (3 s1)
    have ed: "da_wf (edges s1)" using assms(2) 3(3) by (simp add: grows_def)
    have res: "do { (ret, t) \<leftarrow> update_cache s1; unlock_ret (if ret \<noteq> 0 then - 5 else 0) t } = Some (0, s')"
      using 3(1) assms(3) by simp
    from update_cache_unlock[OF 3(2) ed 3(4) res] local_link_keeps[OF 3(2), of s']
      local_link_grows[OF assms(1) 3(3)]
    show ?thesis by simp
  qed (use assms(3) in auto)
qed

theorem rt_update_edges_ok_witness:
  "\<exists>s'. rt_update_edges net2 report = Some (0, s') \<and> rt_wf s' \<and> local_link s' (mac_no 2) 1000 5"
proof -
  obtain s' where s': "rt_update_edges net2 report = Some (0, s')" using net2_update by blast
  from net2_link rt_update_edges_ok[OF net2_wf net2_edges s'] s' show ?thesis by blast
qed

text \<open>
  C19. A received link state is worked off to its end: with memory to spare the loop over the
  edges returns 0, whatever the edges, and leaves the invariant.
\<close>

theorem update_edges_loop_total:
  assumes "rt_wf s" and "allocs s = []"
  shows "\<exists>s'. update_edges_loop es no_ip_host None False s = Some (0, s') \<and> rt_wf s' \<and> grows s s'"
proof -
  have "settles s (update_edges_loop es no_ip_host None False s)"
    by (rule update_edges_loop_settles[OF assms(1)]) simp
  with assms(2) show ?thesis by (auto simp: settles_def split: option.splits)
qed

theorem update_edges_loop_total_witness:
  "\<exists>s'. update_edges_loop report no_ip_host None False net2 = Some (0, s') \<and> rt_wf s'"
  using update_edges_loop_total[OF net2_wf net2_sel(2)] by blast

text \<open>
  C8. Link state that is not newer than the newest link known of a source leaves that source
  and its links as they are.
\<close>

theorem stale_edges_ignored:
  assumes "rt_wf s" and "q \<in> set (host_list s)" and "hheap s q = Some h" and "host_mac s q = Some mac"
    and "stale es mac (h_l_max_ts_ms h)"
    and "update_edges_loop es no_ip_host None False s = Some (r, s')"
  shows "hheap s' q = Some h"
  by (rule update_edges_loop_stale[OF assms(1) _ assms(2-5) _ assms(6)]) simp_all

theorem stale_edges_ignored_witness:
  "(\<exists>s'. update_edges_loop report no_ip_host None False net2_seen = Some (0, s') \<and> hheap s' 1 = hheap net2_seen 1) \<and>
   (\<exists>s'. update_edges_loop report no_ip_host None False net2 = Some (0, s') \<and> hheap s' 1 \<noteq> hheap net2 1)"
proof
  from update_edges_loop_settles[OF net2_seen_wf, of None no_ip_host False report] net2_seen_sel(1) obtain s' where
    s': "update_edges_loop report no_ip_host None False net2_seen = Some (0, s')"
    by (auto simp: settles_def split: option.splits)
  have mem: "1 \<in> set (host_list net2_seen)" by (simp add: net2_seen_sel)
  from stale_edges_ignored[OF net2_seen_wf mem net2_seen_sel(4,3) _ s'] report_stale s'
  show "\<exists>s'. update_edges_loop report no_ip_host None False net2_seen = Some (0, s') \<and> hheap s' 1 = hheap net2_seen 1"
    unfolding net2_seen_sel(4) by simp
  have "\<forall>h. hheap net2 1 = Some h \<longrightarrow> h_l_max_ts_ms h \<noteq> 7" by (simp add: net2_def)
  with report_new show "\<exists>s'. update_edges_loop report no_ip_host None False net2 = Some (0, s') \<and> hheap s' 1 \<noteq> hheap net2 1"
    by metis
qed

text \<open>
  C17. The end of a connection (\<open>rt_dhost_remove\<close>): when it returns 0, the invariant holds, the
  matrices are current and the local host has no link to the peer any more.
\<close>

theorem rt_dhost_remove_ok:
  assumes "rt_wf s" and "da_wf (edges s)" and "rt_dhost_remove s dmac = Some (0, s')"
  shows "rt_wf s' \<and> paths_current s' \<and> lock s' = RW_Free \<and> (\<forall>rtt ts. \<not> local_link s' dmac rtt ts)"
proof -
  have free: "lock s = RW_Free" using rt_dhost_remove_lock[OF assms(3)] by blast
  show ?thesis
  proof (cases rule: rt_dhost_remove_start[OF assms(1) free, of dmac])
    case (3 s1)
    have ed: "da_wf (edges s1)" using assms(2) 3(3) by simp
    have res: "do { (ret, t) \<leftarrow> update_cache s1; unlock_ret (if ret \<noteq> 0 then - 2 else 0) t } = Some (0, s')"
      using 3(1) assms(3) by simp
    from update_cache_unlock[OF 3(2) ed 3(4) res] local_link_keeps[OF 3(2), of s'] 3(5)
    show ?thesis by simp
  qed (use assms(3) in auto)
qed

theorem rt_dhost_remove_ok_witness:
  "\<exists>s'. rt_dhost_remove net2 (mac_no 2) = Some (0, s') \<and> rt_wf s' \<and> \<not> local_link s' (mac_no 2) 1000 5"
proof -
  obtain s' where s': "rt_dhost_remove net2 (mac_no 2) = Some (0, s')" using net2_remove by blast
  from rt_dhost_remove_ok[OF net2_wf net2_edges s'] s' show ?thesis by blast
qed

text \<open>
  C33. Each writer takes the free lock and returns with it released, on every path that returns.
\<close>

theorem writers_release_the_lock:
  "(rt_lhost_add s a = Some (r, s') \<or> rt_dhost_add_link now s d rtt = Some (r, s') \<or>
    rt_update_edges s es = Some (r, s') \<or> rt_dhost_remove s dmac = Some (r, s')) \<Longrightarrow>
   lock s = RW_Free \<and> lock s' = RW_Free"
  using rt_lhost_add_lock rt_dhost_add_link_lock rt_update_edges_lock rt_dhost_remove_lock by blast

theorem writers_release_the_lock_witness:
  "\<exists>s'. rt_dhost_remove net2 (mac_no 2) = Some (0, s') \<and> lock s' = RW_Free"
proof -
  obtain s' where s': "rt_dhost_remove net2 (mac_no 2) = Some (0, s')" using net2_remove by blast
  with writers_release_the_lock[of net2 IP_Main 0 s' "at_sec 0" "IP_Dp 0" 0 "[]" "mac_no 2"] show ?thesis by blast
qed

section \<open>Forwarding\<close>

text \<open>
  C7. With current matrices and memory to spare, \<open>rt_dhosts_to_host\<close> returns for every source and
  every destination but the local host itself (in particular the loop that follows the next
  hops ends), and every address it hands out lies inside a peer, so that \<open>dp_from_ip_host\<close>,
  which its callers apply to it, is defined.
\<close>

theorem forwarding_reaches_peers_only:
  assumes "rt_wf s" and "paths_current s" and "allocs s = []" and "lock s \<noteq> RW_Write"
    and "length (host_list s) \<le> NEXT_DISCON" and "local_host s = Some p" and "host_mac s p \<noteq> Some dst"
  shows "\<exists>ret hs s'. rt_dhosts_to_host s src dst = Some (ret, hs, s') \<and> (\<forall>a\<in>set hs. \<exists>d. a = IP_Dp d)"
proof -
  obtain t where t: "rdlock s = Some t" using assms(4) by (cases "lock s") (auto simp: rdlock_def)
  obtain c where c: "c < length (host_list s)" "local_host s = Some (host_list s ! c)"
    and run: "rt_dhosts_to_host s src dst = (if ether_addr_is_mcast dst then mcast_hosts t c src else ucast_host t c dst)"
    and tw: "rt_wf t" "paths_current t" and eq: "hosts t = hosts s" "allocs t = allocs s" "local_host t = local_host s"
      "path_at t = path_at s" "find_host_by_addr t = find_host_by_addr s" "lock t \<noteq> RW_Free"
    by (rule rt_dhosts_to_host_start[OF assms(1,2) t]) blast
  note ct = c[folded eq(1) eq(3)] and small = assms(5)[folded eq(1)] and mem = assms(3)[folded eq(2)]
  have "host_mac t (host_list t ! c) \<noteq> Some dst"
    using assms(6,7) c(2) t by (auto simp: eq rdlock_def split: rwlock.splits)
  then show ?thesis
    using run mcast_hosts_answers[OF tw small mem eq(6) ct] ucast_host_answers[OF tw mem eq(6) ct] by simp
qed

theorem forwarding_reaches_peers_only_witness:
  "\<exists>ret hs s'. rt_dhosts_to_host net2 (mac_no 8) (mac_no 2) = Some (ret, hs, s') \<and>
    (\<forall>a\<in>set hs. \<exists>d. a = IP_Dp d)"
  by (rule forwarding_reaches_peers_only[OF net2_wf net2_current net2_sel(2) _ net2_small net2_sel(4)])
    (simp_all add: net2_sel net2_mac mac_no_def)

text \<open>
  C18. A frame for a host to which the local host has a link with a measured, nonzero round trip
  time is handed to exactly one peer.
\<close>

theorem linked_host_is_reached:
  assumes "rt_wf s" and "paths_current s" and "allocs s = []" and "lock s \<noteq> RW_Write"
    and "local_link s mac rtt ts" and "rtt \<noteq> 0" and "\<not> ether_addr_is_mcast mac"
  shows "\<exists>d s'. rt_dhosts_to_host s src mac = Some (0, [IP_Dp d], s')"
proof -
  obtain t where t: "rdlock s = Some t" using assms(4) by (cases "lock s") (auto simp: rdlock_def)
  obtain c where c: "c < length (host_list s)" "local_host s = Some (host_list s ! c)"
    and run: "rt_dhosts_to_host s src mac = ucast_host t c mac"
    and tw: "rt_wf t" "paths_current t" and eq: "hosts t = hosts s" "allocs t = allocs s" "local_host t = local_host s"
      "path_at t = path_at s" "find_host_by_addr t = find_host_by_addr s"
    by (rule rt_dhosts_to_host_start[OF assms(1,2) t]) (simp add: assms(7))
  obtain j where j: "find_host_by_addr s mac = Some (Some j)" "j < length (host_list s)" "j \<noteq> c"
    "path_at s c j \<noteq> Some 0"
    by (rule local_link_path[OF assms(1,2) c assms(5,6)])
  show ?thesis
    by (rule ucast_host_ok[OF tw assms(3)[folded eq(2)] c[folded eq(1) eq(3)] j(1)[folded eq(5)]
          j(2)[folded eq(1)] j(3)]) (use run j(4) eq in auto)
qed

theorem linked_host_is_reached_witness:
  "\<exists>d s'. rt_dhosts_to_host net2 (mac_no 8) (mac_no 2) = Some (0, [IP_Dp d], s')"
  using linked_host_is_reached[OF net2_wf net2_current net2_sel(2) _ net2_link]
  by (simp add: net2_sel mac_no_def)

text \<open>
  C28. A multicast frame is never handed back to the host it comes from: the peers it goes to are
  hosts of the table other than its source.
\<close>

theorem multicast_skips_its_source:
  assumes "rt_wf s" and "paths_current s" and "allocs s = []" and "length (host_list s) \<le> NEXT_DISCON"
    and "c < length (host_list s)" and "local_host s = Some (host_list s ! c)"
    and "find_host_by_addr s src = Some (Some i)" and "i < length (host_list s)" and "path_at s i c \<noteq> Some 0"
  shows "\<exists>js hs. mcast_hosts s c src = Some (0, hs, s) \<and> peers_of s js hs \<and> i \<notin> set js"
  by (rule mcast_hosts_ok[OF assms(1,2,4,3,5-9)]) blast

theorem multicast_skips_its_source_witness:
  "\<exists>js hs. mcast_hosts net3 2 (mac_no 2) = Some (0, hs, net3) \<and> peers_of net3 js hs \<and> 0 \<notin> set js"
proof -
  have "find_host_by_addr net3 (mac_no 2) = Some (Some 0)" "path_at net3 0 2 = Some 100" by code_simp+
  with multicast_skips_its_source[OF net3_wf net3_current net3_sel(1), of 2 "mac_no 2" 0] show ?thesis
    by (simp add: net3_sel NEXT_DISCON_def SIZE_MAX_def)
qed

text \<open>
  C39. A multicast frame of the local host itself is handed to nobody, however many peers there are:
  no path that starts at the local host leads through it.
\<close>

theorem own_multicast_goes_nowhere:
  assumes "rt_wf s" and "paths_current s" and "allocs s = []" and "lock s \<noteq> RW_Write"
    and "length (host_list s) \<le> NEXT_DISCON" and "local_host s = Some p" and "host_mac s p = Some src"
    and "ether_addr_is_mcast dst"
  shows "\<exists>s'. rt_dhosts_to_host s src dst = Some (0, [], s')"
proof -
  obtain t where t: "rdlock s = Some t" using assms(4) by (cases "lock s") (auto simp: rdlock_def)
  obtain c where c: "c < length (host_list s)" "local_host s = Some (host_list s ! c)"
    and run: "rt_dhosts_to_host s src dst = mcast_hosts t c src"
    and tw: "rt_wf t" "paths_current t" and eq: "hosts t = hosts s" "allocs t = allocs s"
      "path_at t = path_at s" "find_host_by_addr t = find_host_by_addr s"
    by (rule rt_dhosts_to_host_start[OF assms(1,2) t]) (simp add: assms(8))
  have src: "find_host_by_addr s src = Some (Some c)"
    by (rule find_host_by_addr_own[OF assms(1) c(1)]) (use assms(6,7) c(2) in simp)
  obtain pm nx where m: "mats s = M_Valid pm nx" "path_at s c c = Some (mget pm c c)"
    by (rule path_at_current[OF assms(1,2) c(1) c(1)])
  have "path_at s c c \<noteq> Some 0"
    by (rule path_entry[OF assms(1,2) m(1) c(1) c(1)]) (auto simp: m(2) PATH_MIN_def)
  with mcast_hosts_local[OF tw] assms(3,5) c src eq run show ?thesis by simp
qed

theorem own_multicast_goes_nowhere_witness:
  "\<exists>s'. rt_dhosts_to_host net2 (mac_no 8) (Ether_Addr 255 255 255 255 255 255) = Some (0, [], s')"
  by (rule own_multicast_goes_nowhere[OF net2_wf net2_current net2_sel(2) _ net2_small net2_sel(4)])
    (simp_all add: net2_sel net2_mac)

section \<open>Matrices and cached edges\<close>

text \<open>
  C29. \<open>update_cache\<close>, when it returns 0, has restored the invariant and made the matrices those of
  the present table; the lock is as it was, the local host and its links are unchanged, and every
  direct peer is still in the table with its address and its type.  (Links of direct peers to hosts
  that are trimmed go.)
\<close>

theorem update_cache_restores:
  assumes "rt_wf s" and "da_wf (edges s)" and "update_cache s = Some (0, s')"
  shows "rt_wf s' \<and> paths_current s' \<and> lock s' = lock s \<and> keeps_direct s s'"
  using update_cache_ok[OF assms] by simp

theorem update_cache_restores_witness:
  "\<exists>s'. update_cache net2 = Some (0, s') \<and> rt_wf s' \<and> paths_current s'"
proof -
  obtain s' where s': "update_cache net2 = Some (0, s')" using net2_cache by blast
  with update_cache_restores[OF net2_wf net2_edges s'] show ?thesis by blast
qed



text \<open>
  C36. Trimming frees the wrong host.  Let the matrices be current and let the table hold a host
  that is not a direct peer, with another one, its successor, after it.  Trimming the host takes it out of the
  table, but the block that is freed is the successor's, which stays in the table, while the host's
  own is lost; and where the successor is a direct peer or the local host, whose address is no block
  of the allocator, there is no defined result.  If all of \<open>trim_disjoint_hosts\<close> returns, the table
  points to a freed host, and \<open>update_cache\<close>, which reads the table next, has no defined result.
\<close>

theorem trimming_frees_the_wrong_host:
  assumes "rt_wf s" and "paths_current s" and "allocs s = []"
    and "i + 1 < length (host_list s)" and "is_normal s i" and "hheap s (host_list s ! (i + 1)) = Some g"
  shows "(if h_type g = HT_NORMAL
      then \<exists>s'. trim_host s i = Some s' \<and> host_list s' = take i (host_list s) @ drop (i + 1) (host_list s) \<and>
        hheap s' (host_list s ! (i + 1)) = None \<and> hheap s' (host_list s ! i) \<noteq> None
      else trim_host s i = None) \<and>
    (\<forall>r s'. trim_disjoint_hosts s = Some (r, s') \<longrightarrow>
      (\<exists>k q. k < da_ct (hosts s') \<and> index_to_host s' k = Some q \<and> hheap s' q = None)) \<and>
    update_cache s = None"
proof (intro conjI allI impI)
  from assms(5) obtain h where h: "hheap s (host_list s ! i) = Some h" "h_type h = HT_NORMAL" by (auto simp: is_normal_def)
  show "if h_type g = HT_NORMAL
      then \<exists>s'. trim_host s i = Some s' \<and> host_list s' = take i (host_list s) @ drop (i + 1) (host_list s) \<and>
        hheap s' (host_list s ! (i + 1)) = None \<and> hheap s' (host_list s ! i) \<noteq> None
      else trim_host s i = None"
    using trim_host_leaks[OF assms(1,4) h assms(6)] unfolding remove_nth_def Suc_eq_plus1 .
  show "\<exists>k q. k < da_ct (hosts s') \<and> index_to_host s' k = Some q \<and> hheap s' q = None"
    if "trim_disjoint_hosts s = Some (r, s')" for r s'
    using trim_disjoint_hosts_broken(2)[OF assms(1,2,4,5) that] by (simp add: broken_def)
  show "update_cache s = None" by (rule update_cache_frees_successor[OF assms(1-5)])
qed

theorem trimming_frees_the_wrong_host_witness:
  "(\<exists>s'. trim_host net3_gone 0 = Some s' \<and> host_list s' = [2, 0] \<and> hheap s' 2 = None) \<and> update_cache net3_gone = None"
  using trimming_frees_the_wrong_host[OF net3_gone_wf net3_gone_current net3_gone_sel(1), of 0] net3_gone_sel by auto

text \<open>
  C38. \<open>rd->edges\<close> is never emptied: each \<open>update_cache\<close> that returns 0 keeps all the edges of the
  calls before and appends new ones.  These are the links of the hosts of the table, each with the
  addresses of both ends, its time and its time stamp in network order; but of the host at position \<open>i\<close> only
  those links whose place \<open>j\<close> in the list of its links has an entry \<open>path[i][j]\<close> other than 0.
\<close>

theorem exported_edges_accumulate:
  assumes "rt_wf s" and "da_wf (edges s)" and "update_cache s = Some (0, s')"
  shows "\<exists>new. da_list (edges s') = da_list (edges s) @ new \<and>
    (\<forall>e. e \<in> set new \<longleftrightarrow> (\<exists>i j h src l d dst.
       i < length (host_list s') \<and> hheap s' (host_list s' ! i) = Some h \<and> ipheap s' (h_host h) = Some src \<and>
       j < length (links_of h) \<and> l = links_of h ! j \<and> hheap s' (l_dst l) = Some d \<and> ipheap s' (h_host d) = Some dst \<and>
       path_at s' i j \<noteq> Some 0 \<and>
       e = \<lparr>e_src = pkt_ipv4_pack src, e_dst = pkt_ipv4_pack dst, e_rtt_us = htonl (l_rtt_us l), e_ts_ms = htonll (l_ts_ms l)\<rparr>))"
proof (rule exI[of _ "exported s'"], rule conjI)
  note ok = update_cache_ok[OF assms]
  show "da_list (edges s') = da_list (edges s) @ exported s'" by (rule ok(4))
  have wf: "rt_wf s'" using ok by simp
  show "\<forall>e. e \<in> set (exported s') \<longleftrightarrow> (\<exists>i j h src l d dst.
       i < length (host_list s') \<and> hheap s' (host_list s' ! i) = Some h \<and> ipheap s' (h_host h) = Some src \<and>
       j < length (links_of h) \<and> l = links_of h ! j \<and> hheap s' (l_dst l) = Some d \<and> ipheap s' (h_host d) = Some dst \<and>
       path_at s' i j \<noteq> Some 0 \<and>
       e = \<lparr>e_src = pkt_ipv4_pack src, e_dst = pkt_ipv4_pack dst, e_rtt_us = htonl (l_rtt_us l), e_ts_ms = htonll (l_ts_ms l)\<rparr>)"
    unfolding set_exported[OF wf] exports_def by blast
qed

theorem exported_edges_accumulate_witness:
  "\<exists>s' e. update_cache net2 = Some (0, s') \<and> e \<in> set (da_list (edges s')) \<and> p_mac (e_src e) = mac_no 8 \<and>
    p_mac (e_dst e) = mac_no 2 \<and> e_rtt_us e = htonl 1000"
proof -
  obtain s' where s': "update_cache net2 = Some (0, s')" "host_list s' = [1, 0]" "path_at s' 1 0 \<noteq> Some 0"
    using net2_cache_paths by blast
  have kd: "keeps_direct net2 s'" by (rule update_cache_ok(6)[OF net2_wf net2_edges s'(1)])
  have mac: "host_mac net2 1 = Some (mac_no 2)" "host_mac net2 0 = Some (mac_no 8)" by (simp_all add: host_mac_def sample_defs)
  obtain h where h: "hheap s' 0 = Some h" "links_of h = [\<lparr>l_dst = 1, l_rtt_us = 1000, l_ts_ms = 5\<rparr>]"
    using kd by (auto simp: keeps_direct_def net2_sel) (auto simp: net2_def one_link_def da_list_def)
  have "host_mac s' 0 = Some (mac_no 8)" "host_mac s' 1 = Some (mac_no 2)"
    using kd mac by (auto simp: keeps_direct_def net2_sel) (auto simp: net2_def)
  then obtain src d dst where ip: "ipheap s' (h_host h) = Some src" "ip_mac src = mac_no 8"
    "hheap s' 1 = Some d" "ipheap s' (h_host d) = Some dst" "ip_mac dst = mac_no 2"
    using h(1) by (auto simp: host_mac_def bind_Some_iff)
  let ?e = "\<lparr>e_src = pkt_ipv4_pack src, e_dst = pkt_ipv4_pack dst, e_rtt_us = htonl 1000, e_ts_ms = htonll 5\<rparr>"
  from exported_edges_accumulate[OF net2_wf net2_edges s'(1)] obtain new where
    new: "da_list (edges s') = da_list (edges net2) @ new" "?e \<in> set new"
    using s'(2,3) h ip by fastforce
  then show ?thesis using s'(1) ip(2,5) by (intro exI[of _ s'] exI[of _ ?e]) (simp add: pkt_ipv4_pack_def)
qed

text \<open>
  C27. The matrices of \<open>compute_paths\<close> are sound: every entry is the weight of a route composed of
  links, and following the next hops towards a host never runs in a circle.
\<close>

theorem matrices_are_sound:
  assumes "rt_wf s" and "paths_current s" and "length (host_list s) \<le> NEXT_DISCON"
  shows "\<exists>p0 p nx. mats s = M_Valid p nx \<and> adjacency s = Some p0 \<and>
    (\<forall>i<length (host_list s). \<forall>j<length (host_list s).
       (mget p i j \<noteq> PATH_DISCON \<longrightarrow> routed (length (host_list s)) p0 i j (mget p i j)) \<and>
       acyclic (hop_rel (length (host_list s)) nx j))"
proof -
  let ?n = "length (host_list s)"
  have n: "da_ct (hosts s) = ?n" using rt_wf_da[OF assms(1)] by (simp add: length_da_list)
  from assms(2) obtain p0 p nx where p: "adjacency s = Some p0" "mats s = M_Valid p nx"
    "floyd_warshall ?n (p0, replicate ?n (replicate ?n NEXT_DISCON)) = (p, nx)"
    by (auto simp: paths_current_def n)
  from adjacency_correct[OF assms(1)] p(1) have dim: "mdim ?n p0" by auto
  have "fw_sound ?n p0 (p, nx)" using floyd_warshall_sound[OF dim assms(3)] p(3) by simp
  moreover have "fw_inv ?n p0 (p, nx)" using floyd_warshall_inv[OF fw_inv_init[OF dim]] p(3) by simp
  ultimately show ?thesis
    using p fw_invD(4)[of ?n p0 p nx] by (auto simp: fw_sound_def PATH_DISCON_def)
qed

theorem matrices_are_sound_witness:
  "\<exists>p0 p nx. mats net2 = M_Valid p nx \<and> adjacency net2 = Some p0 \<and> routed 2 p0 1 0 (mget p 1 0)"
proof -
  from matrices_are_sound[OF net2_wf net2_current net2_small] obtain p0 p nx where
    p: "mats net2 = M_Valid p nx" "adjacency net2 = Some p0"
    and r: "\<forall>i<length (host_list net2). \<forall>j<length (host_list net2).
       mget p i j \<noteq> PATH_DISCON \<longrightarrow> routed (length (host_list net2)) p0 i j (mget p i j)" by blast
  from p(1) have "mget p 1 0 \<noteq> PATH_DISCON" by (auto simp: net2_def mget_def PATH_DISCON_def)
  with r have "routed 2 p0 1 0 (mget p 1 0)" by (simp add: net2_sel numeral_2_eq_2)
  with p show ?thesis by blast
qed

text \<open>
  C37. The triple loop connects nothing: a pair of hosts has a path in the matrices only if the
  first links to the second directly.  (\<open>x < path[i][j]\<close> fails for a pair without a link, whose
  entry is \<open>PATH_DISCON = 0\<close>.)
\<close>

theorem only_linked_pairs_have_paths:
  assumes "rt_wf s" and "paths_current s" and "i < length (host_list s)" and "j < length (host_list s)"
    and "i \<noteq> j" and "\<forall>w. \<not> link_weight s i j w"
  shows "path_at s i j = Some PATH_DISCON"
proof -
  obtain p nx where m: "mats s = M_Valid p nx" "path_at s i j = Some (mget p i j)"
    by (rule path_at_current[OF assms(1-4)])
  show ?thesis
    by (rule path_entry[OF assms(1,2) m(1) assms(3,4)]) (use m(2) assms(5,6) in auto)
qed

theorem only_linked_pairs_have_paths_witness: "path_at net2 0 1 = Some PATH_DISCON"
  by (rule only_linked_pairs_have_paths[OF net2_wf net2_current])
    (simp_all add: net2_sel link_weight_def, simp add: sample_defs da_list_def)



section \<open>Tables, dynamic arrays and packets\<close>

text \<open>
  C31. \<open>find_host_by_addr\<close>, the binary search by which every operation finds a host, returns the one
  position of the table that holds the address, and nothing exactly if there is none.
\<close>

theorem host_lookup_correct:
  assumes "rt_wf s"
  shows "(\<exists>i. find_host_by_addr s mac = Some (Some i) \<and> i < length (host_list s) \<and>
      (\<forall>j<length (host_list s). host_mac s (host_list s ! j) = Some mac \<longleftrightarrow> j = i)) \<or>
    find_host_by_addr s mac = Some None \<and> (\<forall>p\<in>set (host_list s). host_mac s p \<noteq> Some mac)"
proof (cases rule: find_host_by_addr_cases[OF rt_wf_da[OF assms] rt_wf_ascending[OF assms], of mac])
  case (1 i)
  have "j = i" if "j < length (host_list s)" "host_mac s (host_list s ! j) = Some mac" for j
    using find_host_by_addr_own[OF assms that] 1(1) by simp
  with 1 show ?thesis by blast
qed blast

theorem host_lookup_correct_witness:
  "find_host_by_addr net2 (mac_no 2) = Some (Some 0) \<and> find_host_by_addr net2 (mac_no 3) = Some None"
proof -
  have "find_host_by_addr net2 (mac_no 2) = Some (Some 0)" by code_simp
  moreover have "host_mac net2 1 \<noteq> Some (mac_no 3)" "host_mac net2 0 \<noteq> Some (mac_no 3)" by code_simp+
  then have "\<forall>j<length (host_list net2). host_mac net2 (host_list net2 ! j) \<noteq> Some (mac_no 3)"
    by (simp add: net2_sel less_Suc_eq)
  then have "find_host_by_addr net2 (mac_no 3) = Some None" using host_lookup_correct[OF net2_wf] by metis
  ultimately show ?thesis ..
qed



text \<open>
  \<open>pkt_ipv4_pack\<close> and \<open>pkt_ipv4_unpack\<close> are not inverse: a host that is packed and unpacked again
  keeps its Ethernet address but has IP address and port in the other byte order.
\<close>

lemma unpack_does_not_undo_pack:
  "pkt_ipv4_unpack (pkt_ipv4_pack h) =
     \<lparr>ip_mac = ip_mac h, ip_in = \<lparr>sin_family = AF_INET, sin_port = htons (sin_port (ip_in h)),
        sin_addr = htonl (sin_addr (ip_in h))\<rparr>\<rparr>"
  by (simp add: unpack_pack)

text \<open>
  \<open>pkt_edges_cmp_src\<close> is meant to put the newest edge of a source first, but compares the time
  stamps in network byte order: an edge of time 256 comes after one of time 1.
\<close>

lemma newest_edge_is_not_first:
  "\<exists>e1 e2. e_src e1 = e_src e2 \<and> ntohll (e_ts_ms e2) < ntohll (e_ts_ms e1) \<and> 0 < pkt_edges_cmp_src e1 e2"
proof -
  let ?h = "pkt_ipv4_pack (host_no 2)"
  let ?e = "\<lambda>ts. \<lparr>e_src = ?h, e_dst = ?h, e_rtt_us = 0, e_ts_ms = htonll ts\<rparr>"
  have "htonll 256 < htonll 1" by code_simp
  then have "0 < pkt_edges_cmp_src (?e 256) (?e 1)"
    by (auto simp: pkt_edges_cmp_src_def Let_def mac_cmp_eq)
  then show ?thesis by (intro exI[of _ "?e 256"] exI[of _ "?e 1"]) simp
qed

section \<open>The group of peers and the connection attempts\<close>

text \<open>
  C20. \<open>dpg_insert\<close> implements the update of a finite map from Ethernet addresses to peers: an address
  that is taken is answered with 1 and nothing changes, otherwise the peer is entered and the answer
  is 0, unless the allocator refuses: then the answer is -2 and nothing changes.
\<close>

theorem dpg_insert_refines_map:
  assumes "dpg_wf mac g" and "mac dp = Some a"
  shows "\<exists>ret g' al'. dpg_insert mac g dp al = Some (ret, g', al') \<and> dpg_wf mac g' \<and>
    (if dpg_map mac g a \<noteq> None then ret = 1 \<and> g' = g
     else ret = 0 \<and> dpg_map mac g' = (dpg_map mac g)(a \<mapsto> dp) \<or> ret = - 2 \<and> g' = g \<and> al = False # al')"
proof (cases rule: dpg_insert_cases[OF assms, of al])
  case (1 q)
  with dpg_map_None[of mac g a] assms(1) show ?thesis by auto
next
  case (2 al')
  show ?thesis
  proof (cases "dpg_map mac g a")
    case (Some q)
    then have "q \<in> set (peers g)" "mac q = mac dp" using dpg_map_in[OF Some] assms(2) by simp_all
    with dpg_insert_dup[OF assms(1)] 2 show ?thesis by simp
  qed (use 2 assms(1) dpg_insert_refused[OF 2(1)] in auto)
next
  case (3 g' al')
  then have none: "dpg_map mac g a = None" by (simp add: dpg_map_None)
  from dpg_map_insert[OF assms(1) 3(2) assms(2) this 3(3)] 3(1,2) none show ?thesis by simp
qed

theorem dpg_insert_refines_map_witness:
  "\<exists>g' al'. dpg_insert pair_macs pair_group 1 [] = Some (0, g', al') \<and> dpg_wf pair_macs g' \<and>
    dpg_map pair_macs g' = (dpg_map pair_macs pair_group)(mac_no 4 \<mapsto> 1)"
  using dpg_insert_refines_map[OF pair_group_wf, of 1 "mac_no 4" "[]"] by (auto simp: pair_macs_def pair_group_map)

text \<open>
  C21. \<open>dpg_remove\<close> implements the deletion of an address from that map; an address that is not in
  the group is answered with -2.  It is the address that counts: the peer taken out need not be
  the one passed in.
\<close>

theorem dpg_remove_refines_map:
  assumes "dpg_wf mac g" and "mac dp = Some a"
  shows "\<exists>g'. dpg_remove mac g dp = Some (if dpg_map mac g a = None then - 2 else 0, g') \<and> dpg_wf mac g' \<and>
    dpg_map mac g' = (dpg_map mac g)(a := None)"
proof (cases rule: dpg_remove_cases[OF assms])
  case 1
  then have "dpg_map mac g a = None" by (simp add: dpg_map_None)
  moreover from this have "(dpg_map mac g)(a := None) = dpg_map mac g" by auto
  ultimately show ?thesis using 1 assms(1) by simp
next
  case (2 q g')
  then have "dpg_map mac g a = Some q" using dpg_map_Some[OF assms(1)] by simp
  with 2(1,2) dpg_map_remove[OF assms(1) 2(2,5)] show ?thesis by simp
qed

theorem dpg_remove_refines_map_witness:
  "\<exists>g'. dpg_remove pair_macs pair_group 0 = Some (0, g') \<and> dpg_map pair_macs g' (mac_no 2) = None"
  using dpg_remove_refines_map[OF pair_group_wf, of 0 "mac_no 2"] by (auto simp: pair_macs_def pair_group_map)

text \<open>
  C22. \<open>pcon_connect\<close> limits the rate of connection attempts: with memory to spare, a host is tried
  exactly if it was never tried before or more than \<open>PC_CON_EASE_SEC\<close> seconds have passed since,
  and then the time of the attempt is recorded, so that the limit applies to it from then on;
  otherwise the answer is 1 and nothing changes.
\<close>

theorem pcon_limits_attempts:
  assumes "pcon_wf pc" and "tv_wf now" and "\<forall>ts. last_attempt pc (key_of h) ts \<longrightarrow> tv_wf ts"
  shows "\<exists>ret connect pc' al'. pcon_connect now pc h [] = Some (ret, connect, pc', al') \<and> pcon_wf pc' \<and>
    (connect \<longleftrightarrow> (\<forall>ts. last_attempt pc (key_of h) ts \<longrightarrow> tv_us now - tv_us ts > PC_CON_EASE_SEC * 1000000)) \<and>
    (if connect then ret = 0 \<and> last_attempt pc' (key_of h) now else ret = 1 \<and> pc' = pc)"
proof -
  have ease: "timer_gt (timersub now ts) \<lparr>tv_sec = PC_CON_EASE_SEC, tv_usec = 0\<rparr> \<longleftrightarrow>
      tv_us now - tv_us ts > PC_CON_EASE_SEC * 1000000" if "last_attempt pc (key_of h) ts" for ts
    using timer_gt_us[OF timersub_wf[OF assms(2), of ts], of "\<lparr>tv_sec = PC_CON_EASE_SEC, tv_usec = 0\<rparr>"] assms(3) that
    by (simp add: timersub_us tv_wf_def) (simp add: tv_us_def)
  have once: "(\<forall>ts. last_attempt pc (key_of h) ts \<longrightarrow> P ts) \<longleftrightarrow> P t" if "last_attempt pc (key_of h) t" for t P
    using that last_attempt_unique[OF assms(1) that] by metis
  show ?thesis
  proof (cases rule: pcon_connect_cases[OF assms(1), of now h "[]"])
    case (1 t)
    with assms(1) show ?thesis by (auto simp: once[OF 1(2)] ease)
  next
    case (2 t pc')
    then show ?thesis by (auto simp: once[OF 2(3)] ease)
  next
    case (3 pc' al')
    then show ?thesis by auto
  qed simp
qed

theorem pcon_limits_attempts_witness:
  "(\<exists>al. pcon_connect (at_sec 101) tried (host_no 2) [] = Some (1, False, tried, al)) \<and>
   (\<exists>pc' al. pcon_connect (at_sec 103) tried (host_no 2) [] = Some (0, True, pc', al) \<and>
      last_attempt pc' (key_of (host_no 2)) (at_sec 103)) \<and>
   (\<exists>pc' al. pcon_connect (at_sec 101) tried (host_no 4) [] = Some (0, True, pc', al) \<and>
      last_attempt pc' (key_of (host_no 4)) (at_sec 101))"
proof -
  have sec: "tv_wf (at_sec n) \<longleftrightarrow> True" "tv_us (at_sec n) = n * 1000000" for n by (simp_all add: at_sec_def tv_wf_def tv_us_def)
  have two: "last_attempt tried (key_of (host_no 2)) ts \<longleftrightarrow> ts = at_sec 100" for ts
    using tried_last last_attempt_unique[OF tried_wf, of _ ts "at_sec 100"] by blast
  have four: "\<not> last_attempt tried (key_of (host_no 4)) ts" for ts using tried_not by blast
  have "\<exists>al. pcon_connect (at_sec 101) tried (host_no 2) [] = Some (1, False, tried, al)"
    using pcon_limits_attempts[OF tried_wf, of "at_sec 101" "host_no 2"] by (auto simp: sec two PC_CON_EASE_SEC_def)
  moreover have "\<exists>pc' al. pcon_connect (at_sec 103) tried (host_no 2) [] = Some (0, True, pc', al) \<and>
      last_attempt pc' (key_of (host_no 2)) (at_sec 103)"
    using pcon_limits_attempts[OF tried_wf, of "at_sec 103" "host_no 2"] by (auto simp: sec two PC_CON_EASE_SEC_def)
  moreover have "\<exists>pc' al. pcon_connect (at_sec 101) tried (host_no 4) [] = Some (0, True, pc', al) \<and>
      last_attempt pc' (key_of (host_no 4)) (at_sec 101)"
    using pcon_limits_attempts[OF tried_wf, of "at_sec 101" "host_no 4"] by (auto simp: sec four)
  ultimately show ?thesis by blast
qed

section \<open>The process\<close>

text \<open>
  C15. The process comes up and serves: if the options are accepted, its own address resolves, threads
  can be started and the listening socket comes about, \<open>main\<close> sets everything up, starts one
  thread for each connection that is accepted, and the state satisfies the invariant of the node.
\<close>

theorem process_comes_up:
  assumes "fresh_process s" and "main_options args = Inr os" and "sa_resolve sa = Some a" and "n_spawns s = []"
  shows "\<exists>s' ts n. main args sa True True True True (map Some cs) s = Some (Inr s') \<and> node_wf {} {} s' \<and>
    n_threads s' = ts @ map Th_Incoming [n..<n + length cs]"
proof -
  obtain s1 where s1: "main_setup os sa s = Some (Inr s1)" "n_spawns s1 = []"
    using main_setup_wf(3)[OF assms(1,3,4)] by blast
  obtain s' where "peer_listener (map Some cs) s1 = Some (Inr s')" "node_wf {} {} s'"
    "n_threads s' = n_threads s1 @ map Th_Incoming [n_next s1..<n_next s1 + length cs]"
    using peer_listener_serves[OF main_setup_wf(2)[OF assms(1,3) s1(1)] s1(2)] by blast
  then show ?thesis using s1(1) assms(2) by (fastforce simp: main_def peer_listener_bind_def)
qed

theorem process_comes_up_witness:
  "\<exists>s' ts n. main [(CHR ''e'', ''node8''), (CHR ''l'', ''9001'')] plain_setup True True True True
      [Some (line join4, ip_in (host_no 4))] newborn = Some (Inr s') \<and> node_wf {} {} s' \<and>
    n_threads s' = ts @ [Th_Incoming n]"
proof -
  obtain os where os: "main_options [(CHR ''e'', ''node8''), (CHR ''l'', ''9001'')] = Inr os" "peer_port os = ''9001''"
    by (auto simp: main_options_def main_option_def default_options_def DEFAULT_PORT_STR_def)
  have "sa_resolve plain_setup = Some (ip_in (host_no 8))" "n_spawns newborn = []"
    by (simp_all add: plain_setup_def newborn_def node2_def)
  from process_comes_up[OF newborn_fresh os(1) this, of "[(line join4, ip_in (host_no 4))]"] show ?thesis by simp
qed

text \<open>
  C3. Every state that the process reaches from \<open>main_setup\<close> by calls that return satisfies the
  invariant of the node, however the calls of the threads interleave: the routing data is
  well-formed and unlocked, group, table of attempts and heap agree, no mutex is left locked, and
  neither the table nor the group refers to a peer that has been freed.  Side conditions: memory
  never runs out, and a peer learnt from link state answers under the address it was announced with
  (\<open>names_itself\<close>).  Calls without a defined result are no steps: trimming, a send that fails in the
  first part of a packet, a packet that is shorter than its kind demands.
\<close>

theorem reachable_states_are_well_formed:
  assumes "fresh_process s0" and "main_setup os sa s0 = Some (Inr s)"
    and "node_step\<^sup>*\<^sup>* (s, {}, {}) (s', G, L)"
  shows "node_wf G L s'"
proof -
  obtain a where "sa_resolve sa = Some a" using main_setup_resolved[OF assms(2)] by auto
  from main_setup_wf(2)[OF assms(1) this assms(2)] assms(3) show ?thesis by (rule node_steps_wf[rotated])
qed

theorem reachable_states_are_well_formed_witness:
  "\<exists>s s'. main_setup default_options plain_setup newborn = Some (Inr s) \<and>
    node_step\<^sup>*\<^sup>* (s, {}, {}) (s', {}, {}) \<and> n_next s < n_next s' \<and> node_wf {} {} s'"
proof -
  have "sa_resolve plain_setup = Some (ip_in (host_no 8))" "n_spawns newborn = []"
    by (simp_all add: plain_setup_def newborn_def node2_def)
  note up = main_setup_wf[OF newborn_fresh this(1)]
  obtain s where s: "main_setup default_options plain_setup newborn = Some (Inr s)"
    using up(3) \<open>n_spawns newborn = []\<close> by blast
  have wf: "node_wf {} {} s" by (rule up(2)[OF s])
  obtain s1 where s1: "dp_create_1 s = (0, n_next s, s1)" "n_next s1 = n_next s + 1" by (rule dp_create_1_keeps[OF wf])
  obtain r s' where s': "dp_create_initial [] [] s = (r, s')" by (rule prod.exhaust)
  then have "n_next s' = n_next s1"
    using s1 by (auto simp: dp_create_initial_def malloc_def dp_spawn_th_def dp_cleanup_1_def Let_def
        split: prod.splits list.splits if_splits)
  with s1 have "n_next s < n_next s'" by simp
  moreover have "node_step\<^sup>*\<^sup>* (s, {}, {}) (s', {}, {})" by (rule r_into_rtranclp) (rule initial[OF s'])
  ultimately show ?thesis using s reachable_states_are_well_formed[OF newborn_fresh s] by blast
qed



text \<open>
  C5. A join request of an unknown host is granted: if the connection carries a join packet and
  takes data, neither the table nor the group knows the address, and the table has room, then
  \<open>dp_th_incoming\<close> does return, and the host is a direct peer with a link from the local host.  That the
  table has room means that its matrices are allocated or still null, not left dangling by a failed
  allocation, that they have no more rows than the table has hosts, and that no host has more links than
  there are hosts.
\<close>

theorem join_request_is_granted:
  assumes "node_wf G L s" and "d \<notin> G \<union> L" and "n_peers s d = Some dp" and "con_fd dp = Some c" and "no_errors c"
    and "dp_host s d = Some h0" and "rx c = packet PT_JOIN_PART (of_nat PL_JOIN) (host_bytes host) @ rest"
    and "unknown (p_mac host) (n_rd s)" and "\<forall>e\<in>set (peers (n_dpg s)). dp_mac s e \<noteq> Some (p_mac host)"
    and "mats (n_rd s) \<noteq> M_Dangling" and "m_ct (n_rd s) \<le> length (host_list (n_rd s))"
    and "\<forall>p\<in>set (host_list (n_rd s)). \<forall>g. hheap (n_rd s) p = Some g \<longrightarrow> length (links_of g) \<le> length (host_list (n_rd s))"
  shows "\<exists>s' ts. dp_th_incoming d s = Some (True, s') \<and> d \<in> set (peers (n_dpg s')) \<and>
    dp_mac s' d = Some (p_mac host) \<and> local_link (n_rd s') (p_mac host) 1000000 ts"
proof -
  have "da_ct (hosts (n_rd s)) = length (host_list (n_rd s))"
    using length_da_list[OF rt_wf_da[OF rd_okD(1)[OF node_wfD(1)[OF assms(1)]]]] by simp
  then have room: "has_room (n_rd s)" using assms(10-12) by (simp add: has_room_def few_links_def)
  obtain s' where s': "dp_th_incoming d s = Some (True, s')" "dp_mac s' d = Some (p_mac host)"
    by (rule dp_th_incoming_grants[OF assms(1-9) room]) blast
  obtain m ts where "d \<in> set (peers (n_dpg s'))" "dp_mac s' d = Some m" "local_link (n_rd s') m 1000000 ts"
    by (rule dp_th_incoming_joined[OF assms(1,2) s'(1)])
  with s' show ?thesis by auto
qed

theorem join_request_is_granted_witness:
  "\<exists>s' ts. dp_th_incoming 1 (node2 [] join4) = Some (True, s') \<and> local_link (n_rd s') (mac_no 4) 1000000 ts"
proof -
  let ?host = "\<lparr>p_ip = 1, p_port = 9000, p_mac = mac_no 4\<rparr>"
  have "dp_host (node2 [] join4) 1 = Some (host_no 4)"
    by (simp add: dp_host_def net2_def sample_ips_def)
  moreover have "rx (line join4) = packet PT_JOIN_PART (of_nat PL_JOIN) (host_bytes ?host) @ []" by (simp add: join4_def)
  moreover have "\<forall>e\<in>set (peers (n_dpg (node2 [] join4))). dp_mac (node2 [] join4) e \<noteq> Some (p_mac ?host)"
    by (simp add: node2_macs pair_macs_def pair_group_peers mac_no_def)
  ultimately show ?thesis
    using join_request_is_granted[OF node2_wf, of 1 "[]" join4 "idle join4" "line join4" "host_no 4" ?host "[]"]
      net2_unknown4 net2_room net2_count
    by (auto simp: has_room_def few_links_def net2_sel)
qed

text \<open>
  C6. Two processes find each other: both have just come up, the addresses of their interfaces differ,
  one of them was given the host of the other one and connects to it.  If the connection carries to
  each what the other one sends and takes data, then the thread of the one that connects and the
  thread of the one that accepts both return with a link to the other process, known under its own
  address, and each has sent what the other one is said to have read.
\<close>

theorem two_processes_connect:
  assumes "fresh_process a0" and "n_spawns a0 = []" and "main_setup osa saa a0 = Some (Inr a)" and "peer_host osa = Some host"
    and "fresh_process b0" and "n_spawns b0 = []" and "main_setup osb sab b0 = Some (Inr b)"
    and "v_mac (n_vnet a) \<noteq> v_mac (n_vnet b)"
    and "connect_host na = Inr (ca, addr)" and "no_errors ca" and "rx ca = state_packet b @ resta"
    and "dp_create_incoming cb from b = Some (r, b1)" and "no_errors cb" and "rx cb = join_packet a @ restb"
  shows "\<exists>d a' b' ca' cb' more ts us. Th_Initial d host (peer_port osa) \<in> set (n_threads a) \<and>
    dp_th_initial d na a = Some (True, a') \<and> dp_th_incoming (n_next b) b1 = Some (True, b') \<and>
    dp_mac a' d = Some (v_mac (n_vnet b)) \<and> local_link (n_rd a') (v_mac (n_vnet b)) 1000000 ts \<and>
    dp_mac b' (n_next b) = Some (v_mac (n_vnet a)) \<and> local_link (n_rd b') (v_mac (n_vnet a)) 1000000 us \<and>
    conn_of a' d = Some ca' \<and> tx ca' = tx ca @ join_packet a @ more \<and>
    conn_of b' (n_next b) = Some cb' \<and> tx cb' = tx cb @ state_packet b"
proof -
  note A = main_setup_set_up[OF assms(1-3)] and B = main_setup_set_up(1)[OF assms(5-7)]
  obtain d where d: "n_peers a d \<noteq> None" "Th_Initial d host (peer_port osa) \<in> set (n_threads a)" using A(2)[OF assms(4)] by blast
  have own: "ip_mac (own_host b) = v_mac (n_vnet b)" by (simp add: own_host_def)
  let ?host = "\<lparr>p_ip = sin_addr (l_addr (n_dpg a)), p_port = sin_port (l_addr (n_dpg a)), p_mac = v_mac (n_vnet a)\<rparr>"
  have rxb: "rx cb = packet PT_JOIN_PART (of_nat PL_JOIN) (host_bytes ?host) @ restb" using assms(14) by (simp add: join_payload_def)
  have ne: "ip_mac (own_host b) \<noteq> v_mac (n_vnet a)" "p_mac ?host \<noteq> v_mac (n_vnet b)" using assms(8) own by auto
  obtain a' ca' more ts where "dp_th_initial d na a = Some (True, a')" "dp_mac a' d = Some (v_mac (n_vnet b))"
    "local_link (n_rd a') (v_mac (n_vnet b)) 1000000 ts" "conn_of a' d = Some ca'" "tx ca' = tx ca @ join_packet a @ more"
    using set_up_connects[OF A(1) d(1) assms(9,10) assms(11)[unfolded set_up_state_packet[OF B]] ne(1)] unfolding own by blast
  moreover obtain b' cb' us where "dp_th_incoming (n_next b) b1 = Some (True, b')" "dp_mac b' (n_next b) = Some (p_mac ?host)"
    "local_link (n_rd b') (p_mac ?host) 1000000 us" "conn_of b' (n_next b) = Some cb'" "tx cb' = tx cb @ state_packet b"
    using set_up_accepts[OF B assms(12,13) rxb ne(2)] by blast
  ultimately show ?thesis using d(2) unfolding pkt_ipv4_host.select_convs by blast
qed

theorem two_processes_connect_witness:
  "\<exists>a b b1 d a' b' na from cb. main_setup joining plain_setup newborn = Some (Inr a) \<and>
    main_setup default_options other_setup newborn = Some (Inr b) \<and> dp_create_incoming cb from b = Some (0, b1) \<and>
    dp_th_initial d na a = Some (True, a') \<and> dp_th_incoming (n_next b) b1 = Some (True, b') \<and>
    dp_mac a' d = Some (Ether_Addr 6 6 6 6 6 6) \<and> dp_mac b' (n_next b) = Some (Ether_Addr 8 8 8 8 8 8)"
proof -
  obtain a where a: "main_setup joining plain_setup newborn = Some (Inr a)" "v_mac (n_vnet a) = Ether_Addr 8 8 8 8 8 8"
    using setup_macs(1) by (auto simp: setup_mac_def split: option.splits sum.splits)
  obtain b where b: "main_setup default_options other_setup newborn = Some (Inr b)" "v_mac (n_vnet b) = Ether_Addr 6 6 6 6 6 6"
    using setup_macs(2) by (auto simp: setup_mac_def split: option.splits sum.splits)
  have sp: "n_spawns newborn = []" by (simp add: newborn_def node2_def)
  have B: "node_wf {} {} b" "n_spawns b = []" using main_setup_set_up(1)[OF newborn_fresh sp b(1)] by (simp_all add: set_up_def)
  obtain b1 where b1: "dp_create_incoming (line (join_packet a)) (ip_in (host_no 8)) b = Some (0, b1)"
    by (rule dp_create_incoming_spare[OF B])
  let ?na = "\<lparr>na_ai = Some (ip_in (host_no 6), 16), na_sock = True, na_conn = Some (line (state_packet b))\<rparr>"
  have na: "connect_host ?na = Inr (line (state_packet b), ip_in (host_no 6))" by (simp add: connect_host_def SOCKADDR_IN_SIZE_def)
  have host: "peer_host joining = Some ''node6''" by (simp add: joining_def)
  from two_processes_connect[OF newborn_fresh sp a(1) host newborn_fresh sp b(1) _ na _ _ b1, of "[]" "[]"] a b b1
  show ?thesis by auto
qed

text \<open>
  C12. The host that is named on the command line (\<open>dp_th_initial\<close>) is greeted with a join packet and
  answers with its link state.  It either ends up as a direct peer, in the group and linked from the
  local host with the first estimate of one second, or is freed again.  Then the group holds the same
  peers in the same order and the local host has the same links; what the table has learnt of other
  hosts from the link state stays.  In both cases the invariant of the node holds.
\<close>

theorem initial_peer_joins_or_vanishes:
  assumes "node_wf G L s" and "d \<notin> G \<union> L" and "n_peers s d \<noteq> None" and "dp_th_initial d na s = Some (go, s')"
  shows "if go then node_wf (insert d G) (insert d L) s' \<and> d \<in> set (peers (n_dpg s')) \<and>
      (\<exists>m ts. dp_mac s' d = Some m \<and> local_link (n_rd s') m 1000000 ts)
    else node_wf G L s' \<and> n_peers s' d = None \<and> peers (n_dpg s') = peers (n_dpg s) \<and>
      (\<forall>m rtt ts. local_link (n_rd s') m rtt ts \<longleftrightarrow> local_link (n_rd s) m rtt ts)"
proof -
  have "outcome d G L (s, G, L) (Some (go, s'))" using dp_th_initial_outcome[OF assms(1-3), of na] assms(4) by simp
  note wf = outcome_wf[OF assms(1) this]
  show ?thesis
  proof (cases go)
    case True
    with assms(4) have "dp_th_initial d na s = Some (True, s')" by simp
    from dp_th_initial_joined[OF assms(1-3) this] wf True show ?thesis by metis
  next
    case False
    with assms(4) have "undone {} s s'" using dp_th_initial_vanishes[OF assms(1-3), of na] by (simp add: exits_def)
    with wf assms(4) False dp_th_initial_gone show ?thesis by (simp add: undone_def)
  qed
qed

theorem initial_peer_joins_or_vanishes_witness:
  "\<exists>s'. dp_th_initial 1 net4 (node2 [] []) = Some (True, s') \<and> node_wf {0, 1} {0, 1} s' \<and> 1 \<in> set (peers (n_dpg s'))"
proof -
  obtain s' where s': "dp_th_initial 1 net4 (node2 [] []) = Some (True, s')" using initial_run by blast
  from initial_peer_joins_or_vanishes[OF node2_wf _ _ s'] s' show ?thesis by (simp add: insert_commute)
qed

text \<open>
  C13. A host that was learnt from link state (\<open>dp_th_linkstate\<close>) is linked before its answer is read.
  Provided that the address \<open>m\<close> in the answer is the one it was announced with, it either ends up as a
  direct peer, in the group and linked from the local host with the first estimate of one second, or is
  freed again.  Then the group holds the same peers in the same order, and the local host has the
  same links, except that the link to \<open>m\<close> may be gone, also one that was there before.  In both cases the
  invariant of the node holds.
\<close>

theorem linkstate_peer_joins_or_vanishes:
  assumes "node_wf G L s" and "d \<notin> G \<union> L" and "n_peers s d \<noteq> None" and "na_conn na = Some c"
    and "dp_mac s d = Some m" and "m = mac_of_bytes (drop (PL_HEADER + 8) (rx c))"
    and "dp_th_linkstate d na s = Some (go, s')"
  shows "if go then node_wf (insert d G) (insert d L) s' \<and> d \<in> set (peers (n_dpg s')) \<and>
      dp_mac s' d = Some m \<and> (\<exists>ts. local_link (n_rd s') m 1000000 ts)
    else node_wf G L s' \<and> n_peers s' d = None \<and> peers (n_dpg s') = peers (n_dpg s) \<and>
      (\<forall>a rtt ts. a \<noteq> m \<longrightarrow> (local_link (n_rd s') a rtt ts \<longleftrightarrow> local_link (n_rd s) a rtt ts)) \<and>
      ((\<forall>rtt ts. local_link (n_rd s') m rtt ts \<longleftrightarrow> local_link (n_rd s) m rtt ts) \<or>
       (\<forall>rtt ts. \<not> local_link (n_rd s') m rtt ts))"
proof -
  have nm: "m = mac_of_bytes (drop (PL_HEADER + 8) (rx c'))" if "na_conn na = Some c'" for c'
    using assms(4,6) that by simp
  have "outcome d G L (s, G, L) (Some (go, s'))"
    using dp_th_linkstate_outcome[OF assms(1-3), of na] nm assms(5,7) by simp
  note wf = outcome_wf[OF assms(1) this]
  show ?thesis
  proof (cases go)
    case True
    with assms(7) have "dp_th_linkstate d na s = Some (True, s')" by simp
    from dp_th_linkstate_joined[OF assms(1,5) nm this] wf True show ?thesis by simp
  next
    case False
    with assms(7) have "withdrawn m s s'" using dp_th_linkstate_vanishes[OF assms(1-3,5) nm] by (simp add: exits_def)
    with wf assms(7) False dp_th_linkstate_gone show ?thesis by (auto simp: withdrawn_def undone_def)
  qed
qed

theorem linkstate_peer_joins_or_vanishes_witness:
  "\<exists>s' ts. dp_th_linkstate 1 net4 (node2 [] []) = Some (True, s') \<and> node_wf {0, 1} {0, 1} s' \<and>
    1 \<in> set (peers (n_dpg s')) \<and> local_link (n_rd s') (mac_no 4) 1000000 ts"
proof -
  obtain s' where s': "dp_th_linkstate 1 net4 (node2 [] []) = Some (True, s')" using linkstate_run by blast
  have "mac_no 4 = mac_of_bytes (drop (PL_HEADER + 8) hello4)" by code_simp
  then have ans: "mac_no 4 = mac_of_bytes (drop (PL_HEADER + 8) (rx (line hello4)))" unfolding line_sel .
  have mac: "dp_mac (node2 [] []) 1 = Some (mac_no 4)" by (simp add: node2_macs pair_macs_def)
  have con: "na_conn net4 = Some (line hello4)" by (simp add: net4_def)
  have out: "1 \<notin> {0} \<union> {0::dptr}" "n_peers (node2 [] []) 1 \<noteq> None" by simp_all
  have two: "insert 1 {0} = {0, 1::dptr}" by auto
  from linkstate_peer_joins_or_vanishes[OF node2_wf out con mac ans s', unfolded if_True two] s' show ?thesis by blast
qed

text \<open>
  C9. When the thread of a peer ends (\<open>dp_th\<close>), for whatever reason, the peer is out of the group and
  out of the table before it is freed: nothing refers to the freed memory.
\<close>

theorem ended_peer_is_gone:
  assumes "node_wf G L s" and "d \<in> L" and "dp_th d ep evs s = Some (False, s')"
  shows "n_peers s' d = None \<and> d \<notin> set (peers (n_dpg s')) \<and> \<not> points_to (n_rd s') d \<and>
    node_wf (G - {d}) (L - {d}) s'"
proof -
  have wf: "node_wf (G - {d}) (L - {d}) s'"
    using node_steps_wf[OF _ assms(1)] dp_th_steps[OF assms(3,2), of G] by auto
  then show ?thesis using dp_th_gone[OF assms(3)] node_wfD(7,8)[OF wf] by blast
qed

theorem ended_peer_is_gone_witness:
  "\<exists>s'. dp_th 0 True [EP_Timeout, EP_Other] (node2 [] []) = Some (False, s') \<and> n_peers s' 0 = None \<and> node_wf {} {} s'"
proof -
  obtain s' where s': "dp_th 0 True [EP_Timeout, EP_Other] (node2 [] []) = Some (False, s')" using ending_run by blast
  from ended_peer_is_gone[OF node2_wf _ s'] s' show ?thesis by simp
qed

section \<open>What travels between nodes\<close>

text \<open>
  C14. \<open>dp_send_packet\<close> against a connection that takes the data in arbitrary pieces: if it returns,
  the header in network order and all of the payload have gone out in order and the result is 0.  A
  failed \<open>send\<close> is never reported: \<open>dp_psend_data\<close> releases the mutex, and its callers release it
  once more, which is undefined.
\<close>

theorem sends_are_complete:
  assumes "con_fd dp = Some c" and "\<not> wlock dp" and "unat len \<le> length data"
  shows "(\<exists>as. dp_send_packet type len data dp =
      Some (0, dp\<lparr>con_fd := Some (sent (packet type len (take (unat len) data)) as c)\<rparr>)) \<or>
    dp_send_packet type len data dp = None \<and> \<not> no_errors c"
  by (rule dp_send_packet_cases[OF assms, of type]) blast+

theorem sends_are_complete_witness:
  "\<exists>dp. dp_send_packet PT_PROBE_RESP 2 [1, 2] (idle []) = Some (0, dp) \<and> map_option tx (con_fd dp) = Some [171, 53, 0, 2, 1, 2]"
proof -
  have "packet PT_PROBE_RESP 2 (take 2 [1, 2]) = [171, 53, 0, 2, 1, 2]" by code_simp
  with sends_are_complete[of "idle []" "line []" 2 "[1, 2]" PT_PROBE_RESP] show ?thesis by auto
qed

text \<open>
  C10. Link state arrives: the bytes that \<open>dp_send_linkstate\<close> sends for up to 1820 edges, read by
  \<open>dp_recv_packet\<close> at the other end, make the receiver connect to the hosts of exactly these edges
  and update its table with exactly these edges, and leave what follows in the stream alone.
\<close>

theorem link_state_round_trip:
  assumes "con_fd dp = Some c" and "\<not> wlock dp" and "no_errors c" and "length es \<le> 1820"
    and "dp_send_linkstate me es dp = Some (r, dp')" and "con_fd dp' = Some c'"
    and "n_peers s d = Some dq" and "con_fd dq = Some cq" and "allocs (n_rd s) = []"
    and "rx cq = drop (length (tx c)) (tx c') @ rest"
  shows "r = 0 \<and> dp_recv_packet d s = do {
      t \<leftarrow> foldM connect_edge es (reading d dq cq (PL_HEADER + link_len es) s);
      (ret, rd) \<leftarrow> rt_update_edges (n_rd t) es;
      Some (ret, t\<lparr>n_rd := rd\<rparr>) }"
proof -
  obtain as where as: "dp_send_linkstate me es dp = Some (0, dp\<lparr>con_fd :=
      Some (sent (packet PT_LINK_GRAPH (of_nat (link_len es)) (link_payload me es)) as c)\<rparr>)"
    by (rule dp_send_linkstate_bytes[OF assms(1-3)])
  with assms(5,6,10) have "rx cq = packet PT_LINK_GRAPH (of_nat (link_len es)) (link_payload me es) @ rest" by auto
  from dp_recv_linkstate[OF assms(7-9) this assms(4)] as assms(5) show ?thesis by simp
qed

theorem link_state_round_trip_witness:
  "dp_recv_packet 0 (node2 (state4 @ [9]) []) = do {
     t \<leftarrow> foldM connect_edge report (reading 0 (idle (state4 @ [9])) (line (state4 @ [9])) 54 (node2 (state4 @ [9]) []));
     (ret, rd) \<leftarrow> rt_update_edges (n_rd t) report;
     Some (ret, t\<lparr>n_rd := rd\<rparr>) }"
proof -
  have len: "link_len report = 50" by (simp add: link_len_def PL_LINK_GRAPH_STATIC_def PL_EDGE_def PL_HOST_def report_def)
  have few: "length report \<le> 1820" by (simp add: report_def)
  obtain as where as: "dp_send_linkstate (host_no 4) report (idle []) =
      Some (0, (idle [])\<lparr>con_fd := Some (sent state4 as (line []))\<rparr>)"
    by (rule dp_send_linkstate_bytes[of "idle []" "line []" "host_no 4" report]) (simp_all add: len state4_def)
  show ?thesis
    using link_state_round_trip[OF _ _ _ _ as, of "line []" "sent state4 as (line [])" "node2 (state4 @ [9]) []" 0
        "idle (state4 @ [9])" "line (state4 @ [9])" "[9]"]
    by (simp add: len few PL_HEADER_def net2_sel)
qed

text \<open>
  C11. A data packet for a host to which the local host has a measured link: the frame leaves, byte
  for byte as it came in, through one connected peer of the table, and nothing else changes.
\<close>

theorem frame_is_passed_on:
  assumes "node_wf G L s" and "paths_current (n_rd s)" and "connected L s"
    and "n_peers s e = Some dp" and "con_fd dp = Some c"
    and "rx c = packet PT_DATA (of_nat (length pkt)) pkt @ rest" and "ETHER_HDR_MACS \<le> length pkt" and "length pkt < 2 ^ 16"
    and "local_link (n_rd s) (frame_dst pkt) rtt ts" and "rtt \<noteq> 0" and "\<not> ether_addr_is_mcast (frame_dst pkt)"
  shows "\<exists>t d dq cq as. t = reading e dp c (PL_HEADER + length pkt) s \<and> d \<in> L \<and>
    n_peers t d = Some dq \<and> con_fd dq = Some cq \<and>
    dp_recv_packet e s = Some (0, t\<lparr>n_peers := (n_peers t)(d \<mapsto>
      dq\<lparr>con_fd := Some (sent (packet PT_DATA (of_nat (length pkt)) pkt) as cq)\<rparr>)\<rparr>)"
proof -
  let ?t = "reading e dp c (PL_HEADER + length pkt) s"
  have wf: "node_wf G L ?t" by (rule reading_wf[OF assms(1,4)])
  have con: "connected L ?t" by (rule reading_connected[OF assms(3-5)])
  have al: "allocs (n_rd s) = []" using rd_okD(4)[OF node_wfD(1)[OF assms(1)]] .
  obtain d dq cq as where d: "d \<in> L" "n_peers ?t d = Some dq" "con_fd dq = Some cq"
    "forward_frame (frame_src pkt) (frame_dst pkt) pkt ?t = Some (0, ?t\<lparr>n_peers := (n_peers ?t)(d \<mapsto>
       dq\<lparr>con_fd := Some (sent (packet PT_DATA (of_nat (length pkt)) pkt) as cq)\<rparr>)\<rparr>)"
    by (rule forward_frame_linked[OF wf _ _ assms(10,11) con assms(8)]) (use assms(2,9) in auto)
  have "dp_recv_packet e s = Some (0, ?t\<lparr>n_peers := (n_peers ?t)(d \<mapsto>
      dq\<lparr>con_fd := Some (sent (packet PT_DATA (of_nat (length pkt)) pkt) as cq)\<rparr>)\<rparr>)"
    unfolding dp_recv_frame[OF assms(4,5) al assms(6-8)] d(4) by simp
  with d(1-3) show ?thesis by blast
qed

theorem frame_is_passed_on_witness:
  "\<exists>s' dp. dp_recv_packet 1 (node2 [] frame2) = Some (0, s') \<and> n_peers s' 0 = Some dp \<and>
    map_option tx (con_fd dp) = Some frame2"
proof -
  have "connected {0} (node2 [] frame2)" by (simp add: connected_def)
  moreover have "\<not> ether_addr_is_mcast (mac_no 2)" by code_simp
  moreover have "rx (line frame2) = packet PT_DATA (of_nat (length eth2)) eth2 @ []" by (simp add: frame2_def)
  ultimately obtain t d dq cq as where t: "t = reading 1 (idle frame2) (line frame2) (PL_HEADER + length eth2) (node2 [] frame2)"
    "d = 0" "n_peers t d = Some dq" "con_fd dq = Some cq"
    "dp_recv_packet 1 (node2 [] frame2) = Some (0, t\<lparr>n_peers := (n_peers t)(d \<mapsto>
      dq\<lparr>con_fd := Some (sent (packet PT_DATA (of_nat (length eth2)) eth2) as cq)\<rparr>)\<rparr>)"
    using frame_is_passed_on[OF node2_wf _ _, of "[]" frame2 1 "idle frame2" "line frame2" eth2 "[]" 1000 5] net2_current net2_link
    by (auto simp: eth_facts ETHER_HDR_MACS_def ETH_ALEN_def)
  then show ?thesis by (auto simp: frame2_def)
qed

text \<open>
  C25. A data packet for a host that the table does not know: \<open>dp_recv_packet\<close> answers -1, which ends
  the connection to the peer that sent it although that peer did nothing wrong.
\<close>

theorem unknown_destination_ends_the_connection:
  assumes "node_wf G L s" and "paths_current (n_rd s)" and "n_peers s e = Some dp" and "con_fd dp = Some c"
    and "rx c = packet PT_DATA (of_nat (length pkt)) pkt @ rest" and "ETHER_HDR_MACS \<le> length pkt" and "length pkt < 2 ^ 16"
    and "\<not> ether_addr_is_mcast (frame_dst pkt)"
    and "\<forall>p\<in>set (host_list (n_rd s)). host_mac (n_rd s) p \<noteq> Some (frame_dst pkt)"
  shows "dp_th_event e EP_In s = Some (False, reading e dp c (PL_HEADER + length pkt) s)"
proof -
  let ?t = "reading e dp c (PL_HEADER + length pkt) s"
  have al: "allocs (n_rd s) = []" using rd_okD(4)[OF node_wfD(1)[OF assms(1)]] .
  have "forward_frame (frame_src pkt) (frame_dst pkt) pkt ?t = Some (- 1, ?t)"
    by (rule forward_frame_unknown[OF reading_wf[OF assms(1,3)]]) (use assms(2,8,9) in auto)
  then have "dp_recv_packet e s = Some (- 1, ?t)" unfolding dp_recv_frame[OF assms(3,4) al assms(5-7)] by simp
  then show ?thesis by (simp add: dp_th_event_def)
qed

theorem unknown_destination_ends_the_connection_witness:
  "dp_th_event 0 EP_In (node2 frame6 []) = Some (False, reading 0 (idle frame6) (line frame6) 19 (node2 frame6 []))"
proof -
  have "\<not> ether_addr_is_mcast (mac_no 6)" by code_simp
  with unknown_destination_ends_the_connection[OF node2_wf, of frame6 "[]" 0 "idle frame6" "line frame6" eth6 "[]"]
  show ?thesis using net2_current net2_macs
    by (simp add: frame6_def eth_facts ETHER_HDR_MACS_def ETH_ALEN_def PL_HEADER_def)
qed

text \<open>
  C23. The answer to the probe that is under way gives the link to the peer the time since the probe
  was sent, in microseconds, and the present time stamp; an answer to any other probe is read and
  dropped.
\<close>

theorem probe_measures_the_link:
  assumes "node_wf G L s" and "n_peers s d = Some dp" and "con_fd dp = Some c" and "rx c = le_bytes 2 q @ rest"
    and "n_clock s = t1 # t2 # ts" and "dp_handle_probe_resp d s = Some (r, s')"
  shows "if q = probe_seq dp
    then (if r = 0 then \<exists>m. dp_mac s d = Some m \<and> local_link (n_rd s') m
            (word_of_int (tv_us t1 - tv_us (probe_send_time dp))) (word_of_int (tv_ms t2))
          else n_rd s' = n_rd s)
    else r = 0 \<and> s' = reading d dp c PL_PROBE_RESP s"
proof (cases "q = probe_seq dp")
  case True
  note ok = rd_okD[OF node_wfD(1)[OF assms(1)]]
  have add: "rt_dhost_add_link t2 (n_rd s) (IP_Dp d) (word_of_int (tv_us t1 - tv_us (probe_send_time dp))) = Some (r, n_rd s')"
    by (rule dp_handle_probe_resp_match[OF assms(2,3) _ assms(5,6)]) (use assms(4) True in simp)
  obtain ip where ip: "ipheap (n_rd s) (IP_Dp d) = Some ip" using rt_dhost_add_link_reads[OF ok(1) add] by auto
  show ?thesis
  proof (cases "r = 0")
    case zero: True
    have "local_link (n_rd s') (ip_mac ip) (word_of_int (tv_us t1 - tv_us (probe_send_time dp))) (word_of_int (tv_ms t2))"
      using rt_dhost_add_link_done[OF ok(1,2) ip _ add[unfolded zero]] by simp
    with ip zero True show ?thesis by (simp add: dp_mac_def dp_host_def)
  qed (use True rt_dhost_add_link_refused[OF node_wfD(1)[OF assms(1)] add] in simp)
next
  case False
  with dp_handle_probe_resp_other[OF assms(2-4)] assms(6) show ?thesis by simp
qed

theorem probe_measures_the_link_witness:
  "\<exists>s'. dp_handle_probe_resp 0 (node2 (le_bytes 2 (7::u16)) []) = Some (0, s') \<and> local_link (n_rd s') (mac_no 2) 1000000 12000"
proof -
  obtain s' where s': "dp_handle_probe_resp 0 (node2 (le_bytes 2 (7::u16)) []) = Some (0, s')" using probe_run by blast
  have "dp_mac (node2 (le_bytes 2 (7::u16)) []) 0 = Some (mac_no 2)" by (simp add: node2_macs pair_macs_def)
  with probe_measures_the_link[OF node2_wf _ _ _ _ s', of "idle (le_bytes 2 (7::u16))" "line (le_bytes 2 (7::u16))" 7 "[]" "at_sec 11" "at_sec 12" "[]"] s'
  show ?thesis by (simp add: at_sec_def tv_us_def tv_ms_def)
qed

text \<open>
  C16. The waits of a peer's thread are bounded: with a clock that does not run backwards, after any
  number of iterations of the loop of \<open>dp_th\<close> the timeout handed to \<open>epoll_wait\<close>, \<open>tv_ms (&wtime)\<close>, is
  never negative, which would mean to wait forever, and never above one second, so that probes keep
  going out; and the counter of probes since the last link state stays between 0 and
  \<open>DP_TIMEOUT_LINK_MULT\<close>.
\<close>

theorem waits_are_bounded:
  assumes "clock_ok s" and "dp_th_run d evs loop_start s = Some (True, l, s')" and "n_clock s' \<noteq> []"
    and "dp_th_probe d l s' = Some (True, l', s'')"
  shows "0 \<le> tv_ms (wtime l') \<and> tv_ms (wtime l') \<le> 1000 \<and> 0 \<le> probe_ct l' \<and> probe_ct l' \<le> DP_TIMEOUT_LINK_MULT"
proof -
  have "loop_ok loop_start s" by (simp add: loop_ok_def loop_start_def)
  from dp_th_run_ok[OF assms(1) this assms(2,3)] have "loop_ok l s'" .
  note W = dp_th_probe_wait(1-4)[OF this assms(4)]
  have "0 \<le> tv_ms (wtime l')" "tv_ms (wtime l') \<le> 1000" using W(1-3) tv_ms_us[OF W(1)] by auto
  then show ?thesis using W(4) by (simp add: DP_TIMEOUT_LINK_MULT_def)
qed

theorem waits_are_bounded_witness:
  "\<exists>l s' l' s''. dp_th_run 0 [EP_Timeout] loop_start ticking = Some (True, l, s') \<and>
     dp_th_probe 0 l s' = Some (True, l', s'') \<and> tv_ms (wtime l') \<le> 1000"
proof -
  obtain l s' l' s'' where r: "dp_th_run 0 [EP_Timeout] loop_start ticking = Some (True, l, s')"
    "dp_th_probe 0 l s' = Some (True, l', s'')" "n_clock s' \<noteq> []" using ticking_run by blast
  from waits_are_bounded[OF ticking_clock r(1,3,2)] r show ?thesis by blast
qed

text \<open>
  C24. The handshake: the join packet that \<open>dp_send_join\<close> sends is read by \<open>dp_handle_join\<close> at the other
  end as the sender's own Ethernet address and listening address.
\<close>

theorem join_round_trip:
  assumes "n_peers s d = Some dp" and "con_fd dp = Some c" and "\<not> wlock dp" and "no_errors c"
    and "sin_family (l_addr (n_dpg s)) = AF_INET"
    and "dp_send_join d s = Some (r, s1)" and "n_peers s1 d = Some dp1" and "con_fd dp1 = Some c1"
    and "n_peers t e = Some dq" and "con_fd dq = Some cq" and "rx cq = drop (length (tx c)) (tx c1) @ rest"
  shows "\<exists>t1 t2. r = 0 \<and> with_peer e dp_recv_header t = Some ((0, PT_JOIN_PART, of_nat PL_JOIN), t1) \<and>
    dp_handle_join e t1 = Some (0, t2) \<and> dp_host t2 e = Some (own_host s)"
proof -
  obtain as where as: "dp_send_join d s = Some (0, s\<lparr>n_peers := (n_peers s)(d \<mapsto>
      dp\<lparr>con_fd := Some (sent (packet PT_JOIN_PART (of_nat PL_JOIN) (join_payload s)) as c)\<rparr>)\<rparr>)"
    by (rule dp_send_join_bytes[OF assms(1-4)]) blast
  with assms(6-8,11) have rx: "rx cq = packet PT_JOIN_PART (of_nat PL_JOIN) (join_payload s) @ rest" by auto
  let ?t = "reading e dq cq PL_HEADER t"
  have "dp_handle_join e ?t = Some (0, set_dp_host e (own_host s)
      (reading e (dq\<lparr>con_fd := Some (fed PL_HEADER cq)\<rparr>) (fed PL_HEADER cq) PL_JOIN ?t))"
    by (rule dp_handle_join_bytes[where rest = rest]) (use packet_rx(1)[OF rx] assms(5) in simp_all)
  moreover have "r = 0" using as assms(6) by simp
  ultimately show ?thesis using read_header[OF assms(9,10) rx]
    by (auto simp: dp_host_def set_dp_host_def)
qed

theorem join_round_trip_witness:
  "\<exists>bs t1 t2. with_peer 1 dp_recv_header (node2 [] bs) = Some ((0, PT_JOIN_PART, of_nat PL_JOIN), t1) \<and>
    dp_handle_join 1 t1 = Some (0, t2) \<and> dp_host t2 1 = Some (host_no 8)"
proof -
  let ?s = "node2 [] []" and ?bs = "packet PT_JOIN_PART (of_nat PL_JOIN) (join_payload (node2 [] []))"
  obtain as where as: "dp_send_join 0 ?s = Some (0, ?s\<lparr>n_peers := (n_peers ?s)(0 \<mapsto>
      (idle [])\<lparr>con_fd := Some (sent ?bs as (line []))\<rparr>)\<rparr>)"
    by (rule dp_send_join_bytes[of ?s 0 "idle []" "line []"]) auto
  have own: "own_host ?s = host_no 8" by (simp add: own_host_def pair_group_def host_no_def)
  have "sin_family (l_addr pair_group) = AF_INET" by (simp add: pair_group_def host_no_def)
  with join_round_trip[OF _ _ _ _ _ as, of "idle []" "line []" "(idle [])\<lparr>con_fd := Some (sent ?bs as (line []))\<rparr>"
      "sent ?bs as (line [])" "node2 [] ?bs" 1 "idle ?bs" "line ?bs" "[]"] own
  show ?thesis by auto
qed


section \<open>Diagnostics\<close>

text \<open>
  C40. The text in which an Ethernet address is written to stderr (\<open>mac_address_print\<close>) determines it:
  six pairs of hexadecimal digits with colons between them, read back as the bytes of the address.
\<close>

theorem mac_text_round_trip:
  "read_hex (mac_address_print m) = Some (mac_bytes m) \<and> length (mac_address_print m) = 17"
  using read_hex_print[of m] length_mac_address_print[of m] by simp

end
